(* ===== verification/Prelude.thy ===== *)
theory Prelude
  imports Main "HOL-Library.Word" "HOL-Library.Multiset"
begin

text \<open>
  Shared vocabulary of the development: the types of bytes and C integers, the collections of
  rules the component theories add to, and the generic facts about lists, maps and multisets
  that more than one component needs.
\<close>

type_synonym byte = "8 word"
type_synonym bytes = "byte list"
type_synonym u16 = "16 word"
type_synonym u32 = "32 word"
type_synonym size_t = "64 word"

named_theorems state_simps \<open>definitions of state-changing operations, unfolded by the step lemmas\<close>
named_theorems inv_simps \<open>definitions of the invariants\<close>

subsection \<open>Counting the elements of a list that satisfy a predicate\<close>

definition count_if :: "('a \<Rightarrow> bool) \<Rightarrow> 'a list \<Rightarrow> nat" where
  "count_if P xs = length (filter P xs)"

lemma count_if_Nil [simp]: "count_if P [] = 0"
  by (simp add: count_if_def)

lemma count_if_Cons [simp]: "count_if P (x # xs) = (if P x then 1 else 0) + count_if P xs"
  by (simp add: count_if_def)

lemma count_if_append [simp]: "count_if P (xs @ ys) = count_if P xs + count_if P ys"
  by (simp add: count_if_def)

lemma count_if_le_length: "count_if P xs \<le> length xs"
  by (simp add: count_if_def)

lemma count_if_eq_0: "count_if P xs = 0 \<longleftrightarrow> (\<forall>x \<in> set xs. \<not> P x)"
  by (simp add: count_if_def filter_empty_conv)

lemma count_if_eq_length: "count_if P xs = length xs \<longleftrightarrow> (\<forall>x \<in> set xs. P x)"
  unfolding count_if_def
proof
  assume "length (filter P xs) = length xs"
  then show "\<forall>x \<in> set xs. P x"
    using length_filter_less [of _ xs P] by fastforce
qed simp

lemma count_if_map: "count_if P (map f xs) = count_if (\<lambda>x. P (f x)) xs"
  by (induction xs) auto

lemma count_if_cong: "(\<And>x. x \<in> set xs \<Longrightarrow> P x = Q x) \<Longrightarrow> count_if P xs = count_if Q xs"
  by (induction xs) auto

lemma count_if_mono: "(\<And>x. x \<in> set xs \<Longrightarrow> P x \<Longrightarrow> Q x) \<Longrightarrow> count_if P xs \<le> count_if Q xs"
proof (induction xs)
  case (Cons x xs)
  then have "count_if P xs \<le> count_if Q xs" by simp
  with Cons.prems [of x] show ?case by auto
qed simp

text \<open>The effect of one array assignment on a count: what is taken out and what is put in.\<close>

lemma count_if_update:
  "i < length xs \<Longrightarrow>
   count_if P (xs[i := y]) + (if P (xs ! i) then 1 else 0) = count_if P xs + (if P y then 1 else 0)"
proof (induction xs arbitrary: i)
  case (Cons x xs)
  then show ?case by (cases i) auto
qed simp

lemma count_if_pos: "i < length xs \<Longrightarrow> P (xs ! i) \<Longrightarrow> 0 < count_if P xs"
  by (metis count_if_eq_0 gr0I nth_mem)

text \<open>The same for any sum over an array.\<close>

lemma sum_map_update:
  fixes f :: "'a \<Rightarrow> 'b :: comm_monoid_add"
  shows "i < length xs \<Longrightarrow>
    sum_list (map f (xs[i := y])) + f (xs ! i) = sum_list (map f xs) + f y"
proof (induction xs arbitrary: i)
  case (Cons x xs)
  show ?case
  proof (cases i)
    case 0
    then show ?thesis by (simp add: ac_simps)
  next
    case (Suc j)
    with Cons have "sum_list (map f (xs[j := y])) + f (xs ! j) = sum_list (map f xs) + f y" by simp
    with Suc show ?thesis by (simp add: add.assoc)
  qed
qed simp

lemma sum_list_zeros: "(\<And>x. x \<in> set xs \<Longrightarrow> f x = 0) \<Longrightarrow> sum_list (map f xs) = (0 :: 'b :: comm_monoid_add)"
  by (induction xs) auto

lemma fold_same: "(\<And>x. f x s = s) \<Longrightarrow> fold f xs s = s"
  by (induction xs) auto

text \<open>A loop whose body may fail.\<close>

fun fold_option :: "('a \<Rightarrow> 's \<Rightarrow> 's option) \<Rightarrow> 'a list \<Rightarrow> 's \<Rightarrow> 's option" where
  "fold_option f [] s = Some s"
| "fold_option f (x # xs) s = Option.bind (f x s) (fold_option f xs)"

lemma fold_option_append:
  "fold_option f (xs @ ys) s = Option.bind (fold_option f xs s) (fold_option f ys)"
  by (induction xs arbitrary: s) (auto split: Option.bind_splits)

lemma fold_option_fold:
  "(\<And>x s. x \<in> set xs \<Longrightarrow> f x s = Some (g x s)) \<Longrightarrow> fold_option f xs s = Some (fold g xs s)"
  by (induction xs arbitrary: s) auto

text \<open>Progress of such a loop: each pass spends part of a budget, and its effect is seen through a view.\<close>

lemma fold_option_progress:
  assumes "\<And>x s n. x \<in> set xs \<Longrightarrow> Q (cost x + n) s \<Longrightarrow> \<exists>s'. f x s = Some s' \<and> Q n s' \<and> view s' = g x (view s)"
    and "Q (sum_list (map cost xs) + n :: nat) s"
  shows "\<exists>s'. fold_option f xs s = Some s' \<and> Q n s' \<and> view s' = fold g xs (view s)"
  using assms
proof (induction xs arbitrary: s)
  case (Cons x xs)
  have "Q (cost x + (sum_list (map cost xs) + n)) s" using Cons.prems(2) by (simp add: ac_simps)
  from Cons.prems(1) [OF _ this]
  obtain s1 where s1: "f x s = Some s1" "Q (sum_list (map cost xs) + n) s1" "view s1 = g x (view s)" by auto
  from Cons.IH [OF Cons.prems(1) s1(2)] s1(1,3) show ?case by auto
qed simp

lemma fold_option_inv:
  assumes "\<And>x s s'. P s \<Longrightarrow> f x s = Some s' \<Longrightarrow> P s'" and "P s" and "fold_option f xs s = Some s'"
  shows "P s'"
  using assms(2,3)
proof (induction xs arbitrary: s)
  case (Cons x xs)
  then show ?case by (cases "f x s") (auto dest: assms(1))
qed simp

lemma fold_concat_map: "fold f (concat (map h xs)) s = fold (\<lambda>x. fold f (h x)) xs s"
  by (induction xs arbitrary: s) auto

text \<open>What an array holds after an assignment.\<close>

lemma in_update_D: "w \<in> set (ws[i := v]) \<Longrightarrow> w = v \<or> w \<in> set ws"
  using set_update_subset_insert by fastforce

subsection \<open>Multisets collected from the elements of a list\<close>

definition gather :: "('a \<Rightarrow> 'b multiset) \<Rightarrow> 'a list \<Rightarrow> 'b multiset" where
  "gather f xs = sum_list (map f xs)"

lemma gather_Nil [simp]: "gather f [] = {#}"
  by (simp add: gather_def)

lemma gather_Cons [simp]: "gather f (x # xs) = f x + gather f xs"
  by (simp add: gather_def)

lemma gather_append [simp]: "gather f (xs @ ys) = gather f xs + gather f ys"
  by (simp add: gather_def)

lemma gather_update:
  "i < length xs \<Longrightarrow> gather f (xs[i := y]) + f (xs ! i) = gather f xs + f y"
  unfolding gather_def by (rule sum_map_update)

lemma gather_update_same:
  assumes "i < length xs" and "f y = f (xs ! i)"
  shows "gather f (xs[i := y]) = gather f xs"
  using gather_update [of i xs f y] assms by simp

lemma gather_cong: "(\<And>x. x \<in> set xs \<Longrightarrow> f x = g x) \<Longrightarrow> gather f xs = gather g xs"
  by (induction xs) auto

lemma gather_empty: "(\<And>x. x \<in> set xs \<Longrightarrow> f x = {#}) \<Longrightarrow> gather f xs = {#}"
  by (induction xs) auto

lemma gather_map: "gather f (map g xs) = gather (\<lambda>x. f (g x)) xs"
  by (simp add: gather_def comp_def)

lemma nth_in_gather: "i < length xs \<Longrightarrow> x \<in># f (xs ! i) \<Longrightarrow> x \<in># gather f xs"
proof (induction xs arbitrary: i)
  case (Cons y ys)
  then show ?case by (cases i) auto
qed simp

end
