(* ===== verification/Copy_Buffer.thy ===== *)
theory Copy_Buffer
  imports Prelude
begin

text \<open>
  The bounded buffer between the manager and the workers of the directory copying utility
  (sys05 and sys06, the global \<open>file_buffer\<close>): the array of \<open>MAX_BUFFER_SIZE\<close> slots, the ring
  indices \<open>in\<close> and \<open>out\<close>, the count, and the assignments of the two critical sections. The
  ring is used modulo \<open>buffer_size\<close>, a command line argument the program does not compare with
  the length of the array, so a store beyond the array is \<open>None\<close> here.

  The interface \<open>bounded_fifo\<close> is what the threads rely on; the file buffer provides it as long
  as \<open>buffer_size\<close> is at most \<open>MAX_BUFFER_SIZE\<close>.
\<close>

subsection \<open>The interface\<close>

datatype 'a buffer_op = Put 'a | Take

text \<open>A schedule of operations, each under the guard the threads wait for.\<close>

fun run_ops ::
  "('a \<Rightarrow> 'q \<Rightarrow> 'q option) \<Rightarrow> ('q \<Rightarrow> ('a \<times> 'q) option) \<Rightarrow> 'a buffer_op list \<Rightarrow> 'q \<Rightarrow>
   ('a list \<times> 'q) option" where
  "run_ops put take_out [] q = Some ([], q)"
| "run_ops put take_out (Put x # os) q =
     (case put x q of None \<Rightarrow> None | Some q' \<Rightarrow> run_ops put take_out os q')"
| "run_ops put take_out (Take # os) q =
     (case take_out q of None \<Rightarrow> None
      | Some (x, q') \<Rightarrow> (case run_ops put take_out os q' of None \<Rightarrow> None
                         | Some (xs, q'') \<Rightarrow> Some (x # xs, q'')))"

text \<open>The guards: no \<open>Put\<close> into a full buffer and no \<open>Take\<close> from an empty one.\<close>

fun guarded :: "nat \<Rightarrow> nat \<Rightarrow> 'a buffer_op list \<Rightarrow> bool" where
  "guarded cap n [] = True"
| "guarded cap n (Put x # os) = (n < cap \<and> guarded cap (Suc n) os)"
| "guarded cap n (Take # os) = (0 < n \<and> guarded cap (n - 1) os)"

fun puts :: "'a buffer_op list \<Rightarrow> 'a list" where
  "puts [] = []"
| "puts (Put x # os) = x # puts os"
| "puts (Take # os) = puts os"

locale bounded_fifo =
  fixes cap :: nat
    and put :: "'a \<Rightarrow> 'q \<Rightarrow> 'q option"
    and take_out :: "'q \<Rightarrow> ('a \<times> 'q) option"
    and contents :: "'q \<Rightarrow> 'a list"
    and wf :: "'q \<Rightarrow> bool"
  assumes contents_bound: "wf q \<Longrightarrow> length (contents q) \<le> cap"
    and put_ok: "wf q \<Longrightarrow> length (contents q) < cap \<Longrightarrow>
          \<exists>q'. put x q = Some q' \<and> wf q' \<and> contents q' = contents q @ [x]"
    and take_ok: "wf q \<Longrightarrow> contents q \<noteq> [] \<Longrightarrow>
          \<exists>q'. take_out q = Some (hd (contents q), q') \<and> wf q' \<and> contents q' = tl (contents q)"
begin

lemma put_Some: "wf q \<Longrightarrow> length (contents q) < cap \<Longrightarrow> put x q = Some q' \<Longrightarrow>
    wf q' \<and> contents q' = contents q @ [x]"
  using put_ok [of q x] by auto

lemma take_Some: "wf q \<Longrightarrow> contents q \<noteq> [] \<Longrightarrow> take_out q = Some (x, q') \<Longrightarrow>
    contents q = x # contents q' \<and> wf q'"
  using take_ok [of q] by (cases "contents q") auto

text \<open>Every guarded schedule runs, and what comes out is what went in, in the same order.\<close>

lemma run_ops_fifo:
  "wf q \<Longrightarrow> guarded cap (length (contents q)) os \<Longrightarrow>
   \<exists>xs q'. run_ops put take_out os q = Some (xs, q') \<and> wf q' \<and>
           xs @ contents q' = contents q @ puts os"
proof (induction os arbitrary: q)
  case (Cons oper os)
  show ?case
  proof (cases oper)
    case (Put x)
    with Cons.prems obtain q' where "put x q = Some q'" "wf q'" "contents q' = contents q @ [x]"
      using put_ok [of q x] by auto
    with Cons.IH [of q'] Cons.prems Put show ?thesis by auto
  next
    case Take
    with Cons.prems obtain q' where q': "take_out q = Some (hd (contents q), q')" "wf q'"
        "contents q' = tl (contents q)" and ne: "contents q \<noteq> []"
      using take_ok [of q] by auto
    with Cons.IH [of q'] Cons.prems Take obtain xs q'' where
      "run_ops put take_out os q' = Some (xs, q'')" "wf q''"
      "xs @ contents q'' = tl (contents q) @ puts os"
      by auto
    with q' ne Take show ?thesis by (cases "contents q") auto
  qed
qed simp

end

subsection \<open>The ring buffer of the program\<close>

definition MAX_BUFFER_SIZE :: nat where
  "MAX_BUFFER_SIZE = 1024"

record file_info =
  src_fd :: int
  dst_fd :: int
  src_name :: string
  dst_name :: string

record file_buffer =
  buffer :: "file_info list"
  b_in :: nat
  b_out :: nat
  b_count :: nat
  b_done :: bool

text \<open>Static storage is zero, and \<open>main\<close> clears the four fields again.\<close>

definition zero_info :: file_info where
  "zero_info = \<lparr>src_fd = 0, dst_fd = 0, src_name = '''', dst_name = ''''\<rparr>"

definition buffer_init :: file_buffer where
  "buffer_init = \<lparr>buffer = replicate MAX_BUFFER_SIZE zero_info, b_in = 0, b_out = 0,
                  b_count = 0, b_done = False\<rparr>"

text \<open>
  The store of \<open>process_directory\<close> and the fetch of \<open>worker_thread\<close>. \<open>None\<close> is an access beyond
  the array.
\<close>

definition buffer_put :: "nat \<Rightarrow> file_info \<Rightarrow> file_buffer \<Rightarrow> file_buffer option" where
  "buffer_put buffer_size fi b =
     (if b_in b < length (buffer b)
      then Some (b\<lparr>buffer := (buffer b)[b_in b := fi],
                   b_in := (b_in b + 1) mod buffer_size,
                   b_count := b_count b + 1\<rparr>)
      else None)"

definition buffer_take :: "nat \<Rightarrow> file_buffer \<Rightarrow> (file_info \<times> file_buffer) option" where
  "buffer_take buffer_size b =
     (if b_out b < length (buffer b)
      then Some (buffer b ! b_out b,
                 b\<lparr>b_out := (b_out b + 1) mod buffer_size, b_count := b_count b - 1\<rparr>)
      else None)"

text \<open>The abstraction: the queued entries, oldest first.\<close>

definition queued :: "nat \<Rightarrow> file_buffer \<Rightarrow> file_info list" where
  "queued buffer_size b = map (\<lambda>k. buffer b ! ((b_out b + k) mod buffer_size)) [0..<b_count b]"

definition buffer_wf :: "nat \<Rightarrow> file_buffer \<Rightarrow> bool" where
  "buffer_wf buffer_size b =
     (0 < buffer_size \<and> buffer_size \<le> length (buffer b) \<and> b_count b \<le> buffer_size \<and>
      b_out b < buffer_size \<and> b_in b = (b_out b + b_count b) mod buffer_size)"

lemma length_queued [simp]: "length (queued n b) = b_count b"
  by (simp add: queued_def)

lemma queued_eq_Nil: "queued n b = [] \<longleftrightarrow> b_count b = 0"
  by (simp add: queued_def)

lemma queued_done [simp]: "queued n (b\<lparr>b_done := d\<rparr>) = queued n b"
  by (simp add: queued_def)

lemma buffer_wf_done [simp]: "buffer_wf n (b\<lparr>b_done := d\<rparr>) = buffer_wf n b"
  by (simp add: buffer_wf_def)

lemma buffer_init_wf: "0 < n \<Longrightarrow> n \<le> MAX_BUFFER_SIZE \<Longrightarrow> buffer_wf n buffer_init"
  by (simp add: buffer_wf_def buffer_init_def)

lemma buffer_init_queued [simp]: "queued n buffer_init = []"
  by (simp add: queued_def buffer_init_def)

text \<open>Two slots of the ring that are less than one round apart are different slots.\<close>

lemma ring_slots_differ: "k < c \<Longrightarrow> c < n \<Longrightarrow> (p + k) mod n \<noteq> (p + c) mod (n :: nat)"
proof
  assume "k < c" "c < n" and eq: "(p + k) mod n = (p + c) mod n"
  then have "n dvd (p + c) - (p + k)" using mod_eq_dvd_iff_nat [of "p + k" "p + c" n] by simp
  then have "n dvd c - k" by simp
  then show False using \<open>k < c\<close> \<open>c < n\<close> by (auto dest: dvd_imp_le)
qed

lemma buffer_put_queued:
  assumes wf: "buffer_wf n b" and room: "b_count b < n"
  shows "\<exists>b'. buffer_put n fi b = Some b' \<and> buffer_wf n b' \<and> queued n b' = queued n b @ [fi]"
proof -
  from wf have in_b: "b_in b < length (buffer b)" and n: "0 < n"
    and b_in: "b_in b = (b_out b + b_count b) mod n"
    by (auto simp: buffer_wf_def intro: less_le_trans [OF mod_less_divisor])
  let ?b = "b\<lparr>buffer := (buffer b)[b_in b := fi], b_in := (b_in b + 1) mod n,
             b_count := b_count b + 1\<rparr>"
  have "queued n ?b = queued n b @ [fi]"
  proof (rule nth_equalityI)
    fix k assume "k < length (queued n ?b)"
    then have "k < b_count b \<or> k = b_count b" by auto
    then show "queued n ?b ! k = (queued n b @ [fi]) ! k"
    proof
      assume k: "k < b_count b"
      then have "(b_out b + k) mod n \<noteq> b_in b"
        using ring_slots_differ room b_in by simp
      with k show ?thesis by (simp add: queued_def nth_append)
    next
      assume "k = b_count b"
      with in_b b_in show ?thesis by (simp add: queued_def nth_append)
    qed
  qed simp
  moreover have "buffer_wf n ?b"
    using wf room by (auto simp: buffer_wf_def mod_Suc_eq)
  ultimately show ?thesis using in_b by (simp add: buffer_put_def)
qed

lemma buffer_take_queued:
  assumes wf: "buffer_wf n b" and ne: "queued n b \<noteq> []"
  shows "\<exists>b'. buffer_take n b = Some (hd (queued n b), b') \<and> buffer_wf n b' \<and>
              queued n b' = tl (queued n b)"
proof -
  from wf ne have out: "b_out b < length (buffer b)" and n: "0 < n" and c: "0 < b_count b"
    by (auto simp: buffer_wf_def queued_eq_Nil)
  let ?b = "b\<lparr>b_out := (b_out b + 1) mod n, b_count := b_count b - 1\<rparr>"
  have hd: "hd (queued n b) = buffer b ! b_out b"
    using c wf by (simp add: queued_def hd_map upt_conv_Cons buffer_wf_def)
  have "queued n ?b = tl (queued n b)"
    by (rule nth_equalityI) (use c in \<open>simp_all add: queued_def nth_tl mod_Suc_eq mod_add_left_eq\<close>)
  moreover have "((b_out b + 1) mod n + (b_count b - 1)) mod n = (b_out b + b_count b) mod n"
    using mod_add_left_eq [of "b_out b + 1" n "b_count b - 1"] c by simp
  then have "buffer_wf n ?b" using wf c n by (auto simp: buffer_wf_def)
  ultimately show ?thesis using out hd by (simp add: buffer_take_def)
qed

text \<open>
  The file buffer provides the interface for every buffer size; \<open>buffer_wf\<close> asks for a positive
  size that fits the array.
\<close>

interpretation file_fifo: bounded_fifo n "buffer_put n" "buffer_take n" "queued n" "buffer_wf n"
  for n
proof unfold_locales
  show "buffer_wf n q \<Longrightarrow> length (queued n q) \<le> n" for q
    by (simp add: buffer_wf_def)
qed (simp_all add: buffer_put_queued buffer_take_queued)

end
