(* ===== verification/C_Library.thy ===== *)
theory C_Library
  imports Prelude "HOL-Library.Char_ord" "HOL-Library.Sublist"
begin

text \<open>
  The functions of the C standard library that the programs call on NUL-terminated strings:
  a C string is the list of its characters before the terminating NUL, so no character of the
  list is NUL. Each function has the behaviour the C standard gives it; where the standard
  leaves a choice (conversion overflow in \<open>atoi\<close>) the value glibc on x86-64 computes is taken.
\<close>

subsection \<open>strcmp, strncmp\<close>

abbreviation char_code :: "char \<Rightarrow> int" where
  "char_code c \<equiv> of_char c"

fun c_strcmp :: "string \<Rightarrow> string \<Rightarrow> int" where
  "c_strcmp [] [] = 0"
| "c_strcmp [] (y # ys) = - char_code y"
| "c_strcmp (x # xs) [] = char_code x"
| "c_strcmp (x # xs) (y # ys) =
     (if x = y then c_strcmp xs ys else char_code x - char_code y)"

definition nul_free :: "string \<Rightarrow> bool" where
  "nul_free s = (CHR 0x00 \<notin> set s)"

lemma char_code_eq: "char_code x = char_code y \<longleftrightarrow> x = y"
  by simp

lemma char_code_0: "char_code x = 0 \<longleftrightarrow> x = CHR 0x00"
proof -
  have "char_code (CHR 0x00) = 0" by (simp add: of_char_def)
  then show ?thesis by (metis char_code_eq)
qed

lemma char_code_nonneg: "0 \<le> char_code x"
  by (simp add: of_char_def)

lemma nul_free_Cons [simp]: "nul_free (x # xs) \<longleftrightarrow> x \<noteq> CHR 0x00 \<and> nul_free xs"
  by (auto simp: nul_free_def)

lemma nul_free_Nil [simp]: "nul_free []"
  by (simp add: nul_free_def)

lemma c_strcmp_refl [simp]: "c_strcmp s s = 0"
  by (induction s) auto

lemma c_strcmp_eq_0: "nul_free s \<Longrightarrow> nul_free t \<Longrightarrow> c_strcmp s t = 0 \<longleftrightarrow> s = t"
  by (induction s t rule: c_strcmp.induct) (auto simp: char_code_0)

lemma c_strcmp_sym: "c_strcmp s t = - c_strcmp t s"
  by (induction s t rule: c_strcmp.induct) auto

lemma c_strcmp_trans:
  "c_strcmp s t \<le> 0 \<Longrightarrow> c_strcmp t u \<le> 0 \<Longrightarrow> nul_free s \<Longrightarrow> nul_free t \<Longrightarrow> c_strcmp s u \<le> 0"
proof (induction s t arbitrary: u rule: c_strcmp.induct)
  case (3 x xs)
  then have "char_code x = 0" using char_code_nonneg [of x] by simp
  with 3 show ?case by (simp add: char_code_0)
next
  case (4 x xs y ys)
  show ?case
  proof (cases u)
    case Nil
    with 4 char_code_nonneg [of y] have "char_code y = 0" by simp
    with 4 show ?thesis by (simp add: char_code_0)
  next
    case (Cons z zs)
    consider "x = y" | "x \<noteq> y" "y = z" | "x \<noteq> y" "y \<noteq> z" by blast
    then show ?thesis
    proof cases
      case 1
      with 4 Cons show ?thesis by (cases "x = z") simp_all
    next
      case 2
      with 4 Cons show ?thesis by simp
    next
      case 3
      with 4 Cons have "char_code x \<le> char_code y" and "char_code y \<le> char_code z" by simp_all
      moreover from 3 have "char_code x \<noteq> char_code y" by simp
      ultimately show ?thesis using Cons by (cases "x = z") simp_all
    qed
  qed
next
  case (2 y ys)
  then show ?case using char_code_nonneg by (cases u) auto
qed (cases u; simp add: char_code_nonneg)

lemma c_strcmp_total: "c_strcmp s t \<le> 0 \<or> c_strcmp t s \<le> 0"
  using c_strcmp_sym [of s t] by linarith

definition c_strncmp :: "string \<Rightarrow> string \<Rightarrow> nat \<Rightarrow> int" where
  "c_strncmp s t n = c_strcmp (take n s) (take n t)"

subsection \<open>strtok\<close>

text \<open>
  One call of \<open>strtok\<close>: the token, or \<open>None\<close> for a null pointer, and the saved pointer as the
  string that is left. A first call passes the string, a call with a null pointer passes what
  the call before left.
\<close>

definition c_strtok :: "string \<Rightarrow> string \<Rightarrow> string option \<times> string" where
  "c_strtok delims s =
     (let s' = dropWhile (\<lambda>c. c \<in> set delims) s
      in if s' = [] then (None, [])
         else (Some (takeWhile (\<lambda>c. c \<notin> set delims) s'),
               drop 1 (dropWhile (\<lambda>c. c \<notin> set delims) s')))"

fun c_tokens :: "nat \<Rightarrow> string \<Rightarrow> string \<Rightarrow> string option list" where
  "c_tokens 0 delims s = []"
| "c_tokens (Suc n) delims s =
     (let (t, r) = c_strtok delims s in t # c_tokens n delims r)"

lemma c_strtok_None: "fst (c_strtok d s) = None \<longleftrightarrow> set s \<subseteq> set d"
  by (auto simp: c_strtok_def Let_def)

lemma c_strtok_None_rest: "c_strtok d s = (None, r) \<Longrightarrow> r = []"
  by (auto simp: c_strtok_def Let_def split: if_splits)

lemma c_strtok_Nil [simp]: "c_strtok d [] = (None, [])"
  by (simp add: c_strtok_def)

lemma c_strtok_nonempty: "fst (c_strtok d s) = Some t \<Longrightarrow> t \<noteq> []"
proof -
  assume *: "fst (c_strtok d s) = Some t"
  let ?s = "dropWhile (\<lambda>c. c \<in> set d) s"
  from * have ne: "?s \<noteq> []" and t: "t = takeWhile (\<lambda>c. c \<notin> set d) ?s"
    by (auto simp: c_strtok_def Let_def split: if_splits)
  from hd_dropWhile [OF ne] have "hd ?s \<notin> set d" by simp
  with ne t show ?thesis by (cases ?s) auto
qed

lemma c_strtok_no_delim: "fst (c_strtok d s) = Some t \<Longrightarrow> set t \<inter> set d = {}"
  by (auto simp: c_strtok_def Let_def split: if_splits dest: set_takeWhileD)

text \<open>The token in front of a delimiter, and the last token of a string.\<close>

lemma c_strtok_token:
  assumes "t \<noteq> []" and "set t \<inter> set d = {}" and "c \<in> set d"
  shows "c_strtok d (t @ c # r) = (Some t, r)"
proof -
  from assms have "dropWhile (\<lambda>c. c \<in> set d) (t @ c # r) = t @ c # r"
    by (cases t) auto
  moreover from assms have "takeWhile (\<lambda>c. c \<notin> set d) (t @ c # r) = t"
    by (subst takeWhile_append2) auto
  moreover from assms have "dropWhile (\<lambda>c. c \<notin> set d) (t @ c # r) = c # r"
    by (subst dropWhile_append2) auto
  ultimately show ?thesis by (simp add: c_strtok_def Let_def assms(1))
qed

lemma c_strtok_last:
  assumes "t \<noteq> []" and "set t \<inter> set d = {}"
  shows "c_strtok d t = (Some t, [])"
proof -
  from assms have "dropWhile (\<lambda>c. c \<in> set d) t = t" by (cases t) auto
  moreover from assms have "takeWhile (\<lambda>c. c \<notin> set d) t = t"
    by (auto simp: takeWhile_eq_all_conv)
  moreover from assms have "dropWhile (\<lambda>c. c \<notin> set d) t = []"
    by (auto simp: disjoint_iff)
  ultimately show ?thesis by (simp add: c_strtok_def Let_def assms(1) del: dropWhile_eq_Nil_conv)
qed

lemma c_strtok_skip: "c \<in> set d \<Longrightarrow> c_strtok d (c # s) = c_strtok d s"
  by (simp add: c_strtok_def)

subsection \<open>snprintf, strncpy\<close>

text \<open>\<open>snprintf(buf, n, ...)\<close> keeps the first \<open>n - 1\<close> characters of the text and ends it.\<close>

definition c_snprintf :: "nat \<Rightarrow> string \<Rightarrow> string" where
  "c_snprintf n s = take (n - 1) s"

text \<open>
  \<open>strncpy(dst, src, n)\<close> with \<open>n\<close> the size of the array \<open>dst\<close>: the string, cut or padded with
  NUL to exactly \<open>n\<close> characters; it is not terminated when \<open>src\<close> has \<open>n\<close> characters or more.
\<close>

definition c_strncpy :: "nat \<Rightarrow> string \<Rightarrow> string" where
  "c_strncpy n s = take n s @ replicate (n - length s) (CHR 0x00)"

text \<open>The C string at the start of an array: what a reader up to the first NUL sees.\<close>

definition c_str :: "string \<Rightarrow> string" where
  "c_str a = takeWhile (\<lambda>c. c \<noteq> CHR 0x00) a"

lemma length_c_strncpy [simp]: "length (c_strncpy n s) = n"
  by (simp add: c_strncpy_def)

lemma c_str_strncpy: "nul_free s \<Longrightarrow> c_str (c_strncpy n s) = take n s"
proof -
  assume "nul_free s"
  then have "\<forall>c \<in> set (take n s). c \<noteq> CHR 0x00"
    by (auto simp: nul_free_def dest: in_set_takeD)
  then show ?thesis
    by (simp add: c_str_def c_strncpy_def takeWhile_append takeWhile_replicate)
qed

lemma nul_free_append [simp]: "nul_free (s @ t) \<longleftrightarrow> nul_free s \<and> nul_free t"
  by (auto simp: nul_free_def)

lemma nul_free_concat: "nul_free (concat ss) \<longleftrightarrow> (\<forall>s \<in> set ss. nul_free s)"
  by (induction ss) auto

lemma c_str_id [simp]: "nul_free s \<Longrightarrow> c_str s = s"
  by (auto simp: c_str_def nul_free_def takeWhile_eq_all_conv)

lemma nul_free_c_str [simp]: "nul_free (c_str s)"
  by (auto simp: nul_free_def c_str_def dest: set_takeWhileD)

lemma c_snprintf_short: "length s < n \<Longrightarrow> c_snprintf n s = s"
  by (simp add: c_snprintf_def)

lemma length_c_snprintf: "0 < n \<Longrightarrow> length (c_snprintf n s) < n"
  by (simp add: c_snprintf_def)

subsection \<open>atoi and printing of integers\<close>

definition is_space :: "char \<Rightarrow> bool" where
  "is_space c = (char_code c \<in> {9, 10, 11, 12, 13, 32})"

definition is_digit :: "char \<Rightarrow> bool" where
  "is_digit c = (48 \<le> char_code c \<and> char_code c \<le> 57)"

definition digits_value :: "string \<Rightarrow> int" where
  "digits_value ds = foldl (\<lambda>v c. 10 * v + (char_code c - 48)) 0 ds"

definition clamp_long :: "int \<Rightarrow> int" where
  "clamp_long v = max (- (2 ^ 63)) (min (2 ^ 63 - 1) v)"

text \<open>glibc's \<open>atoi\<close> is \<open>(int) strtol(s, NULL, 10)\<close>: saturation at \<open>long\<close>, then a narrowing.\<close>

definition c_atoi :: "string \<Rightarrow> int" where
  "c_atoi s =
     (let s1 = dropWhile is_space s;
          neg = (s1 \<noteq> [] \<and> hd s1 = CHR ''-'');
          s2 = (if s1 \<noteq> [] \<and> (hd s1 = CHR ''-'' \<or> hd s1 = CHR ''+'') then tl s1 else s1);
          v = digits_value (takeWhile is_digit s2)
      in signed_take_bit 31 (clamp_long (if neg then - v else v)))"

lemma c_atoi_range: "- (2 ^ 31) \<le> c_atoi s" "c_atoi s < 2 ^ 31"
  unfolding c_atoi_def Let_def
  by (rule signed_take_bit_int_greater_eq_minus_exp signed_take_bit_int_less_exp)+

fun dec_digits :: "nat \<Rightarrow> string" where
  "dec_digits n =
     (if n < 10 then [char_of (n + 48)] else dec_digits (n div 10) @ [char_of (n mod 10 + 48)])"

declare dec_digits.simps [simp del]

definition c_show_int :: "int \<Rightarrow> string" where
  "c_show_int i = (if i < 0 then ''-'' @ dec_digits (nat (- i)) else dec_digits (nat i))"

lemma digit_char: "n < 10 \<Longrightarrow> char_code (char_of (n + 48 :: nat)) = int n + 48"
  by (subst of_nat_of_char [symmetric]) simp

lemma digits_value_append:
  "digits_value (xs @ [c]) = 10 * digits_value xs + (char_code c - 48)"
  by (simp add: digits_value_def)

lemma digits_value_dec_digits: "digits_value (dec_digits n) = int n"
proof (induction n rule: dec_digits.induct)
  case (1 n)
  show ?case
  proof (cases "n < 10")
    case True
    then show ?thesis
      by (subst dec_digits.simps) (simp add: digits_value_def digit_char)
  next
    case False
    then have "digits_value (dec_digits (n div 10)) = int (n div 10)" by (rule 1)
    moreover have "10 * int (n div 10) + int (n mod 10) = int n"
      by (metis mult_div_mod_eq of_nat_add of_nat_mult of_nat_numeral)
    ultimately show ?thesis using False
      by (subst dec_digits.simps) (simp add: digits_value_append digit_char)
  qed
qed

lemma dec_digits_digits: "c \<in> set (dec_digits n) \<Longrightarrow> is_digit c"
proof (induction n rule: dec_digits.induct)
  case (1 n)
  show ?case
  proof (cases "n < 10")
    case True
    with 1 show ?thesis by (simp add: dec_digits.simps is_digit_def digit_char)
  next
    case False
    then have "c = char_of (n mod 10 + 48) \<or> c \<in> set (dec_digits (n div 10))"
      using 1(2) by (subst (asm) dec_digits.simps) auto
    then show ?thesis
    proof
      assume "c = char_of (n mod 10 + 48)"
      then have "char_code c = int (n mod 10) + 48" by (simp only: digit_char mod_less_divisor)
      then show ?thesis by (simp add: is_digit_def)
    qed (use 1 False in simp)
  qed
qed

lemma dec_digits_nonempty: "dec_digits n \<noteq> []"
  by (subst dec_digits.simps) simp

subsection \<open>Printed integers and white space\<close>

definition is_int :: "int \<Rightarrow> bool" where
  "is_int v = (- (2 ^ 31) \<le> v \<and> v < 2 ^ 31)"

lemma digit_not_space: "is_digit c \<Longrightarrow> \<not> is_space c"
  by (auto simp: is_digit_def is_space_def)

lemma digit_not_sign: "is_digit c \<Longrightarrow> c \<noteq> CHR ''-'' \<and> c \<noteq> CHR ''+''"
  by (auto simp: is_digit_def)

lemma minus_facts: "\<not> is_space CHR ''-''" "\<not> is_digit CHR ''-''"
  by (auto simp: is_space_def is_digit_def)

lemma dec_digits_span:
  assumes "rest = [] \<or> \<not> is_digit (hd rest)"
  shows "takeWhile is_digit (dec_digits n @ rest) = dec_digits n"
    "dropWhile is_digit (dec_digits n @ rest) = rest"
proof -
  have "takeWhile is_digit rest = []" "dropWhile is_digit rest = rest"
    using assms by (cases rest; simp)+
  then show "takeWhile is_digit (dec_digits n @ rest) = dec_digits n"
    "dropWhile is_digit (dec_digits n @ rest) = rest"
    using dec_digits_digits [of _ n] by (simp_all add: takeWhile_append dropWhile_append)
qed

lemma narrow_int: "is_int v \<Longrightarrow> signed_take_bit 31 (clamp_long v) = v"
  by (simp add: is_int_def clamp_long_def signed_take_bit_int_eq_self)

lemma shown_no_space: "dropWhile is_space (c_show_int v @ rest) = c_show_int v @ rest"
proof (cases "v < 0")
  case False
  obtain c cs where c: "dec_digits (nat v) = c # cs"
    using dec_digits_nonempty [of "nat v"] by (cases "dec_digits (nat v)") auto
  then have "is_digit c" using dec_digits_digits [of c "nat v"] by simp
  with False c show ?thesis by (simp add: c_show_int_def digit_not_space)
qed (simp add: c_show_int_def minus_facts)

text \<open>A printed \<open>int\<close> has at most 11 characters.\<close>

lemma length_dec_digits: "n < 10 ^ Suc k \<Longrightarrow> length (dec_digits n) \<le> Suc k"
proof (induction k arbitrary: n)
  case 0
  then show ?case by (simp add: dec_digits.simps)
next
  case (Suc k)
  then have "length (dec_digits (n div 10)) \<le> Suc k" by (intro Suc.IH) simp
  then show ?case by (subst dec_digits.simps) simp
qed

lemma length_shown: "is_int v \<Longrightarrow> length (c_show_int v) \<le> 11"
proof -
  assume "is_int v"
  then have "nat v < 10 ^ Suc 9" "nat (- v) < 10 ^ Suc 9" by (auto simp: is_int_def)
  from this [THEN length_dec_digits] show ?thesis by (simp add: c_show_int_def)
qed

text \<open>\<open>atoi\<close> reads back what \<open>printf\<close> of an \<open>int\<close> printed.\<close>

lemma c_atoi_shown: "is_int v \<Longrightarrow> c_atoi (c_show_int v) = v"
proof -
  assume v: "is_int v"
  have sp: "dropWhile is_space (c_show_int v) = c_show_int v"
    using shown_no_space [of v "[]"] by simp
  have tw: "takeWhile is_digit (dec_digits n) = dec_digits n" for n
    using dec_digits_span(1) [of "[]" n] by simp
  show ?thesis
  proof (cases "v < 0")
    case True
    with v sp show ?thesis
      by (simp add: c_atoi_def c_show_int_def Let_def digits_value_dec_digits narrow_int tw)
  next
    case False
    obtain c cs where c: "dec_digits (nat v) = c # cs"
      using dec_digits_nonempty [of "nat v"] by (cases "dec_digits (nat v)") auto
    then have "is_digit c" using dec_digits_digits [of c "nat v"] by simp
    then have "hd (dec_digits (nat v)) \<noteq> CHR ''-''" "hd (dec_digits (nat v)) \<noteq> CHR ''+''"
      using digit_not_sign by (simp_all add: c)
    with False v sp show ?thesis
      by (simp add: c_atoi_def c_show_int_def Let_def digits_value_dec_digits narrow_int tw)
  qed
qed

end
