(* ===== verification/Copy_Scan.thy ===== *)
theory Copy_Scan
  imports C_Library
begin

text \<open>
  The sequential parts of the directory copying utility: the read/write loop of a worker and the
  directory traversal \<open>process_directory\<close> with its counters. The file system is a parameter, the
  record \<open>fs_env\<close> of the answers the system calls give for a path.
\<close>

subsection \<open>The copy loop of a worker\<close>

text \<open>
  \<open>rd k\<close> says that the \<open>k\<close>-th \<open>read\<close> of the source fails; a read that succeeds on a regular file
  returns the next bytes, up to the size of the buffer. \<open>wr k n\<close> is what the \<open>k\<close>-th \<open>write\<close> of
  \<open>n\<close> bytes returns. The result is what reached the destination and the local \<open>total_bytes\<close>.
\<close>

function copy_loop ::
  "(nat \<Rightarrow> bool) \<Rightarrow> (nat \<Rightarrow> nat \<Rightarrow> int) \<Rightarrow> nat \<Rightarrow> bytes \<Rightarrow> bytes \<Rightarrow> size_t \<Rightarrow> bytes \<times> size_t" where
  "copy_loop rd wr k data out total_bytes =
     (if rd k \<or> data = [] then (out, total_bytes)
      else let chunk = take 4096 data; written = wr k (length chunk)
           in if written \<noteq> int (length chunk)
              then (out @ take (nat written) chunk, total_bytes)
              else copy_loop rd wr (Suc k) (drop 4096 data) (out @ chunk)
                     (total_bytes + of_nat (length chunk)))"
  by pat_completeness auto
termination
  by (relation "measure (\<lambda>(rd, wr, k, data, out, total_bytes). length data)") auto

declare copy_loop.simps [simp del]

text \<open>Without failures the whole file arrives, and the count is its length.\<close>

lemma copy_loop_unfailing:
  "copy_loop (\<lambda>_. False) (\<lambda>_. int) k data out total_bytes =
     (out @ data, total_bytes + of_nat (length data))"
proof (induction data arbitrary: k out total_bytes rule: length_induct)
  case (1 data)
  show ?case
  proof (cases "data = []")
    case True
    then show ?thesis by (simp add: copy_loop.simps)
  next
    case False
    have "length (take 4096 data) + length (drop 4096 data) = length data" by simp
    then have len: "(of_nat (length (take 4096 data)) + of_nat (length (drop 4096 data)) :: size_t) =
        of_nat (length data)"
      by (metis of_nat_add)
    have "length (drop 4096 data) < length data" using False by simp
    with 1 have "copy_loop (\<lambda>_. False) (\<lambda>_. int) (Suc k) (drop 4096 data) (out @ take 4096 data)
        (total_bytes + of_nat (length (take 4096 data))) =
      ((out @ take 4096 data) @ drop 4096 data,
       total_bytes + of_nat (length (take 4096 data)) + of_nat (length (drop 4096 data)))"
      by blast
    then show ?thesis using False len
      by (subst copy_loop.simps) (simp add: Let_def add.assoc)
  qed
qed

lemma copy_loop_all:
  assumes "\<And>k. \<not> rd k" and "\<And>k n. wr k n = int n"
  shows "copy_loop rd wr k data out total_bytes = (out @ data, total_bytes + of_nat (length data))"
proof -
  have "rd = (\<lambda>_. False)" and "wr = (\<lambda>_. int)" using assms by (auto intro!: ext)
  then show ?thesis by (simp add: copy_loop_unfailing)
qed

text \<open>Whatever fails, the destination holds a prefix of the source.\<close>

lemma copy_loop_is_prefix:
  "\<exists>p rest. fst (copy_loop rd wr k data out total_bytes) = out @ p \<and> data = p @ rest"
proof (induction rd wr k data out total_bytes rule: copy_loop.induct)
  case (1 rd wr k data out total_bytes)
  let ?chunk = "take 4096 data"
  consider "rd k \<or> data = []" | "\<not> (rd k \<or> data = [])" "wr k (length ?chunk) \<noteq> int (length ?chunk)"
    | "\<not> (rd k \<or> data = [])" "wr k (length ?chunk) = int (length ?chunk)"
    by blast
  then show ?case
  proof cases
    case 1
    then show ?thesis by (subst copy_loop.simps) auto
  next
    case 2
    then have "fst (copy_loop rd wr k data out total_bytes) =
        out @ take (nat (wr k (length ?chunk))) ?chunk"
      by (subst copy_loop.simps) (simp add: Let_def)
    then show ?thesis by (metis append_take_drop_id take_take)
  next
    case 3
    then obtain p rest where "fst (copy_loop rd wr (Suc k) (drop 4096 data) (out @ ?chunk)
        (total_bytes + of_nat (length ?chunk))) = (out @ ?chunk) @ p" and "drop 4096 data = p @ rest"
      using 1 by metis
    moreover have "copy_loop rd wr k data out total_bytes = copy_loop rd wr (Suc k) (drop 4096 data)
        (out @ ?chunk) (total_bytes + of_nat (length ?chunk))"
      using 3 by (subst copy_loop.simps) (simp add: Let_def)
    ultimately show ?thesis by (metis append.assoc append_take_drop_id)
  qed
qed

subsection \<open>The directory traversal\<close>

datatype file_type = S_REG | S_DIR | S_FIFO | S_LNK | S_OTHER

record fs_env =
  opendir :: "string \<Rightarrow> string list option" \<comment> \<open>the names \<open>readdir\<close> returns, in order\<close>
  lstat :: "string \<Rightarrow> file_type option"
  open_src :: "string \<Rightarrow> bytes option" \<comment> \<open>the contents of the opened file\<close>
  open_dst :: "string \<Rightarrow> bool"
  readlink :: "string \<Rightarrow> string option"
  read_fails :: "string \<Rightarrow> nat \<Rightarrow> bool"
  write_result :: "string \<Rightarrow> nat \<Rightarrow> nat \<Rightarrow> int"

text \<open>\<open>snprintf(path, 512, "%s/%s", dir, name)\<close>.\<close>

definition join_path :: "string \<Rightarrow> string \<Rightarrow> string" where
  "join_path dir name = c_snprintf 512 (dir @ ''/'' @ name)"

text \<open>What one directory entry asks for, after all its early \<open>continue\<close>s.\<close>

datatype action =
    Skip
  | CopyRegular string string bytes
  | MakeDir string string
  | CountFifo
  | MakeLink "(string \<times> string) option"

definition entry_action :: "fs_env \<Rightarrow> string \<Rightarrow> string \<Rightarrow> string \<Rightarrow> action" where
  "entry_action env src_dir dst_dir d_name =
     (if d_name = ''.'' \<or> d_name = ''..'' then Skip
      else let src_path = join_path src_dir d_name; dst_path = join_path dst_dir d_name in
        case lstat env src_path of
          None \<Rightarrow> Skip
        | Some S_REG \<Rightarrow>
            (case open_src env src_path of
               None \<Rightarrow> Skip
             | Some data \<Rightarrow>
                 if open_dst env dst_path then CopyRegular src_path dst_path data else Skip)
        | Some S_DIR \<Rightarrow> MakeDir src_path dst_path
        | Some S_FIFO \<Rightarrow> CountFifo
        | Some S_LNK \<Rightarrow>
            (case readlink env src_path of
               None \<Rightarrow> MakeLink None
             | Some target \<Rightarrow> MakeLink (Some (take 511 target, dst_path)))
        | Some S_OTHER \<Rightarrow> Skip)"

text \<open>The globals the traversal writes and the calls it makes on the destination.\<close>

record scan =
  sc_files :: "(string \<times> string \<times> bytes) list"
  sc_fifo_files :: nat
  sc_directories :: nat
  sc_symlinks :: nat
  sc_mkdirs :: "string list"
  sc_links :: "(string \<times> string) list"

definition empty_scan :: scan where
  "empty_scan = \<lparr>sc_files = [], sc_fifo_files = 0, sc_directories = 0, sc_symlinks = 0,
                 sc_mkdirs = [], sc_links = []\<rparr>"

fun link_list :: "(string \<times> string) option \<Rightarrow> (string \<times> string) list" where
  "link_list None = []"
| "link_list (Some l) = [l]"

fun record_action :: "action \<Rightarrow> scan \<Rightarrow> scan" where
  "record_action Skip sc = sc"
| "record_action (CopyRegular sp dp data) sc = sc\<lparr>sc_files := sc_files sc @ [(sp, dp, data)]\<rparr>"
| "record_action (MakeDir sp dp) sc =
     sc\<lparr>sc_directories := sc_directories sc + 1, sc_mkdirs := sc_mkdirs sc @ [dp]\<rparr>"
| "record_action CountFifo sc = sc\<lparr>sc_fifo_files := sc_fifo_files sc + 1\<rparr>"
| "record_action (MakeLink l) sc =
     sc\<lparr>sc_symlinks := sc_symlinks sc + 1, sc_links := sc_links sc @ link_list l\<rparr>"

text \<open>
  The recursion of the source, undisturbed by \<open>stop\<close>: the first argument bounds the depth of
  the recursion, \<open>None\<close> is a recursion deeper than the bound.
\<close>

function process_directory :: "nat \<Rightarrow> fs_env \<Rightarrow> string \<Rightarrow> string \<Rightarrow> scan \<Rightarrow> scan option"
  and process_entries ::
    "nat \<Rightarrow> fs_env \<Rightarrow> string \<Rightarrow> string \<Rightarrow> string list \<Rightarrow> scan \<Rightarrow> scan option" where
  "process_directory 0 env src_dir dst_dir sc = None"
| "process_directory (Suc depth) env src_dir dst_dir sc =
     (case opendir env src_dir of
        None \<Rightarrow> Some sc
      | Some names \<Rightarrow> process_entries depth env src_dir dst_dir names sc)"
| "process_entries depth env src_dir dst_dir [] sc = Some sc"
| "process_entries depth env src_dir dst_dir (d_name # names) sc =
     (let act = entry_action env src_dir dst_dir d_name; sc' = record_action act sc in
      case act of
        MakeDir src_path dst_path \<Rightarrow>
          (case process_directory depth env src_path dst_path sc' of
             None \<Rightarrow> None
           | Some sc'' \<Rightarrow> process_entries depth env src_dir dst_dir names sc'')
      | _ \<Rightarrow> process_entries depth env src_dir dst_dir names sc')"
  by pat_completeness auto
termination
  by (relation "measures [\<lambda>x. case x of Inl (d, _) \<Rightarrow> 2 * d | Inr (d, _) \<Rightarrow> 2 * d + 1,
        \<lambda>x. case x of Inl _ \<Rightarrow> 0 | Inr (_, _, _, _, ns, _) \<Rightarrow> length ns]") auto

text \<open>
  The same traversal one loop iteration at a time, with the activations of the recursion kept as
  a stack of frames (source directory, destination directory, names still to read).
\<close>

type_synonym frame = "string \<times> string \<times> string list"

definition enter_directory :: "fs_env \<Rightarrow> string \<Rightarrow> string \<Rightarrow> frame list" where
  "enter_directory env src_dir dst_dir =
     (case opendir env src_dir of None \<Rightarrow> [] | Some names \<Rightarrow> [(src_dir, dst_dir, names)])"

fun scan_step :: "fs_env \<Rightarrow> frame list \<times> scan \<Rightarrow> frame list \<times> scan" where
  "scan_step env ([], sc) = ([], sc)"
| "scan_step env ((sd, dd, []) # fs, sc) = (fs, sc)"
| "scan_step env ((sd, dd, n # ns) # fs, sc) =
     (let act = entry_action env sd dd n in
      ((case act of MakeDir sp dp \<Rightarrow> enter_directory env sp dp | _ \<Rightarrow> []) @ (sd, dd, ns) # fs,
       record_action act sc))"

lemma scan_steps_append:
  assumes "((scan_step env) ^^ k) x = y" and "((scan_step env) ^^ l) y = z"
  shows "((scan_step env) ^^ (l + k)) x = z"
  using assms by (simp add: funpow_add)

lemma scan_entry_run:
  assumes "((scan_step env) ^^ l)
      ((case entry_action env sd dd n of MakeDir sp dp \<Rightarrow> enter_directory env sp dp | _ \<Rightarrow> []) @
         (sd, dd, ns) # fs, record_action (entry_action env sd dd n) sc) = y"
  shows "\<exists>k. ((scan_step env) ^^ k) ((sd, dd, n # ns) # fs, sc) = y"
proof -
  have "((scan_step env) ^^ Suc l) ((sd, dd, n # ns) # fs, sc) = y"
    using assms by (simp add: funpow_swap1 Let_def)
  then show ?thesis by blast
qed

text \<open>The recursion is the iteration, frame by frame.\<close>

lemma process_directory_scan:
  "process_directory depth env sd dd sc = Some sc' \<Longrightarrow>
     \<exists>k. ((scan_step env) ^^ k) (enter_directory env sd dd @ fs, sc) = (fs, sc')"
  "process_entries depth env sd dd ns sc = Some sc' \<Longrightarrow>
     \<exists>k. ((scan_step env) ^^ k) ((sd, dd, ns) # fs, sc) = (fs, sc')"
proof (induction depth env sd dd sc and depth env sd dd ns sc
    arbitrary: sc' fs and sc' fs rule: process_directory_process_entries.induct)
  case (2 depth env sd dd sc)
  show ?case
  proof (cases "opendir env sd")
    case None
    with 2 have "((scan_step env) ^^ 0) (enter_directory env sd dd @ fs, sc) = (fs, sc')"
      by (simp add: enter_directory_def)
    then show ?thesis by blast
  next
    case (Some names)
    with 2 show ?thesis by (simp add: enter_directory_def)
  qed
next
  case (3 depth env sd dd sc)
  then have "((scan_step env) ^^ Suc 0) ((sd, dd, []) # fs, sc) = (fs, sc')" by simp
  then show ?case by blast
next
  case (4 depth env sd dd n ns sc)
  let ?act = "entry_action env sd dd n"
  let ?fs = "(sd, dd, ns) # fs"
  show ?case
  proof (cases "\<exists>sp dp. ?act = MakeDir sp dp")
    case True
    then obtain sp dp where act: "?act = MakeDir sp dp" by blast
    with "4.prems" obtain sc1 where
      d: "process_directory depth env sp dp (record_action ?act sc) = Some sc1" and
      e: "process_entries depth env sd dd ns sc1 = Some sc'"
      by (auto simp: Let_def split: option.splits)
    have "\<exists>k. ((scan_step env) ^^ k) (enter_directory env sp dp @ ?fs, record_action ?act sc) = (?fs, sc1)"
      using "4.IH"(3) [OF refl refl act d] by blast
    then obtain k where k:
      "((scan_step env) ^^ k) (enter_directory env sp dp @ ?fs, record_action ?act sc) = (?fs, sc1)"
      by blast
    have "\<exists>l. ((scan_step env) ^^ l) (?fs, sc1) = (fs, sc')"
      using "4.IH"(4) [OF refl refl act d e] by blast
    then obtain l where l: "((scan_step env) ^^ l) (?fs, sc1) = (fs, sc')" by blast
    from scan_steps_append [OF k l] act show ?thesis
      by (intro scan_entry_run [where l = "l + k"]) simp
  next
    case False
    then have e: "process_entries depth env sd dd ns (record_action ?act sc) = Some sc'"
      using "4.prems" by (auto simp: Let_def split: action.splits)
    have "\<exists>l. ((scan_step env) ^^ l) (?fs, record_action ?act sc) = (fs, sc')"
      using "4.IH"(1,2,5,6) e False by (cases ?act) auto
    then obtain l where "((scan_step env) ^^ l) (?fs, record_action ?act sc) = (fs, sc')" by blast
    then show ?thesis
      using False by (intro scan_entry_run [where l = l]) (cases ?act; simp)
  qed
qed simp

text \<open>The traversal from an empty stack stays where it is, so its result is unique.\<close>

lemma scan_steps_stay: "((scan_step env) ^^ k) ([], sc) = ([], sc)"
  by (induction k) auto

lemma scan_result_unique:
  assumes "((scan_step env) ^^ k) x = ([], sc)" and "((scan_step env) ^^ l) x = ([], sc')"
  shows "sc = sc'"
proof -
  have "((scan_step env) ^^ (l + k)) x = ([], sc)"
    using assms(1) by (simp add: funpow_add scan_steps_stay)
  moreover have "((scan_step env) ^^ (k + l)) x = ([], sc')"
    using assms(2) by (simp add: funpow_add scan_steps_stay)
  ultimately show ?thesis by (simp add: add.commute)
qed

end
