(* ===== verification/Transition_Systems.thy ===== *)
theory Transition_Systems
  imports Prelude
begin

text \<open>
  The interface of every concurrent component: a set of initial states and a step relation.
  A component that supplies an invariant, a progress argument, a measure or a simulation
  gets the corresponding statement about its reachable states from the locales below.
\<close>

inductive reachable :: "('s \<Rightarrow> bool) \<Rightarrow> ('s \<Rightarrow> 's \<Rightarrow> bool) \<Rightarrow> 's \<Rightarrow> bool"
  for init :: "'s \<Rightarrow> bool" and step :: "'s \<Rightarrow> 's \<Rightarrow> bool" where
  reach_init: "init s \<Longrightarrow> reachable init step s"
| reach_step: "reachable init step s \<Longrightarrow> step s t \<Longrightarrow> reachable init step t"

inductive steps :: "('s \<Rightarrow> 's \<Rightarrow> bool) \<Rightarrow> nat \<Rightarrow> 's \<Rightarrow> 's \<Rightarrow> bool"
  for step :: "'s \<Rightarrow> 's \<Rightarrow> bool" where
  steps_0: "steps step 0 s s"
| steps_Suc: "step s t \<Longrightarrow> steps step n t u \<Longrightarrow> steps step (Suc n) s u"

inductive_simps steps_0_iff [simp]: "steps step 0 s t"
inductive_simps steps_Suc_iff: "steps step (Suc n) s t"

lemma reachable_steps:
  "steps step n s t \<Longrightarrow> reachable init step s \<Longrightarrow> reachable init step t"
  by (induction rule: steps.induct) (auto intro: reachable.intros)

lemma steps_trans: "steps step n s t \<Longrightarrow> steps step m t u \<Longrightarrow> steps step (n + m) s u"
  by (induction rule: steps.induct) (auto intro: steps.intros)

subsection \<open>Invariants\<close>

locale inductive_invariant =
  fixes init :: "'s \<Rightarrow> bool"
    and step :: "'s \<Rightarrow> 's \<Rightarrow> bool"
    and inv :: "'s \<Rightarrow> bool"
  assumes init_inv: "init s \<Longrightarrow> inv s"
    and step_inv: "inv s \<Longrightarrow> step s t \<Longrightarrow> inv t"
begin

lemma reachable_inv: "reachable init step s \<Longrightarrow> inv s"
  by (induction rule: reachable.induct) (auto intro: init_inv step_inv)

lemma steps_inv: "steps step n s t \<Longrightarrow> inv s \<Longrightarrow> inv t"
  by (induction rule: steps.induct) (auto intro: step_inv)

end

subsection \<open>Progress: no reachable state is stuck before it is final\<close>

locale progressing = inductive_invariant +
  fixes final :: "'s \<Rightarrow> bool"
  assumes progress: "inv s \<Longrightarrow> \<not> final s \<Longrightarrow> \<exists>t. step s t"
begin

lemma reachable_progress:
  assumes "reachable init step s" and "\<nexists>t. step s t"
  shows "final s"
  using assms progress reachable_inv by blast

end

subsection \<open>Termination: a measure that every step decreases\<close>

locale terminating = progressing +
  fixes work :: "'s \<Rightarrow> nat"
  assumes step_work: "inv s \<Longrightarrow> step s t \<Longrightarrow> work t < work s"
begin

lemma steps_bound: "steps step n s t \<Longrightarrow> inv s \<Longrightarrow> n + work t \<le> work s"
proof (induction rule: steps.induct)
  case (steps_Suc s t n u)
  then have "work t < work s" and "n + work u \<le> work t"
    by (auto intro: step_work step_inv)
  then show ?case by simp
qed simp

lemma reaches_final: "inv s \<Longrightarrow> \<exists>n t. steps step n s t \<and> final t"
proof (induction s rule: measure_induct_rule [where f = work])
  case (less s)
  show ?case
  proof (cases "final s")
    case True
    then show ?thesis by (auto intro: steps.intros)
  next
    case False
    then obtain t where t: "step s t" using progress less.prems by blast
    then have "work t < work s" and "inv t"
      using less.prems by (auto intro: step_work step_inv)
    then obtain n u where "steps step n t u" and "final u"
      using less.IH by blast
    then show ?thesis using t by (auto intro: steps.intros)
  qed
qed

end

subsection \<open>Simulation: every concrete step is an abstract step or leaves the abstraction alone\<close>

locale simulation = inductive_invariant init step inv
  for init :: "'s \<Rightarrow> bool" and step :: "'s \<Rightarrow> 's \<Rightarrow> bool" and inv :: "'s \<Rightarrow> bool" +
  fixes ainit :: "'a \<Rightarrow> bool"
    and astep :: "'a \<Rightarrow> 'a \<Rightarrow> bool"
    and abst :: "'s \<Rightarrow> 'a"
  assumes abst_init: "init s \<Longrightarrow> ainit (abst s)"
    and abst_step: "inv s \<Longrightarrow> step s t \<Longrightarrow> abst t = abst s \<or> astep (abst s) (abst t)"
begin

lemma reachable_abst: "reachable init step s \<Longrightarrow> reachable ainit astep (abst s)"
proof (induction rule: reachable.induct)
  case (reach_init s)
  then show ?case by (auto intro: reachable.reach_init abst_init)
next
  case (reach_step s t)
  then have "abst t = abst s \<or> astep (abst s) (abst t)"
    using abst_step reachable_inv by blast
  with reach_step.IH show ?case by (auto intro: reachable.reach_step)
qed

end

end
