(* ===== verification/Copy_Threads.thy ===== *)
theory Copy_Threads
  imports Copy_Buffer Copy_Scan Transition_Systems
begin

text \<open>
  The threads of the directory copying utility: the manager that walks the source directory and
  feeds the buffer, the workers that drain it, and the SIGINT handler. The state is the
  program's globals, the program counters of the threads and the table of open descriptors. A
  step is one critical section (everything between a lock and the next unlock or wait of
  \<open>file_buffer.mutex\<close>), one iteration of the directory loop, or the unlocked copy of one file:
  the threads share nothing outside the critical sections but the flag \<open>stop\<close>, which only ever
  changes from 0 to 1.

  Both programs are instances: \<open>leave\<close> is where a worker goes after its loop, \<open>WExit\<close> in sys05
  and the barrier in sys06.
\<close>

subsection \<open>State\<close>

datatype ofile = OSrc string bytes | ODst string

datatype manager_pc =
    MScan                 \<comment> \<open>in the loop of \<open>process_directory\<close>\<close>
  | MPut file_info        \<comment> \<open>about to lock and store the entry, or woken from the wait\<close>
  | MPutWait file_info    \<comment> \<open>in \<open>pthread_cond_wait(&not_full)\<close>\<close>
  | MDone

datatype worker_pc =
    WHead                 \<comment> \<open>about to lock at the top of the loop, or woken from the wait\<close>
  | WWait                 \<comment> \<open>in \<open>pthread_cond_wait(&not_empty)\<close>\<close>
  | WCopy file_info
  | WAccount size_t       \<comment> \<open>copied and closed, about to update the totals\<close>
  | WBarrier
  | WExit

text \<open>
  The last three fields are not in the program: the list of regular files opened so far, the
  list of files copied (with what was written), and the list of files given up after SIGINT.
\<close>

record copy_state =
  fbuf :: file_buffer
  stop :: bool
  total_files :: nat
  files_copied :: nat
  regular_files :: nat
  fifo_files :: nat
  directories :: nat
  symlinks :: nat
  total_bytes_copied :: size_t
  made_dirs :: "string list"
  made_links :: "(string \<times> string) list"
  manager :: manager_pc
  frames :: "frame list"
  workers :: "worker_pc list"
  ofiles :: "int \<rightharpoonup> ofile"
  faulted :: bool
  issued :: "(string \<times> string \<times> bytes) list"
  copied :: "((string \<times> string \<times> bytes) \<times> bytes) list"
  dropped :: "(string \<times> string \<times> bytes) list"

text \<open>\<open>main\<close>: the buffer, the counters, the manager thread and the workers.\<close>

definition copy_init :: "fs_env \<Rightarrow> nat \<Rightarrow> string \<Rightarrow> string \<Rightarrow> copy_state" where
  "copy_init env num_workers src_dir dst_dir =
     \<lparr>fbuf = buffer_init, stop = False, total_files = 0, files_copied = 0, regular_files = 0,
      fifo_files = 0, directories = 0, symlinks = 0, total_bytes_copied = 0,
      made_dirs = [dst_dir], made_links = [], manager = MScan,
      frames = enter_directory env src_dir dst_dir, workers = replicate num_workers WHead,
      ofiles = Map.empty, faulted = False, issued = [], copied = [], dropped = []\<rparr>"

text \<open>
  The arguments of \<open>main\<close>, the name of the program first: the size of the buffer, the number of
  workers and the two directories, or the exit with the usage message. \<open>main\<close> then makes the
  initial state.
\<close>

definition copy_args :: "string list \<Rightarrow> (nat \<times> nat \<times> string \<times> string) option" where
  "copy_args argv =
     (case argv of
        [prog, arg1, arg2, src_dir, dst_dir] \<Rightarrow>
          let buffer_size = c_atoi arg1; num_workers = c_atoi arg2 in
          if buffer_size \<le> 0 \<or> num_workers \<le> 0 then None
          else Some (nat buffer_size, nat num_workers, src_dir, dst_dir)
      | _ \<Rightarrow> None)"

definition copy_main :: "fs_env \<Rightarrow> string list \<Rightarrow> (nat \<times> copy_state) option" where
  "copy_main env argv =
     (case copy_args argv of
        None \<Rightarrow> None
      | Some (buffer_size, num_workers, src_dir, dst_dir) \<Rightarrow>
          Some (buffer_size, copy_init env num_workers src_dir dst_dir))"

text \<open>The statistics \<open>main\<close> prints when every thread has been joined, without the elapsed time.\<close>

definition statistics :: "nat \<Rightarrow> copy_state \<Rightarrow> (string \<times> nat) list" where
  "statistics buffer_size s =
     [(''Workers'', length (workers s)), (''Buffer Size'', buffer_size),
      (''Number of Regular Files'', regular_files s), (''Number of FIFOs'', fifo_files s),
      (''Number of Directories'', directories s), (''Number of Symbolic Links'', symlinks s),
      (''TOTAL BYTES COPIED'', unat (total_bytes_copied s))]"

subsection \<open>Condition variables\<close>

text \<open>\<open>pthread_cond_signal(&not_empty)\<close>: one of the waiting workers, if there is one.\<close>

definition wake_choices :: "worker_pc list \<Rightarrow> worker_pc list list" where
  "wake_choices ws =
     (let waiting = filter (\<lambda>k. ws ! k = WWait) [0..<length ws]
      in if waiting = [] then [ws] else map (\<lambda>k. ws[k := WHead]) waiting)"

definition wake_all :: "worker_pc list \<Rightarrow> worker_pc list" where
  "wake_all ws = map (\<lambda>w. if w = WWait then WHead else w) ws"

text \<open>Only the manager waits for \<open>not_full\<close>.\<close>

fun signal_not_full :: "manager_pc \<Rightarrow> manager_pc" where
  "signal_not_full (MPutWait fi) = MPut fi"
| "signal_not_full m = m"

subsection \<open>The worker\<close>

definition worker_lock :: "nat \<Rightarrow> worker_pc \<Rightarrow> nat \<Rightarrow> copy_state \<Rightarrow> copy_state" where
  "worker_lock buffer_size leave i s =
     (let b = fbuf s in
      if b_count b = 0 \<and> \<not> b_done b \<and> \<not> stop s
      then s\<lparr>workers := (workers s)[i := WWait]\<rparr>
      else if b_count b = 0 \<and> (b_done b \<or> stop s)
      then s\<lparr>workers := (workers s)[i := leave]\<rparr>
      else case buffer_take buffer_size b of
             None \<Rightarrow> s\<lparr>faulted := True\<rparr>
           | Some (fi, b') \<Rightarrow>
               s\<lparr>fbuf := b', workers := (workers s)[i := WCopy fi],
                 manager := signal_not_full (manager s)\<rparr>)"

text \<open>What a pair of descriptors stands for.\<close>

definition payload :: "(int \<rightharpoonup> ofile) \<Rightarrow> file_info \<Rightarrow> (string \<times> string \<times> bytes) option" where
  "payload fds fi =
     (case (fds (src_fd fi), fds (dst_fd fi)) of
        (Some (OSrc sp data), Some (ODst dp)) \<Rightarrow> Some (sp, dp, data)
      | _ \<Rightarrow> None)"

definition close_files :: "file_info \<Rightarrow> (int \<rightharpoonup> ofile) \<Rightarrow> (int \<rightharpoonup> ofile)" where
  "close_files fi fds = fds(src_fd fi := None, dst_fd fi := None)"

text \<open>The loop over \<open>read\<close> and \<open>write\<close> and the two \<open>close\<close>s; a bad descriptor moves no byte.\<close>

definition copy_file :: "fs_env \<Rightarrow> string \<times> string \<times> bytes \<Rightarrow> bytes \<times> size_t" where
  "copy_file env p =
     (case p of (sp, dp, data) \<Rightarrow> copy_loop (read_fails env sp) (write_result env dp) 0 data [] 0)"

definition worker_copy :: "fs_env \<Rightarrow> file_info \<Rightarrow> nat \<Rightarrow> copy_state \<Rightarrow> copy_state" where
  "worker_copy env fi i s =
     (let s' = s\<lparr>ofiles := close_files fi (ofiles s)\<rparr> in
      case payload (ofiles s) fi of
        None \<Rightarrow> s'\<lparr>workers := (workers s)[i := WAccount 0]\<rparr>
      | Some p \<Rightarrow>
          s'\<lparr>workers := (workers s)[i := WAccount (snd (copy_file env p))],
             copied := copied s @ [(p, fst (copy_file env p))]\<rparr>)"

definition worker_account :: "size_t \<Rightarrow> nat \<Rightarrow> copy_state \<Rightarrow> copy_state" where
  "worker_account n i s =
     s\<lparr>files_copied := files_copied s + 1, total_bytes_copied := total_bytes_copied s + n,
       workers := (workers s)[i := WHead]\<rparr>"

subsection \<open>The manager\<close>

text \<open>
  One iteration of the loop of the innermost \<open>process_directory\<close>, or the end of the traversal
  (\<open>manager_thread\<close> after the call). \<open>sfd\<close> and \<open>dfd\<close> are the descriptors \<open>open\<close> returns.
\<close>

fun manager_action :: "fs_env \<Rightarrow> int \<Rightarrow> int \<Rightarrow> action \<Rightarrow> copy_state \<Rightarrow> copy_state" where
  "manager_action env sfd dfd Skip s = s"
| "manager_action env sfd dfd (CopyRegular sp dp data) s =
     s\<lparr>ofiles := (ofiles s)(sfd \<mapsto> OSrc sp data, dfd \<mapsto> ODst dp),
       issued := issued s @ [(sp, dp, data)],
       manager := MPut \<lparr>src_fd = sfd, dst_fd = dfd,
                        src_name = take 256 sp, dst_name = take 256 dp\<rparr>\<rparr>"
| "manager_action env sfd dfd (MakeDir sp dp) s =
     s\<lparr>directories := directories s + 1, made_dirs := made_dirs s @ [dp],
       frames := enter_directory env sp dp @ frames s\<rparr>"
| "manager_action env sfd dfd CountFifo s = s\<lparr>fifo_files := fifo_files s + 1\<rparr>"
| "manager_action env sfd dfd (MakeLink l) s =
     s\<lparr>symlinks := symlinks s + 1, made_links := made_links s @ link_list l\<rparr>"

definition manager_scan :: "fs_env \<Rightarrow> int \<Rightarrow> int \<Rightarrow> copy_state \<Rightarrow> copy_state" where
  "manager_scan env sfd dfd s =
     (case frames s of
        [] \<Rightarrow> s\<lparr>fbuf := (fbuf s)\<lparr>b_done := True\<rparr>, workers := wake_all (workers s),
                manager := MDone\<rparr>
      | (sd, dd, []) # fs \<Rightarrow> s\<lparr>frames := fs\<rparr>
      | (sd, dd, n # ns) # fs \<Rightarrow>
          if stop s then s\<lparr>frames := fs\<rparr>
          else manager_action env sfd dfd (entry_action env sd dd n)
                 (s\<lparr>frames := (sd, dd, ns) # fs\<rparr>))"

text \<open>
  The critical section of the manager; \<open>ws\<close> are the workers after the signal. On \<open>stop\<close> it closes
  both descriptors and leaves the loop of the directory it is in.
\<close>

definition manager_put :: "nat \<Rightarrow> file_info \<Rightarrow> worker_pc list \<Rightarrow> copy_state \<Rightarrow> copy_state" where
  "manager_put buffer_size fi ws s =
     (if b_count (fbuf s) = buffer_size \<and> \<not> stop s then s\<lparr>manager := MPutWait fi\<rparr>
      else if stop s
      then s\<lparr>ofiles := close_files fi (ofiles s), manager := MScan, frames := tl (frames s),
             dropped := dropped s @ (case payload (ofiles s) fi of None \<Rightarrow> [] | Some p \<Rightarrow> [p])\<rparr>
      else case buffer_put buffer_size fi (fbuf s) of
             None \<Rightarrow> s\<lparr>faulted := True\<rparr>
           | Some b \<Rightarrow> s\<lparr>fbuf := b, total_files := total_files s + 1,
                         regular_files := regular_files s + 1, manager := MScan, workers := ws\<rparr>)"

lemmas copy_defs [state_simps] = worker_lock_def worker_copy_def worker_account_def
  manager_scan_def manager_put_def

subsection \<open>The steps\<close>

inductive thread_step :: "fs_env \<Rightarrow> nat \<Rightarrow> worker_pc \<Rightarrow> copy_state \<Rightarrow> copy_state \<Rightarrow> bool"
  for env :: fs_env and buffer_size :: nat and leave :: worker_pc where
  scan: "\<not> faulted s \<Longrightarrow> manager s = MScan \<Longrightarrow>
    sfd \<notin> dom (ofiles s) \<Longrightarrow> dfd \<notin> dom (ofiles s) \<Longrightarrow> sfd \<noteq> dfd \<Longrightarrow>
    thread_step env buffer_size leave s (manager_scan env sfd dfd s)"
| put: "\<not> faulted s \<Longrightarrow> manager s = MPut fi \<Longrightarrow> ws \<in> set (wake_choices (workers s)) \<Longrightarrow>
    thread_step env buffer_size leave s (manager_put buffer_size fi ws s)"
| lock: "\<not> faulted s \<Longrightarrow> i < length (workers s) \<Longrightarrow> workers s ! i = WHead \<Longrightarrow>
    thread_step env buffer_size leave s (worker_lock buffer_size leave i s)"
| copy: "\<not> faulted s \<Longrightarrow> i < length (workers s) \<Longrightarrow> workers s ! i = WCopy fi \<Longrightarrow>
    thread_step env buffer_size leave s (worker_copy env fi i s)"
| account: "\<not> faulted s \<Longrightarrow> i < length (workers s) \<Longrightarrow> workers s ! i = WAccount n \<Longrightarrow>
    thread_step env buffer_size leave s (worker_account n i s)"

text \<open>
  What happens to the threads from outside: SIGINT (\<open>handle_signal\<close>), and the wakeups without a
  signal that POSIX allows in \<open>pthread_cond_wait\<close>.
\<close>

definition handle_signal :: "copy_state \<Rightarrow> copy_state" where
  "handle_signal s = s\<lparr>stop := True\<rparr>"

inductive outside_step :: "copy_state \<Rightarrow> copy_state \<Rightarrow> bool" where
  sigint: "outside_step s (handle_signal s)"
| spurious_worker: "i < length (workers s) \<Longrightarrow> workers s ! i = WWait \<Longrightarrow>
    outside_step s (s\<lparr>workers := (workers s)[i := WHead]\<rparr>)"
| spurious_manager: "manager s = MPutWait fi \<Longrightarrow> outside_step s (s\<lparr>manager := MPut fi\<rparr>)"

text \<open>The program of sys05.\<close>

definition copy_step :: "fs_env \<Rightarrow> nat \<Rightarrow> copy_state \<Rightarrow> copy_state \<Rightarrow> bool" where
  "copy_step env buffer_size s t = (thread_step env buffer_size WExit s t \<or> outside_step s t)"

definition copy_final :: "copy_state \<Rightarrow> bool" where
  "copy_final s = (manager s = MDone \<and> (\<forall>w \<in> set (workers s). w = WExit))"

subsection \<open>Waking up\<close>

lemma wake_choices_nonempty: "wake_choices ws \<noteq> []"
  by (simp add: wake_choices_def Let_def)

lemma wake_choices_cases:
  assumes "ws' \<in> set (wake_choices ws)"
  obtains (none) "WWait \<notin> set ws" "ws' = ws"
    | (one) k where "k < length ws" "ws ! k = WWait" "ws' = ws[k := WHead]"
proof (cases "filter (\<lambda>k. ws ! k = WWait) [0..<length ws] = []")
  case True
  then have "WWait \<notin> set ws"
    by (auto simp: filter_empty_conv in_set_conv_nth)
  with True assms show ?thesis by (intro none) (simp_all add: wake_choices_def)
next
  case False
  with assms obtain k where "k < length ws" "ws ! k = WWait" "ws' = ws[k := WHead]"
    by (auto simp: wake_choices_def Let_def)
  then show ?thesis by (rule one)
qed

end
