(* ===== verification/Copy_Invariants.thy ===== *)
theory Copy_Invariants
  imports Copy_Threads
begin

text \<open>
  The invariants of the copying threads, each kept by every thread step and by everything that
  happens from outside: the control invariant (buffer, waiting sets, program counters), the
  ownership of descriptors, the account of files, and the correspondence of the manager's
  progress with the sequential traversal.
\<close>

subsection \<open>Control\<close>

definition awake :: "worker_pc \<Rightarrow> bool" where
  "awake w = (w = WHead \<or> (\<exists>fi. w = WCopy fi) \<or> (\<exists>n. w = WAccount n))"

definition left_loop :: "worker_pc \<Rightarrow> bool" where
  "left_loop w = (w = WExit \<or> w = WBarrier)"

lemma awake_simps [simp]:
  "awake WHead" "\<not> awake WWait" "awake (WCopy fi)" "awake (WAccount n)" "\<not> awake WBarrier"
  "\<not> awake WExit"
  by (auto simp: awake_def)

lemma left_loop_simps [simp]:
  "\<not> left_loop WHead" "\<not> left_loop WWait" "\<not> left_loop (WCopy fi)" "\<not> left_loop (WAccount n)"
  "left_loop WBarrier" "left_loop WExit"
  by (auto simp: left_loop_def)

definition control_inv :: "nat \<Rightarrow> copy_state \<Rightarrow> bool" where
  "control_inv n s =
     (buffer_wf n (fbuf s) \<and> \<not> faulted s \<and>
      (\<forall>fi. manager s = MPutWait fi \<longrightarrow> b_count (fbuf s) = n) \<and>
      (WWait \<in> set (workers s) \<longrightarrow>
         \<not> b_done (fbuf s) \<and> b_count (fbuf s) \<le> count_if awake (workers s)) \<and>
      (b_done (fbuf s) \<longleftrightarrow> manager s = MDone) \<and>
      (manager s = MDone \<longrightarrow> frames s = []) \<and>
      ((\<exists>w \<in> set (workers s). left_loop w) \<longrightarrow>
         (b_done (fbuf s) \<or> stop s) \<and> b_count (fbuf s) = 0))"

lemma wake_choices_waiting:
  assumes "ws' \<in> set (wake_choices ws)" and "WWait \<in> set ws'"
  shows "WWait \<in> set ws \<and> count_if awake ws' = Suc (count_if awake ws)"
  using assms(1)
proof (cases rule: wake_choices_cases)
  case none
  with assms(2) show ?thesis by simp
next
  case (one k)
  with count_if_update [of k ws awake WHead] show ?thesis
    using nth_mem by fastforce
qed

lemma wake_choices_left:
  assumes "ws' \<in> set (wake_choices ws)"
  shows "(\<exists>w \<in> set ws'. left_loop w) = (\<exists>w \<in> set ws. left_loop w)"
  using assms
proof (cases rule: wake_choices_cases)
  case (one k)
  have "count_if left_loop (ws[k := WHead]) = count_if left_loop ws"
    using count_if_update [of k ws left_loop WHead] one by simp
  with one show ?thesis by (metis count_if_eq_0)
qed simp

lemma wake_choices_length: "ws' \<in> set (wake_choices ws) \<Longrightarrow> length ws' = length ws"
  by (erule wake_choices_cases) auto

lemma wake_all_set: "WWait \<notin> set (wake_all ws)"
  by (auto simp: wake_all_def)

lemma wake_all_left: "(\<exists>w \<in> set (wake_all ws). left_loop w) = (\<exists>w \<in> set ws. left_loop w)"
  by (auto simp: wake_all_def)

lemma length_wake_all [simp]: "length (wake_all ws) = length ws"
  by (simp add: wake_all_def)

text \<open>A worker that moves: who is awake, who waits and who has left afterwards.\<close>

lemma awake_update:
  "i < length ws \<Longrightarrow> awake (ws ! i) \<Longrightarrow> awake w \<Longrightarrow> count_if awake (ws[i := w]) = count_if awake ws"
  using count_if_update [of i ws awake w] by simp

lemma control_inv_init: "0 < n \<Longrightarrow> n \<le> MAX_BUFFER_SIZE \<Longrightarrow> control_inv n (copy_init env k src dst)"
  by (auto simp: control_inv_def copy_init_def buffer_init_wf) (simp_all add: buffer_init_def)

lemma manager_action_control [simp]:
  "fbuf (manager_action env sfd dfd act s) = fbuf s"
  "workers (manager_action env sfd dfd act s) = workers s"
  "faulted (manager_action env sfd dfd act s) = faulted s"
  "stop (manager_action env sfd dfd act s) = stop s"
  by (cases act; simp)+

lemma manager_action_pc:
  "manager s = MScan \<Longrightarrow> manager (manager_action env sfd dfd act s) \<noteq> MDone \<and>
     (\<forall>fi. manager (manager_action env sfd dfd act s) \<noteq> MPutWait fi)"
  by (cases act) auto

lemma manager_scan_cases:
  obtains (fin) "frames s = []"
      "manager_scan env sfd dfd s =
         s\<lparr>fbuf := (fbuf s)\<lparr>b_done := True\<rparr>, workers := wake_all (workers s), manager := MDone\<rparr>"
    | (pop) sd dd ns fs where "frames s = (sd, dd, ns) # fs" "ns = [] \<or> stop s"
      "manager_scan env sfd dfd s = s\<lparr>frames := fs\<rparr>"
    | (act) sd dd n ns fs where "frames s = (sd, dd, n # ns) # fs" "\<not> stop s"
      "manager_scan env sfd dfd s =
         manager_action env sfd dfd (entry_action env sd dd n) (s\<lparr>frames := (sd, dd, ns) # fs\<rparr>)"
proof (cases "frames s")
  case Nil
  then show ?thesis by (intro fin) (simp_all add: manager_scan_def)
next
  case (Cons f fs)
  obtain sd dd ns where f: "f = (sd, dd, ns)" by (cases f)
  show ?thesis
  proof (cases "ns = [] \<or> stop s")
    case True
    with Cons f show ?thesis
      by (intro pop [of sd dd ns fs]) (auto simp: manager_scan_def split: list.splits)
  next
    case False
    then obtain m ms where "ns = m # ms" by (cases ns) auto
    with Cons f False show ?thesis
      by (intro act [of sd dd m ms fs]) (simp_all add: manager_scan_def)
  qed
qed

lemma control_scan:
  assumes inv: "control_inv n s" and pc: "manager s = MScan"
  shows "control_inv n (manager_scan env sfd dfd s)"
proof (cases env sfd dfd s rule: manager_scan_cases)
  case fin
  with inv show ?thesis by (auto simp: control_inv_def wake_all_set wake_all_left)
next
  case (pop sd dd ns fs)
  with inv pc show ?thesis by (auto simp: control_inv_def)
next
  case (act sd dd m ms fs)
  with inv pc manager_action_pc [of "s\<lparr>frames := (sd, dd, ms) # fs\<rparr>" env sfd dfd] show ?thesis
    by (auto simp: control_inv_def)
qed

lemma control_put:
  assumes inv: "control_inv n s" and pc: "manager s = MPut fi"
    and ws: "ws \<in> set (wake_choices (workers s))"
  shows "control_inv n (manager_put n fi ws s)"
proof (cases "b_count (fbuf s) = n \<or> stop s")
  case True
  with inv pc show ?thesis by (auto simp: control_inv_def manager_put_def)
next
  case False
  with inv have room: "b_count (fbuf s) < n" and wf: "buffer_wf n (fbuf s)"
    by (auto simp: control_inv_def buffer_wf_def)
  then obtain b where b: "buffer_put n fi (fbuf s) = Some b" "buffer_wf n b"
      "queued n b = queued n (fbuf s) @ [fi]"
    using buffer_put_queued by blast
  then have cnt: "b_count b = Suc (b_count (fbuf s))"
    by (metis length_queued length_append_singleton)
  have flag: "b_done b = b_done (fbuf s)"
    using b(1) by (auto simp: buffer_put_def split: if_splits)
  show ?thesis
    using inv pc False b cnt flag wake_choices_waiting [OF ws] wake_choices_left [OF ws]
    by (auto simp: control_inv_def manager_put_def)
qed

lemma control_lock:
  assumes inv: "control_inv n s" and leave: "left_loop leave"
    and i: "i < length (workers s)" "workers s ! i = WHead"
  shows "control_inv n (worker_lock n leave i s)"
proof -
  consider (wait) "b_count (fbuf s) = 0" "\<not> b_done (fbuf s)" "\<not> stop s"
    | (go) "b_count (fbuf s) = 0" "b_done (fbuf s) \<or> stop s" | (take) "0 < b_count (fbuf s)"
    by auto
  then show ?thesis
  proof cases
    case wait
    have "\<not> left_loop w" if "w \<in> set ((workers s)[i := WWait])" for w
      using in_update_D [OF that] inv wait by (auto simp: control_inv_def)
    with inv wait i show ?thesis by (auto simp: control_inv_def worker_lock_def Let_def)
  next
    case go
    have "leave \<noteq> WWait" using assms(2) by auto
    with inv go i show ?thesis
      by (auto simp: control_inv_def worker_lock_def Let_def dest!: in_update_D)
  next
    case take
    with inv obtain b where b: "buffer_take n (fbuf s) = Some (hd (queued n (fbuf s)), b)"
        "buffer_wf n b" "queued n b = tl (queued n (fbuf s))"
      using buffer_take_queued [of n "fbuf s"] by (auto simp: control_inv_def queued_eq_Nil)
    then have cnt: "b_count b = b_count (fbuf s) - 1" by (metis length_queued length_tl)
    have flag: "b_done b = b_done (fbuf s)"
      using b(1) by (auto simp: buffer_take_def split: if_splits)
    let ?w = "WCopy (hd (queued n (fbuf s)))"
    have none_left: "\<not> left_loop w" if "w \<in> set ((workers s)[i := ?w])" for w
      using in_update_D [OF that] inv take by (auto simp: control_inv_def)
    have waiting: "WWait \<in> set (workers s)" if "WWait \<in> set ((workers s)[i := ?w])"
      using in_update_D [OF that] by auto
    have "signal_not_full (manager s) = MDone \<longleftrightarrow> manager s = MDone"
      and "signal_not_full (manager s) \<noteq> MPutWait fi" for fi
      by (cases "manager s"; simp)+
    with inv take b cnt flag i none_left waiting awake_update [OF i(1), of ?w] show ?thesis
      by (auto simp: control_inv_def worker_lock_def Let_def)
  qed
qed

text \<open>Steps that only replace an awake worker by an awake one and touch nothing else of control.\<close>

lemma control_move:
  assumes inv: "control_inv n s" and i: "i < length (workers s)" "awake (workers s ! i)" "awake w"
    and t: "fbuf t = fbuf s" "faulted t = faulted s" "manager t = manager s" "frames t = frames s"
      "stop t = stop s" "workers t = (workers s)[i := w]"
  shows "control_inv n t"
proof -
  have "w \<noteq> WWait" "\<not> left_loop w" using i(3) by (auto simp: awake_def)
  with inv t awake_update [OF i] show ?thesis
    by (auto simp: control_inv_def dest!: in_update_D)
qed

lemma worker_copy_control [simp]:
  "fbuf (worker_copy env fi i s) = fbuf s" "faulted (worker_copy env fi i s) = faulted s"
  "manager (worker_copy env fi i s) = manager s" "frames (worker_copy env fi i s) = frames s"
  "stop (worker_copy env fi i s) = stop s"
  by (simp_all add: worker_copy_def Let_def split: option.splits prod.splits)

lemma worker_copy_pc:
  obtains n where "workers (worker_copy env fi i s) = (workers s)[i := WAccount n]"
proof (cases "payload (ofiles s) fi")
  case None
  then show ?thesis by (intro that [of 0]) (simp add: worker_copy_def Let_def)
next
  case (Some p)
  then show ?thesis
    by (intro that [of "snd (copy_file env p)"]) (simp add: worker_copy_def Let_def)
qed

lemma control_thread_step:
  "thread_step env n leave s t \<Longrightarrow> left_loop leave \<Longrightarrow> control_inv n s \<Longrightarrow> control_inv n t"
proof (induction rule: thread_step.induct)
  case (scan s sfd dfd)
  show ?case by (rule control_scan) (use scan in simp_all)
next
  case (put s fi ws)
  show ?case by (rule control_put) (use put in simp_all)
next
  case (lock s i)
  show ?case by (rule control_lock) (use lock in simp_all)
next
  case (copy s i fi)
  obtain m where m: "workers (worker_copy env fi i s) = (workers s)[i := WAccount m]"
    by (rule worker_copy_pc)
  from copy have "awake (workers s ! i)" by simp
  from control_move [OF copy.prems(2) copy.hyps(2) this _ _ _ _ _ _ m] show ?case by simp
next
  case (account s i m)
  then show ?case
    by (elim control_move [where i = i and w = WHead]) (simp_all add: worker_account_def)
qed

lemma control_outside_step: "outside_step s t \<Longrightarrow> control_inv n s \<Longrightarrow> control_inv n t"
proof (induction rule: outside_step.induct)
  case (sigint s)
  then show ?case by (auto simp: control_inv_def handle_signal_def)
next
  case (spurious_worker i s)
  then have "count_if awake (workers s) \<le> count_if awake ((workers s)[i := WHead])"
    using count_if_update [of i "workers s" awake WHead] by simp
  with spurious_worker show ?case
    by (auto simp: control_inv_def dest!: in_update_D)
next
  case (spurious_manager s fi)
  then show ?case by (auto simp: control_inv_def)
qed

end
