(* ===== verification/Copy_Accounts.thy ===== *)
theory Copy_Accounts
  imports Copy_Invariants
begin

text \<open>
  The account of descriptors and files: every open descriptor belongs to exactly one live entry
  (in the manager's hands, in the buffer or in a worker's hands), and every file opened is live,
  copied or given up. Closing one entry's descriptors leaves all others open.
\<close>

subsection \<open>Live entries and their descriptors\<close>

fun manager_item :: "manager_pc \<Rightarrow> file_info multiset" where
  "manager_item (MPut fi) = {#fi#}"
| "manager_item (MPutWait fi) = {#fi#}"
| "manager_item _ = {#}"

fun worker_item :: "worker_pc \<Rightarrow> file_info multiset" where
  "worker_item (WCopy fi) = {#fi#}"
| "worker_item _ = {#}"

definition live_items :: "nat \<Rightarrow> copy_state \<Rightarrow> file_info multiset" where
  "live_items n s =
     manager_item (manager s) + mset (queued n (fbuf s)) + gather worker_item (workers s)"

definition fds :: "file_info multiset \<Rightarrow> int multiset" where
  "fds M = image_mset src_fd M + image_mset dst_fd M"

definition fd_inv :: "nat \<Rightarrow> copy_state \<Rightarrow> bool" where
  "fd_inv n s = (finite (dom (ofiles s)) \<and> fds (live_items n s) = mset_set (dom (ofiles s)))"

definition file_inv :: "nat \<Rightarrow> copy_state \<Rightarrow> bool" where
  "file_inv n s =
     (image_mset Some (mset (issued s)) =
        image_mset (payload (ofiles s)) (live_items n s) +
        image_mset (\<lambda>c. Some (fst c)) (mset (copied s)) + image_mset Some (mset (dropped s)) \<and>
      (dropped s \<noteq> [] \<longrightarrow> stop s))"

lemma fds_empty [simp]: "fds {#} = {#}"
  by (simp add: fds_def)

lemma fds_add [simp]: "fds (add_mset fi M) = add_mset (src_fd fi) (add_mset (dst_fd fi) (fds M))"
  by (simp add: fds_def)

lemma in_fds: "fi \<in># M \<Longrightarrow> src_fd fi \<in># fds M \<and> dst_fd fi \<in># fds M"
  by (auto simp: fds_def)

lemma add_mset_mset_set:
  assumes "add_mset x A = mset_set D" and "finite D"
  shows "A = mset_set (D - {x}) \<and> x \<in> D \<and> x \<notin># A"
proof -
  have "x \<in># mset_set D" using assms(1) by (metis union_single_eq_member)
  then have x: "x \<in> D" using assms(2) by simp
  have "A = mset_set D - {#x#}" using assms(1) by (metis add_mset_remove_trivial)
  then have "A = mset_set (D - {x})" using x assms(2) by (simp add: mset_set_Diff)
  with x assms(2) show ?thesis by simp
qed

text \<open>The descriptors of one live entry are open, different, and no other entry's.\<close>

lemma fds_owner:
  assumes "fds (add_mset fi M) = mset_set D" and "finite D"
  shows "src_fd fi \<in> D" "dst_fd fi \<in> D" "fds M = mset_set (D - {src_fd fi, dst_fd fi})"
    "src_fd fi \<notin># fds M" "dst_fd fi \<notin># fds M"
proof -
  have 1: "add_mset (dst_fd fi) (fds M) = mset_set (D - {src_fd fi}) \<and> src_fd fi \<in> D \<and>
      src_fd fi \<notin># add_mset (dst_fd fi) (fds M)"
    using add_mset_mset_set [of "src_fd fi" "add_mset (dst_fd fi) (fds M)" D] assms by simp
  then have 2: "fds M = mset_set (D - {src_fd fi} - {dst_fd fi}) \<and> dst_fd fi \<in> D - {src_fd fi} \<and>
      dst_fd fi \<notin># fds M"
    using add_mset_mset_set [of "dst_fd fi" "fds M" "D - {src_fd fi}"] assms(2) by blast
  from 1 2 show "src_fd fi \<in> D" "dst_fd fi \<in> D" "src_fd fi \<notin># fds M" "dst_fd fi \<notin># fds M" by auto
  from 2 show "fds M = mset_set (D - {src_fd fi, dst_fd fi})"
    by (metis Diff_insert2)
qed

lemma dom_close_files: "dom (close_files fi f) = dom f - {src_fd fi, dst_fd fi}"
  by (auto simp: close_files_def)

text \<open>An entry disappears together with its descriptors.\<close>

lemma close_live:
  assumes fd: "finite (dom f)" "fds (add_mset fi M) = mset_set (dom f)"
  shows "finite (dom (close_files fi f))" "fds M = mset_set (dom (close_files fi f))"
    "image_mset (payload (close_files fi f)) M = image_mset (payload f) M"
proof -
  note owner = fds_owner [OF fd(2,1)]
  show "finite (dom (close_files fi f))" using fd(1) by (simp add: dom_close_files)
  show "fds M = mset_set (dom (close_files fi f))" using owner(3) by (simp add: dom_close_files)
  show "image_mset (payload (close_files fi f)) M = image_mset (payload f) M"
  proof (rule image_mset_cong)
    fix gi assume "gi \<in># M"
    then have "src_fd gi \<in># fds M" "dst_fd gi \<in># fds M" by (auto dest: in_fds)
    with owner(4,5) have "src_fd gi \<noteq> src_fd fi" "src_fd gi \<noteq> dst_fd fi" "dst_fd gi \<noteq> src_fd fi"
        "dst_fd gi \<noteq> dst_fd fi"
      by (metis, metis, metis, metis)
    then show "payload (close_files fi f) gi = payload f gi"
      by (simp add: payload_def close_files_def)
  qed
qed

text \<open>An entry appears together with two fresh descriptors.\<close>

lemma open_live:
  assumes fd: "finite (dom f)" "fds M = mset_set (dom f)"
    and fresh: "sfd \<notin> dom f" "dfd \<notin> dom f" "sfd \<noteq> dfd" and fi: "src_fd fi = sfd" "dst_fd fi = dfd"
    and g_def: "g = f(sfd \<mapsto> OSrc sp data, dfd \<mapsto> ODst dp)"
  shows "finite (dom g)" "fds (add_mset fi M) = mset_set (dom g)"
    "image_mset (payload g) (add_mset fi M) = add_mset (Some (sp, dp, data)) (image_mset (payload f) M)"
proof -
  show "finite (dom g)" using fd(1) by (simp add: g_def)
  show "fds (add_mset fi M) = mset_set (dom g)"
    using fd fresh fi by (simp add: g_def add_mset_commute)
  have "payload g gi = payload f gi" if "gi \<in># M" for gi
  proof -
    from that have "src_fd gi \<in># fds M" "dst_fd gi \<in># fds M" by (auto dest: in_fds)
    then have "src_fd gi \<in> dom f" "dst_fd gi \<in> dom f" using fd by simp_all
    with fresh(1,2) have "src_fd gi \<noteq> sfd" "src_fd gi \<noteq> dfd" "dst_fd gi \<noteq> sfd" "dst_fd gi \<noteq> dfd"
      by auto
    then show ?thesis by (simp add: payload_def g_def)
  qed
  then have "image_mset (payload g) M = image_mset (payload f) M" by (rule image_mset_cong)
  moreover have "payload g fi = Some (sp, dp, data)"
    using fresh(3) fi by (simp add: payload_def g_def)
  ultimately show "image_mset (payload g) (add_mset fi M) =
      add_mset (Some (sp, dp, data)) (image_mset (payload f) M)" by simp
qed

text \<open>A live entry of the account stands for an open source and an open destination.\<close>

lemma live_payload:
  assumes "file_inv n s" and "fi \<in># live_items n s"
  obtains p where "payload (ofiles s) fi = Some p"
proof -
  from assms have "payload (ofiles s) fi \<in># image_mset Some (mset (issued s))"
    by (auto simp: file_inv_def)
  then show ?thesis using that by auto
qed

subsection \<open>How the steps move entries\<close>

lemma wake_choices_items:
  "ws' \<in> set (wake_choices ws) \<Longrightarrow> gather worker_item ws' = gather worker_item ws"
  by (erule wake_choices_cases) (simp_all add: gather_update_same)

lemma wake_all_items [simp]: "gather worker_item (wake_all ws) = gather worker_item ws"
  by (induction ws) (auto simp: wake_all_def)

lemma signal_item [simp]: "manager_item (signal_not_full m) = manager_item m"
  by (cases m) auto

text \<open>The account is kept by a step that moves entries around but opens and closes nothing.\<close>

lemma account_same:
  assumes "fd_inv n s" and "file_inv n s"
    and "live_items n t = live_items n s" "ofiles t = ofiles s" "issued t = issued s"
      "copied t = copied s" "dropped t = dropped s" "stop s \<Longrightarrow> stop t"
  shows "fd_inv n t \<and> file_inv n t"
  using assms by (auto simp: fd_inv_def file_inv_def)

text \<open>A step that takes one entry out, closes it and books it as copied or as given up.\<close>

lemma account_close:
  assumes inv: "fd_inv n s" "file_inv n s"
    and item: "live_items n s = add_mset fi (live_items n t)" "payload (ofiles s) fi = Some p"
    and t: "ofiles t = close_files fi (ofiles s)" "issued t = issued s" "stop s \<Longrightarrow> stop t"
    and booked: "copied t = copied s @ [(p, out)] \<and> dropped t = dropped s \<or>
                 copied t = copied s \<and> dropped t = dropped s @ [p] \<and> stop t"
  shows "fd_inv n t \<and> file_inv n t"
proof -
  have fd: "finite (dom (ofiles s))" "fds (add_mset fi (live_items n t)) = mset_set (dom (ofiles s))"
    using inv(1) item(1) by (simp_all add: fd_inv_def)
  note close = close_live [OF fd]
  have "fd_inv n t" using close(1,2) t(1) by (simp add: fd_inv_def)
  moreover have "image_mset (payload (ofiles s)) (live_items n s) =
      add_mset (Some p) (image_mset (payload (ofiles t)) (live_items n t))"
    using close(3) t(1) item by simp
  with inv(2) booked t have "file_inv n t"
    by (elim disjE) (auto simp: file_inv_def)
  ultimately show ?thesis by simp
qed

lemma account_open:
  assumes inv: "fd_inv n s" "file_inv n s"
    and fresh: "sfd \<notin> dom (ofiles s)" "dfd \<notin> dom (ofiles s)" "sfd \<noteq> dfd"
    and fi: "src_fd fi = sfd" "dst_fd fi = dfd"
    and item: "live_items n t = add_mset fi (live_items n s)"
    and t: "ofiles t = (ofiles s)(sfd \<mapsto> OSrc sp data, dfd \<mapsto> ODst dp)"
      "issued t = issued s @ [(sp, dp, data)]" "copied t = copied s" "dropped t = dropped s"
      "stop t = stop s"
  shows "fd_inv n t \<and> file_inv n t"
proof -
  have fd: "finite (dom (ofiles s))" "fds (live_items n s) = mset_set (dom (ofiles s))"
    using inv(1) by (simp_all add: fd_inv_def)
  note opened = open_live [OF fd fresh fi t(1)]
  have "fd_inv n t" using opened(1,2) item by (simp add: fd_inv_def)
  moreover have "file_inv n t"
    using inv(2) opened(3) item t(2-5) by (simp add: file_inv_def)
  ultimately show ?thesis by simp
qed

lemma account_scan:
  assumes inv: "fd_inv n s" "file_inv n s" and pc: "manager s = MScan"
    and fresh: "sfd \<notin> dom (ofiles s)" "dfd \<notin> dom (ofiles s)" "sfd \<noteq> dfd"
  shows "fd_inv n (manager_scan env sfd dfd s) \<and> file_inv n (manager_scan env sfd dfd s)"
proof (cases env sfd dfd s rule: manager_scan_cases)
  case fin
  with pc show ?thesis by (intro account_same [OF inv]) (simp_all add: live_items_def)
next
  case (pop sd dd ns fs)
  with pc show ?thesis by (intro account_same [OF inv]) (simp_all add: live_items_def)
next
  case (act sd dd m ms fs)
  show ?thesis
  proof (cases "entry_action env sd dd m")
    case (CopyRegular sp dp data)
    let ?fi = "\<lparr>src_fd = sfd, dst_fd = dfd, src_name = take 256 sp, dst_name = take 256 dp\<rparr>"
    from act pc CopyRegular show ?thesis
      by (intro account_open [OF inv fresh, where fi = ?fi and sp = sp and dp = dp and data = data])
        (simp_all add: live_items_def)
  qed (use act pc in \<open>simp; intro account_same [OF inv]; simp add: live_items_def\<close>)+
qed

lemma account_put:
  assumes inv: "fd_inv n s" "file_inv n s" and ctl: "control_inv n s"
    and pc: "manager s = MPut fi" and ws: "ws \<in> set (wake_choices (workers s))"
  shows "fd_inv n (manager_put n fi ws s) \<and> file_inv n (manager_put n fi ws s)"
proof -
  consider (full) "b_count (fbuf s) = n" "\<not> stop s" | (stopped) "stop s"
    | (store) "b_count (fbuf s) \<noteq> n" "\<not> stop s"
    by blast
  then show ?thesis
  proof cases
    case full
    with pc show ?thesis
      by (intro account_same [OF inv]) (simp_all add: live_items_def manager_put_def)
  next
    case stopped
    have "fi \<in># live_items n s" using pc by (simp add: live_items_def)
    then obtain p where p: "payload (ofiles s) fi = Some p" by (rule live_payload [OF inv(2)])
    with stopped pc show ?thesis
      by (intro account_close [OF inv _ p]) (simp_all add: live_items_def manager_put_def)
  next
    case store
    with ctl have "b_count (fbuf s) < n" "buffer_wf n (fbuf s)"
      by (auto simp: control_inv_def buffer_wf_def)
    then obtain b where "buffer_put n fi (fbuf s) = Some b" "queued n b = queued n (fbuf s) @ [fi]"
      using buffer_put_queued by blast
    with store pc wake_choices_items [OF ws] show ?thesis
      by (intro account_same [OF inv]) (simp_all add: live_items_def manager_put_def)
  qed
qed

lemma account_lock:
  assumes inv: "fd_inv n s" "file_inv n s" and ctl: "control_inv n s" and leave: "left_loop leave"
    and i: "i < length (workers s)" "workers s ! i = WHead"
  shows "fd_inv n (worker_lock n leave i s) \<and> file_inv n (worker_lock n leave i s)"
proof (cases "b_count (fbuf s) = 0")
  case True
  have "worker_item leave = {#}" using leave by (auto simp: left_loop_def)
  with i have "gather worker_item ((workers s)[i := leave]) = gather worker_item (workers s)"
    "gather worker_item ((workers s)[i := WWait]) = gather worker_item (workers s)"
    by (auto intro!: gather_update_same)
  with True show ?thesis
    by (intro account_same [OF inv]) (auto simp: live_items_def worker_lock_def Let_def)
next
  case False
  then have ne: "queued n (fbuf s) \<noteq> []" by (simp add: queued_eq_Nil)
  with ctl obtain b where b: "buffer_take n (fbuf s) = Some (hd (queued n (fbuf s)), b)"
      "queued n b = tl (queued n (fbuf s))"
    using buffer_take_queued [of n "fbuf s"] by (auto simp: control_inv_def)
  have "gather worker_item ((workers s)[i := WCopy (hd (queued n (fbuf s)))]) =
      add_mset (hd (queued n (fbuf s))) (gather worker_item (workers s))"
    using gather_update [OF i(1), of worker_item "WCopy (hd (queued n (fbuf s)))"] i(2) by simp
  moreover have "mset (queued n (fbuf s)) = add_mset (hd (queued n (fbuf s))) (mset (queued n b))"
    using ne b(2) by (metis list.collapse mset.simps(2))
  ultimately show ?thesis using False b
    by (intro account_same [OF inv]) (simp_all add: live_items_def worker_lock_def Let_def)
qed

lemma account_copy:
  assumes inv: "fd_inv n s" "file_inv n s"
    and i: "i < length (workers s)" "workers s ! i = WCopy fi"
  shows "fd_inv n (worker_copy env fi i s) \<and> file_inv n (worker_copy env fi i s)"
proof -
  have items: "gather worker_item (workers s) =
      add_mset fi (gather worker_item ((workers s)[i := WAccount m]))" for m
    using gather_update [OF i(1), of worker_item "WAccount m"] i(2) by simp
  from nth_in_gather [OF i(1), of fi worker_item] i(2) have "fi \<in># live_items n s"
    by (simp add: live_items_def)
  then obtain p where p: "payload (ofiles s) fi = Some p" by (rule live_payload [OF inv(2)])
  then show ?thesis using items
    by (intro account_close [OF inv _ p]) (simp_all add: live_items_def worker_copy_def Let_def)
qed

lemma account_account:
  assumes inv: "fd_inv n s" "file_inv n s"
    and i: "i < length (workers s)" "workers s ! i = WAccount m"
  shows "fd_inv n (worker_account m i s) \<and> file_inv n (worker_account m i s)"
  using i by (intro account_same [OF inv])
    (simp_all add: live_items_def worker_account_def gather_update_same)

lemma account_thread_step:
  "thread_step env n leave s t \<Longrightarrow> left_loop leave \<Longrightarrow> control_inv n s \<Longrightarrow> fd_inv n s \<Longrightarrow>
   file_inv n s \<Longrightarrow> fd_inv n t \<and> file_inv n t"
proof (induction rule: thread_step.induct)
  case (scan s sfd dfd)
  then show ?case by (simp add: account_scan)
next
  case (put s fi ws)
  then show ?case by (simp add: account_put)
next
  case (lock s i)
  then show ?case by (simp add: account_lock)
next
  case (copy s i fi)
  then show ?case by (simp add: account_copy)
next
  case (account s i m)
  then show ?case by (simp add: account_account)
qed

lemma account_outside_step:
  "outside_step s t \<Longrightarrow> fd_inv n s \<Longrightarrow> file_inv n s \<Longrightarrow> fd_inv n t \<and> file_inv n t"
proof (induction rule: outside_step.induct)
  case (sigint s)
  then show ?case by (elim account_same) (simp_all add: live_items_def handle_signal_def)
next
  case (spurious_worker i s)
  then show ?case by (elim account_same) (simp_all add: live_items_def gather_update_same)
next
  case (spurious_manager s fi)
  then show ?case by (elim account_same) (simp_all add: live_items_def)
qed

lemma account_init: "fd_inv n (copy_init env k src dst) \<and> file_inv n (copy_init env k src dst)"
proof -
  have "gather worker_item (replicate k WHead) = {#}" by (intro gather_empty) auto
  then show ?thesis by (simp add: fd_inv_def file_inv_def live_items_def copy_init_def)
qed

end
