(* ===== verification/Copy_Results.thy ===== *)
theory Copy_Results
  imports Copy_Accounts
begin

text \<open>
  What the counters say, how the manager's progress corresponds to the sequential traversal, and
  the consequences for whole runs: no deadlock, termination, and the state when all threads have
  returned.
\<close>

subsection \<open>The counters\<close>

fun is_account :: "worker_pc \<Rightarrow> bool" where
  "is_account (WAccount n) = True"
| "is_account _ = False"

fun pending_bytes :: "worker_pc \<Rightarrow> size_t" where
  "pending_bytes (WAccount n) = n"
| "pending_bytes _ = 0"

definition tally_inv :: "fs_env \<Rightarrow> copy_state \<Rightarrow> bool" where
  "tally_inv env s =
     (regular_files s = total_files s \<and>
      total_files s + length (dropped s) + size (manager_item (manager s)) = length (issued s) \<and>
      files_copied s + count_if is_account (workers s) = length (copied s) \<and>
      total_bytes_copied s + sum_list (map pending_bytes (workers s)) =
        sum_list (map (\<lambda>c. snd (copy_file env (fst c))) (copied s)) \<and>
      (\<forall>c \<in> set (copied s). snd c = fst (copy_file env (fst c))))"

lemma tally_init: "tally_inv env (copy_init env k src dst)"
proof -
  have "sum_list (map pending_bytes (replicate k WHead)) = 0" by (intro sum_list_zeros) auto
  then show ?thesis by (simp add: tally_inv_def copy_init_def count_if_eq_0)
qed

text \<open>Replacing a worker that holds no result by another such worker.\<close>

lemma tally_workers:
  assumes "i < length ws" "\<not> is_account (ws ! i)" "\<not> is_account w"
  shows "count_if is_account (ws[i := w]) = count_if is_account ws"
    "sum_list (map pending_bytes (ws[i := w])) = sum_list (map pending_bytes ws)"
proof -
  have zero: "pending_bytes v = 0" if "\<not> is_account v" for v
    using that by (cases v) auto
  with sum_map_update [OF assms(1), of pending_bytes w] assms(2,3)
  show "sum_list (map pending_bytes (ws[i := w])) = sum_list (map pending_bytes ws)" by simp
  show "count_if is_account (ws[i := w]) = count_if is_account ws"
    using count_if_update [OF assms(1), of is_account w] assms by simp
qed

lemma tally_wake:
  assumes "ws' \<in> set (wake_choices ws)"
  shows "count_if is_account ws' = count_if is_account ws"
    "sum_list (map pending_bytes ws') = sum_list (map pending_bytes ws)"
  using assms by (cases rule: wake_choices_cases; simp add: tally_workers)+

lemma tally_wake_all:
  "count_if is_account (wake_all ws) = count_if is_account ws"
  "sum_list (map pending_bytes (wake_all ws)) = sum_list (map pending_bytes ws)"
  by (induction ws) (auto simp: wake_all_def)

lemma tally_scan:
  assumes "tally_inv env s" "manager s = MScan"
  shows "tally_inv env (manager_scan env' sfd dfd s)"
proof (cases env' sfd dfd s rule: manager_scan_cases)
  case fin
  with assms show ?thesis by (simp add: tally_inv_def tally_wake_all)
next
  case (pop sd dd ns fs)
  with assms show ?thesis by (simp add: tally_inv_def)
next
  case (act sd dd m ms fs)
  with assms show ?thesis
    by (cases "entry_action env' sd dd m") (simp_all add: tally_inv_def)
qed

lemma tally_thread_step:
  "thread_step env n leave s t \<Longrightarrow> left_loop leave \<Longrightarrow> control_inv n s \<Longrightarrow> file_inv n s \<Longrightarrow>
   tally_inv env s \<Longrightarrow> tally_inv env t"
proof (induction rule: thread_step.induct)
  case (scan s sfd dfd)
  then show ?case by (simp add: tally_scan)
next
  case (put s fi ws)
  then have "fi \<in># live_items n s" by (simp add: live_items_def)
  then obtain p where "payload (ofiles s) fi = Some p" using live_payload put.prems(3) by blast
  with put tally_wake [OF put.hyps(3)] show ?case
    by (auto simp: tally_inv_def manager_put_def control_inv_def split: option.splits)
next
  case (lock s i)
  have "\<not> is_account leave" using lock.prems(1) by (auto simp: left_loop_def)
  moreover have "size (manager_item (signal_not_full m)) = size (manager_item m)" for m by simp
  ultimately show ?case using lock
    by (auto simp: tally_inv_def worker_lock_def Let_def tally_workers split: option.splits)
next
  case (copy s i fi)
  from nth_in_gather [OF copy.hyps(2), of fi worker_item] copy.hyps(3)
  have "fi \<in># live_items n s" by (simp add: live_items_def)
  then obtain p where p: "payload (ofiles s) fi = Some p" using live_payload copy.prems(3) by blast
  let ?w = "WAccount (snd (copy_file env p))"
  from copy.prems(4) copy.hyps(2,3) p count_if_update [OF copy.hyps(2), of is_account ?w]
    sum_map_update [OF copy.hyps(2), of pending_bytes ?w]
  show ?case by (auto simp: tally_inv_def worker_copy_def Let_def algebra_simps)
next
  case (account s i m)
  from account.hyps(3) count_if_update [OF account.hyps(2), of is_account WHead]
    sum_map_update [OF account.hyps(2), of pending_bytes WHead]
  have "count_if is_account (workers s) = Suc (count_if is_account ((workers s)[i := WHead]))"
    "sum_list (map pending_bytes (workers s)) =
       m + sum_list (map pending_bytes ((workers s)[i := WHead]))"
    by (simp_all add: add.commute)
  with account.prems(4) show ?case by (simp add: tally_inv_def worker_account_def add.assoc)
qed

lemma tally_outside_step: "outside_step s t \<Longrightarrow> tally_inv env s \<Longrightarrow> tally_inv env t"
  by (induction rule: outside_step.induct) (auto simp: tally_inv_def handle_signal_def tally_workers)

subsection \<open>The traversal\<close>

definition scan_of :: "copy_state \<Rightarrow> scan" where
  "scan_of s = \<lparr>sc_files = issued s, sc_fifo_files = fifo_files s, sc_directories = directories s,
                sc_symlinks = symlinks s, sc_mkdirs = made_dirs s, sc_links = made_links s\<rparr>"

definition start_scan :: "string \<Rightarrow> scan" where
  "start_scan dst = empty_scan\<lparr>sc_mkdirs := [dst]\<rparr>"

definition scan_inv :: "fs_env \<Rightarrow> string \<Rightarrow> string \<Rightarrow> copy_state \<Rightarrow> bool" where
  "scan_inv env src dst s =
     (\<not> stop s \<longrightarrow>
        (\<exists>k. (scan_step env ^^ k) (enter_directory env src dst, start_scan dst) =
             (frames s, scan_of s)))"

lemma scan_init: "scan_inv env src dst (copy_init env k src dst)"
  unfolding scan_inv_def
  by (intro impI exI [of _ 0])
    (simp add: copy_init_def scan_of_def start_scan_def empty_scan_def)

lemma manager_action_scan:
  "scan_of (manager_action env sfd dfd act s) = record_action act (scan_of s)"
  "frames (manager_action env sfd dfd act s) =
     (case act of MakeDir sp dp \<Rightarrow> enter_directory env sp dp | _ \<Rightarrow> []) @ frames s"
  by (cases act; simp add: scan_of_def)+

text \<open>Off the \<open>stop\<close> path, an iteration of the manager is an iteration of the traversal.\<close>

lemma manager_scan_scan:
  assumes "\<not> stop s"
  shows "(frames (manager_scan env sfd dfd s), scan_of (manager_scan env sfd dfd s)) =
     scan_step env (frames s, scan_of s)"
proof (cases env sfd dfd s rule: manager_scan_cases)
  case fin
  then show ?thesis by (simp add: scan_of_def)
next
  case (pop sd dd ns fs)
  with assms show ?thesis by (simp add: scan_of_def)
next
  case (act sd dd m ms fs)
  then show ?thesis by (simp add: manager_action_scan Let_def) (simp add: scan_of_def)
qed

lemma manager_scan_stop [simp]: "stop (manager_scan env sfd dfd s) = stop s"
  by (cases env sfd dfd s rule: manager_scan_cases) simp_all

text \<open>The other steps of the threads leave the traversal alone, or \<open>stop\<close> is set.\<close>

lemma other_steps_scan:
  "\<not> stop s \<Longrightarrow> frames (manager_put n fi ws s) = frames s \<and> scan_of (manager_put n fi ws s) = scan_of s"
  "frames (worker_lock n leave i s) = frames s \<and> scan_of (worker_lock n leave i s) = scan_of s"
  "frames (worker_copy env fi i s) = frames s \<and> scan_of (worker_copy env fi i s) = scan_of s"
  "frames (worker_account m i s) = frames s \<and> scan_of (worker_account m i s) = scan_of s"
  by (auto simp: state_simps scan_of_def Let_def split: option.splits)

lemma other_steps_stop [simp]:
  "stop (manager_put n fi ws s) = stop s" "stop (worker_lock n leave i s) = stop s"
  "stop (worker_account m i s) = stop s"
  by (auto simp: state_simps Let_def split: option.splits)

lemma scan_thread_step:
  "thread_step env n leave s t \<Longrightarrow> scan_inv env src dst s \<Longrightarrow> scan_inv env src dst t"
proof (induction rule: thread_step.induct)
  case (scan s sfd dfd)
  show ?case
    unfolding scan_inv_def
  proof
    assume "\<not> stop (manager_scan env sfd dfd s)"
    then have ns: "\<not> stop s" by simp
    with scan obtain k where
      "(scan_step env ^^ k) (enter_directory env src dst, start_scan dst) = (frames s, scan_of s)"
      by (auto simp: scan_inv_def)
    then have "(scan_step env ^^ Suc k) (enter_directory env src dst, start_scan dst) =
        (frames (manager_scan env sfd dfd s), scan_of (manager_scan env sfd dfd s))"
      using manager_scan_scan [OF ns] by simp
    then show "\<exists>k. (scan_step env ^^ k) (enter_directory env src dst, start_scan dst) =
        (frames (manager_scan env sfd dfd s), scan_of (manager_scan env sfd dfd s))" by blast
  qed
qed (simp_all add: scan_inv_def other_steps_scan)

lemma scan_outside_step:
  "outside_step s t \<Longrightarrow> scan_inv env src dst s \<Longrightarrow> scan_inv env src dst t"
  by (induction rule: outside_step.induct) (simp_all add: scan_inv_def handle_signal_def scan_of_def)

subsection \<open>All invariants together\<close>

definition copy_inv :: "fs_env \<Rightarrow> nat \<Rightarrow> nat \<Rightarrow> string \<Rightarrow> string \<Rightarrow> copy_state \<Rightarrow> bool" where
  "copy_inv env n k src dst s =
     (control_inv n s \<and> fd_inv n s \<and> file_inv n s \<and> tally_inv env s \<and> scan_inv env src dst s \<and>
      length (workers s) = k)"

definition started :: "fs_env \<Rightarrow> nat \<Rightarrow> nat \<Rightarrow> string \<Rightarrow> string \<Rightarrow> copy_state \<Rightarrow> bool" where
  "started env n k src dst s =
     (0 < n \<and> n \<le> MAX_BUFFER_SIZE \<and> s = copy_init env k src dst)"

lemma started_inv: "started env n k src dst s \<Longrightarrow> copy_inv env n k src dst s"
  by (auto simp: started_def copy_inv_def control_inv_init account_init tally_init scan_init)
    (simp add: copy_init_def)

lemma thread_step_length: "thread_step env n leave s t \<Longrightarrow> length (workers t) = length (workers s)"
proof (induction rule: thread_step.induct)
  case (scan s sfd dfd)
  then show ?case by (cases env sfd dfd s rule: manager_scan_cases) simp_all
next
  case (put s fi ws)
  then show ?case
    by (auto simp: manager_put_def wake_choices_length split: option.splits)
qed (auto simp: state_simps Let_def split: option.splits)

lemma outside_step_length: "outside_step s t \<Longrightarrow> length (workers t) = length (workers s)"
  by (induction rule: outside_step.induct) (auto simp: handle_signal_def)

lemma thread_step_inv:
  "thread_step env n leave s t \<Longrightarrow> left_loop leave \<Longrightarrow> copy_inv env n k src dst s \<Longrightarrow>
   copy_inv env n k src dst t"
  using control_thread_step account_thread_step tally_thread_step scan_thread_step
    thread_step_length unfolding copy_inv_def by meson

lemma outside_step_inv:
  "outside_step s t \<Longrightarrow> copy_inv env n k src dst s \<Longrightarrow> copy_inv env n k src dst t"
  using control_outside_step account_outside_step tally_outside_step scan_outside_step
    outside_step_length unfolding copy_inv_def by metis

interpretation copy05: inductive_invariant "started env n k src dst" "copy_step env n"
    "copy_inv env n k src dst"
  for env n k src dst
  by unfold_locales
    (auto simp: copy_step_def intro: started_inv thread_step_inv outside_step_inv)

end
