(* ===== verification/Copy_Live.thy ===== *)
theory Copy_Live
  imports Copy_Results
begin

text \<open>
  Liveness of the copying threads: some thread can move in every reachable state that is not
  final, and every thread step decreases a measure, so the threads return under every schedule
  once the traversal of the source directory is finite.
\<close>

subsection \<open>Progress\<close>

definition all_left :: "copy_state \<Rightarrow> bool" where
  "all_left s = (manager s = MDone \<and> (\<forall>w \<in> set (workers s). left_loop w))"

lemma fresh_descriptors:
  assumes "finite (dom (f :: int \<rightharpoonup> ofile))"
  obtains sfd dfd where "sfd \<notin> dom f" "dfd \<notin> dom f" "sfd \<noteq> dfd"
proof -
  obtain sfd where "sfd \<notin> dom f" using assms ex_new_if_finite infinite_UNIV_int by blast
  moreover have "finite (insert sfd (dom f))" using assms by simp
  then obtain dfd where "dfd \<notin> insert sfd (dom f)"
    using ex_new_if_finite infinite_UNIV_int by blast
  ultimately show ?thesis using that by auto
qed

lemma awake_worker_moves:
  assumes "\<not> faulted s" "w \<in> set (workers s)" "awake w"
  shows "\<exists>t. thread_step env n leave s t"
proof -
  from assms(2) obtain i where i: "i < length (workers s)" "workers s ! i = w"
    by (auto simp: in_set_conv_nth)
  from assms(3) consider "w = WHead" | fi where "w = WCopy fi" | m where "w = WAccount m"
    by (auto simp: awake_def)
  then show ?thesis using assms(1) i by cases (blast intro: thread_step.intros)+
qed

text \<open>
  The waiting sets leave somebody to wake them: a manager that waits faces a full buffer, and as
  long as a worker waits the buffer holds no more entries than there are awake workers.
\<close>

lemma thread_progress:
  assumes inv: "copy_inv env n k src dst s" and k: "0 < k" and going: "\<not> all_left s"
  shows "\<exists>t. thread_step env n leave s t"
proof -
  from inv have ctl: "control_inv n s" and fin: "finite (dom (ofiles s))"
    and len: "length (workers s) = k"
    by (auto simp: copy_inv_def fd_inv_def)
  from ctl have ok: "\<not> faulted s" and n: "0 < n" by (auto simp: control_inv_def buffer_wf_def)
  show ?thesis
  proof (cases "\<exists>w \<in> set (workers s). awake w")
    case True
    with ok show ?thesis using awake_worker_moves by blast
  next
    case False
    then have asleep: "count_if awake (workers s) = 0" by (simp add: count_if_eq_0)
    show ?thesis
    proof (cases "manager s")
      case MScan
      obtain sfd dfd where "sfd \<notin> dom (ofiles s)" "dfd \<notin> dom (ofiles s)" "sfd \<noteq> dfd"
        using fin by (rule fresh_descriptors)
      with ok MScan show ?thesis by (blast intro: thread_step.scan)
    next
      case (MPut fi)
      have "hd (wake_choices (workers s)) \<in> set (wake_choices (workers s))"
        using wake_choices_nonempty by simp
      with ok MPut show ?thesis by (blast intro: thread_step.put)
    next
      case (MPutWait fi)
      with ctl have full: "b_count (fbuf s) = n" by (simp add: control_inv_def)
      obtain w where w: "w \<in> set (workers s)" using len k by (cases "workers s") auto
      with False have "w = WWait \<or> left_loop w" by (cases w) (auto simp: awake_def)
      with ctl full n asleep w show ?thesis by (auto simp: control_inv_def)
    next
      case MDone
      with ctl have "WWait \<notin> set (workers s)" by (auto simp: control_inv_def)
      with False have "left_loop w" if "w \<in> set (workers s)" for w
        using that by (cases w) (auto simp: awake_def)
      with going MDone show ?thesis by (simp add: all_left_def)
    qed
  qed
qed

subsection \<open>The measure\<close>

definition scan_left :: "fs_env \<Rightarrow> frame list \<times> scan \<Rightarrow> nat" where
  "scan_left env x = (LEAST k. fst ((scan_step env ^^ k) x) = [])"

lemma scan_left_step:
  assumes ends: "fst ((scan_step env ^^ k) x) = []" and going: "fst x \<noteq> []"
  shows "scan_left env (scan_step env x) < scan_left env x"
proof -
  let ?m = "scan_left env x"
  have least: "fst ((scan_step env ^^ ?m) x) = []"
    unfolding scan_left_def by (rule LeastI) (rule ends)
  with going obtain m where m: "?m = Suc m" by (cases ?m) auto
  with least have "fst ((scan_step env ^^ m) (scan_step env x)) = []" by (simp add: funpow_swap1)
  then have "scan_left env (scan_step env x) \<le> m"
    unfolding scan_left_def by (rule Least_le)
  with m show ?thesis by simp
qed

definition traversal_ends :: "fs_env \<Rightarrow> string \<Rightarrow> string \<Rightarrow> bool" where
  "traversal_ends env src dst =
     (\<exists>depth sc. process_directory depth env src dst (start_scan dst) = Some sc)"

lemma traversal_ends_from:
  assumes ends: "traversal_ends env src dst" and inv: "scan_inv env src dst s" and ns: "\<not> stop s"
  shows "\<exists>k. fst ((scan_step env ^^ k) (frames s, scan_of s)) = []"
proof -
  let ?x = "(enter_directory env src dst, start_scan dst)"
  from ends obtain depth sc where "process_directory depth env src dst (start_scan dst) = Some sc"
    by (auto simp: traversal_ends_def)
  from process_directory_scan(1) [OF this, of "[]"] obtain K where K: "(scan_step env ^^ K) ?x = ([], sc)"
    by auto
  from inv ns obtain j where j: "(scan_step env ^^ j) ?x = (frames s, scan_of s)"
    by (auto simp: scan_inv_def)
  have "(scan_step env ^^ K) (frames s, scan_of s) = (scan_step env ^^ (K + j)) ?x"
    using j by (simp add: funpow_add)
  also have "\<dots> = (scan_step env ^^ (j + K)) ?x" by (simp add: add.commute)
  also have "\<dots> = ([], sc)" using K by (simp add: funpow_add scan_steps_stay)
  finally show ?thesis by (metis fst_conv)
qed

definition frames_left :: "fs_env \<Rightarrow> copy_state \<Rightarrow> nat" where
  "frames_left env s = (if stop s then length (frames s) else scan_left env (frames s, scan_of s))"

fun worker_work :: "worker_pc \<Rightarrow> nat" where
  "worker_work (WCopy fi) = 3"
| "worker_work (WAccount n) = 2"
| "worker_work WHead = 1"
| "worker_work _ = 0"

fun manager_work :: "nat \<Rightarrow> nat \<Rightarrow> manager_pc \<Rightarrow> nat" where
  "manager_work k r MDone = 0"
| "manager_work k r MScan = (k + 10) * Suc r"
| "manager_work k r (MPut fi) = (k + 10) * Suc r + 8"
| "manager_work k r (MPutWait fi) = (k + 10) * Suc r + 7"

definition copy_work :: "fs_env \<Rightarrow> nat \<Rightarrow> copy_state \<Rightarrow> nat" where
  "copy_work env k s =
     manager_work k (frames_left env s) (manager s) + 5 * b_count (fbuf s) +
     sum_list (map worker_work (workers s))"

lemma frames_left_scan:
  assumes ends: "traversal_ends env src dst" and inv: "scan_inv env src dst s"
    and fr: "frames s \<noteq> []"
  shows "frames_left env (manager_scan env sfd dfd s) < frames_left env s"
proof (cases "stop s")
  case True
  then show ?thesis using fr
    by (cases env sfd dfd s rule: manager_scan_cases) (simp_all add: frames_left_def)
next
  case False
  from traversal_ends_from [OF ends inv False] obtain j
    where "fst ((scan_step env ^^ j) (frames s, scan_of s)) = []" by blast
  from scan_left_step [OF this] fr have
    "scan_left env (scan_step env (frames s, scan_of s)) < scan_left env (frames s, scan_of s)"
    by simp
  with False manager_scan_scan [OF False] show ?thesis by (simp add: frames_left_def)
qed

lemma manager_action_pc_work:
  "manager s = MScan \<Longrightarrow> manager_work k r (manager (manager_action env sfd dfd act s)) \<le> (k + 10) * Suc r + 8"
  by (cases act) simp_all

lemma wake_all_work: "sum_list (map worker_work (wake_all ws)) \<le> sum_list (map worker_work ws) + length ws"
  by (induction ws) (auto simp: wake_all_def)

lemma scan_work:
  assumes inv: "scan_inv env src dst s" "traversal_ends env src dst" "length (workers s) = k"
    and pc: "manager s = MScan"
  shows "copy_work env k (manager_scan env sfd dfd s) < copy_work env k s"
proof (cases env sfd dfd s rule: manager_scan_cases)
  case fin
  with pc wake_all_work [of "workers s"] inv(3) show ?thesis by (simp add: copy_work_def)
next
  case (pop sd dd ns fs)
  then have "frames s \<noteq> []" by simp
  from frames_left_scan [OF inv(2,1) this, of sfd dfd] pc pop show ?thesis
    by (auto simp: copy_work_def)
next
  case (act sd dd m ms fs)
  let ?t = "manager_scan env sfd dfd s"
  let ?r = "frames_left env s"
  have "frames s \<noteq> []" using act by simp
  with frames_left_scan [OF inv(2,1) this] have r: "Suc (frames_left env ?t) \<le> ?r"
    by (simp add: Suc_le_eq)
  have "manager_work k (frames_left env ?t) (manager ?t) \<le> (k + 10) * Suc (frames_left env ?t) + 8"
    unfolding act(3) by (rule manager_action_pc_work) (simp add: pc)
  also have "\<dots> \<le> (k + 10) * ?r + 8" using mult_le_mono2 [OF r, of "k + 10"] by simp
  also have "\<dots> < (k + 10) * Suc ?r" by simp
  finally have "manager_work k (frames_left env ?t) (manager ?t) < manager_work k ?r (manager s)"
    using pc by simp
  moreover have "fbuf ?t = fbuf s" "workers ?t = workers s" using act by simp_all
  ultimately show ?thesis by (simp add: copy_work_def)
qed

lemma wake_choices_work:
  assumes "ws' \<in> set (wake_choices ws)"
  shows "sum_list (map worker_work ws') \<le> sum_list (map worker_work ws) + 1"
  using assms
proof (cases rule: wake_choices_cases)
  case (one j)
  with sum_map_update [OF one(1), of worker_work WHead] show ?thesis by simp
qed simp

lemma put_work:
  assumes ctl: "control_inv n s" and pc: "manager s = MPut fi"
    and ws: "ws \<in> set (wake_choices (workers s))"
  shows "copy_work env k (manager_put n fi ws s) < copy_work env k s"
proof -
  consider (full) "b_count (fbuf s) = n" "\<not> stop s" | (stopped) "stop s"
    | (store) "b_count (fbuf s) \<noteq> n" "\<not> stop s"
    by blast
  then show ?thesis
  proof cases
    case full
    with pc show ?thesis
      by (simp add: copy_work_def manager_put_def frames_left_def scan_of_def)
  next
    case stopped
    then have "frames_left env (manager_put n fi ws s) \<le> frames_left env s"
      by (simp add: frames_left_def) (simp add: manager_put_def)
    then have "(k + 10) * frames_left env (manager_put n fi ws s) < 8 + (k + 10) * frames_left env s"
      by (rule le_less_trans [OF mult_le_mono2]) simp
    moreover have "manager (manager_put n fi ws s) = MScan" "fbuf (manager_put n fi ws s) = fbuf s"
      "workers (manager_put n fi ws s) = workers s"
      using stopped by (simp_all add: manager_put_def)
    ultimately show ?thesis using pc by (simp add: copy_work_def)
  next
    case store
    with ctl have "b_count (fbuf s) < n" "buffer_wf n (fbuf s)"
      by (auto simp: control_inv_def buffer_wf_def)
    then obtain b where b: "buffer_put n fi (fbuf s) = Some b" "queued n b = queued n (fbuf s) @ [fi]"
      using buffer_put_queued by blast
    then have "b_count b = Suc (b_count (fbuf s))"
      by (metis length_queued length_append_singleton)
    moreover have "frames_left env (manager_put n fi ws s) = frames_left env s"
      using store by (simp add: frames_left_def other_steps_scan)
    ultimately show ?thesis using store pc b wake_choices_work [OF ws]
      by (simp add: copy_work_def) (simp add: manager_put_def)
  qed
qed

lemma lock_work:
  assumes ctl: "control_inv n s" and leave: "left_loop leave"
    and i: "i < length (workers s)" "workers s ! i = WHead"
  shows "copy_work env k (worker_lock n leave i s) < copy_work env k s"
proof -
  have fl: "frames_left env (worker_lock n leave i s) = frames_left env s"
    by (simp add: frames_left_def other_steps_scan)
  note upd = sum_map_update [OF i(1), of worker_work]
  show ?thesis
  proof (cases "b_count (fbuf s) = 0")
    case True
    have "worker_work leave = 0" using leave by (auto simp: left_loop_def)
    with True i fl upd [of leave] upd [of WWait] show ?thesis
      by (simp add: copy_work_def) (simp add: worker_lock_def Let_def)
  next
    case False
    with ctl obtain b where b: "buffer_take n (fbuf s) = Some (hd (queued n (fbuf s)), b)"
        "queued n b = tl (queued n (fbuf s))"
      using buffer_take_queued [of n "fbuf s"] by (auto simp: control_inv_def queued_eq_Nil)
    then have "b_count b = b_count (fbuf s) - 1" by (metis length_queued length_tl)
    moreover have "manager_work k (frames_left env s) (signal_not_full (manager s)) \<le>
        Suc (manager_work k (frames_left env s) (manager s))"
      by (cases "manager s") simp_all
    ultimately show ?thesis using False i fl b upd [of "WCopy (hd (queued n (fbuf s)))"]
      by (simp add: copy_work_def) (simp add: worker_lock_def Let_def)
  qed
qed

lemma thread_step_work:
  "thread_step env n leave s t \<Longrightarrow> left_loop leave \<Longrightarrow> copy_inv env n k src dst s \<Longrightarrow>
   traversal_ends env src dst \<Longrightarrow> copy_work env k t < copy_work env k s"
proof (induction rule: thread_step.induct)
  case (scan s sfd dfd)
  then show ?case by (auto simp: copy_inv_def intro: scan_work)
next
  case (put s fi ws)
  then show ?case by (auto simp: copy_inv_def intro: put_work)
next
  case (lock s i)
  then have "control_inv n s" by (simp add: copy_inv_def)
  with lock show ?case by (simp add: lock_work)
next
  case (copy s i fi)
  obtain m where m: "workers (worker_copy env fi i s) = (workers s)[i := WAccount m]"
    by (rule worker_copy_pc)
  from copy m sum_map_update [OF copy.hyps(2), of worker_work "WAccount m"]
  show ?case by (simp add: copy_work_def frames_left_def other_steps_scan)
next
  case (account s i m)
  with sum_map_update [OF account.hyps(2), of worker_work WHead] show ?case
    by (simp add: copy_work_def frames_left_def other_steps_scan) (simp add: worker_account_def)
qed

definition live_inv :: "fs_env \<Rightarrow> nat \<Rightarrow> nat \<Rightarrow> string \<Rightarrow> string \<Rightarrow> worker_pc \<Rightarrow> copy_state \<Rightarrow> bool" where
  "live_inv env n k src dst leave s =
     (copy_inv env n k src dst s \<and> 0 < k \<and> left_loop leave \<and> traversal_ends env src dst)"

interpretation copy_threads: terminating "live_inv env n k src dst leave" "thread_step env n leave"
    "live_inv env n k src dst leave" all_left "copy_work env k"
  for env n k src dst leave
  by unfold_locales
    (auto simp: live_inv_def intro: thread_step_inv thread_progress thread_step_work)

end
