(* ===== verification/Copy_Properties.thy ===== *)
theory Copy_Properties
  imports Copy_Live
begin

text \<open>
  What the directory copying utility of sys05 guarantees, with the concrete run that serves as
  witness: one buffer slot, one worker, a source directory with one regular file.
\<close>

subsection \<open>The final state\<close>

lemma image_mset_Some_eq: "image_mset Some A = image_mset Some B \<Longrightarrow> A = B"
  by (drule arg_cong [of _ _ "image_mset the"]) (simp add: image_mset.compositionality comp_def)

text \<open>A worker leaves the loop only for \<open>leave\<close>.\<close>

lemma other_exit_step:
  "thread_step env n leave s t \<Longrightarrow> left_loop v \<Longrightarrow> leave \<noteq> v \<Longrightarrow> v \<notin> set (workers s) \<Longrightarrow>
   v \<notin> set (workers t)"
proof (induction rule: thread_step.induct)
  case (scan s sfd dfd)
  then show ?case
    by (cases env sfd dfd s rule: manager_scan_cases) (auto simp: wake_all_def)
next
  case (put s fi ws)
  have "v \<notin> set ws"
    using put.hyps(3) put.prems(1,3)
    by (cases rule: wake_choices_cases) (auto dest: in_update_D)
  with put.prems show ?case by (auto simp: manager_put_def split: option.splits)
qed (auto simp: state_simps Let_def split: option.splits dest!: in_update_D)

lemma other_exit_outside:
  "outside_step s t \<Longrightarrow> left_loop v \<Longrightarrow> v \<notin> set (workers s) \<Longrightarrow> v \<notin> set (workers t)"
  by (induction rule: outside_step.induct) (auto simp: handle_signal_def dest!: in_update_D)

interpretation no_barrier05: inductive_invariant "started env n k src dst" "copy_step env n"
    "\<lambda>s. WBarrier \<notin> set (workers s)"
  for env n k src dst
  by unfold_locales
    (auto simp: copy_step_def started_def copy_init_def
      dest: other_exit_step [where v = WBarrier] other_exit_outside [where v = WBarrier])

lemma all_left_final: "WBarrier \<notin> set (workers s) \<Longrightarrow> all_left s \<longleftrightarrow> copy_final s"
  by (auto simp: all_left_def copy_final_def left_loop_def)

lemma all_left_no_work:
  assumes "all_left s"
  shows "manager_item (manager s) = {#}" "gather worker_item (workers s) = {#}"
    "count_if is_account (workers s) = 0" "sum_list (map pending_bytes (workers s)) = 0"
proof -
  have "worker_item w = {#}" "\<not> is_account w" "pending_bytes w = 0" if "w \<in> set (workers s)" for w
    using assms that by (auto simp: all_left_def left_loop_def)
  then show "gather worker_item (workers s) = {#}" "count_if is_account (workers s) = 0"
    "sum_list (map pending_bytes (workers s)) = 0"
    by (auto intro: gather_empty sum_list_zeros simp: count_if_eq_0)
  show "manager_item (manager s) = {#}" using assms by (simp add: all_left_def)
qed

text \<open>When all threads have left, nothing is live: the buffer is empty and everything is closed.\<close>

lemma all_left_settled:
  assumes inv: "copy_inv env n k src dst s" and k: "0 < k" and fin: "all_left s"
  shows "b_count (fbuf s) = 0" "live_items n s = {#}" "ofiles s = Map.empty"
    "mset (issued s) = mset (map fst (copied s)) + mset (dropped s)"
proof -
  note idle = all_left_no_work [OF fin]
  obtain w where "w \<in> set (workers s)" "left_loop w"
    using inv k fin by (cases "workers s") (auto simp: copy_inv_def all_left_def)
  with inv show empty: "b_count (fbuf s) = 0" by (auto simp: copy_inv_def control_inv_def)
  then have "queued n (fbuf s) = []" by (simp add: queued_eq_Nil)
  then show items: "live_items n s = {#}" by (simp add: live_items_def idle)
  from inv items have "finite (dom (ofiles s))" "mset_set (dom (ofiles s)) = {#}"
    by (auto simp: copy_inv_def fd_inv_def)
  then show "ofiles s = Map.empty" by (simp add: mset_set_empty_iff)
  from inv items have "image_mset Some (mset (issued s)) =
      image_mset Some (mset (map fst (copied s)) + mset (dropped s))"
    by (simp add: copy_inv_def file_inv_def image_mset.compositionality comp_def)
  then show "mset (issued s) = mset (map fst (copied s)) + mset (dropped s)"
    by (metis image_mset_Some_eq)
qed

text \<open>Without SIGINT the traversal has been run to its end.\<close>

lemma all_left_scanned:
  assumes inv: "copy_inv env n k src dst s" and fin: "all_left s" and ns: "\<not> stop s"
    and seq: "process_directory depth env src dst (start_scan dst) = Some sc"
  shows "scan_of s = sc"
proof -
  let ?x = "(enter_directory env src dst, start_scan dst)"
  from process_directory_scan(1) [OF seq, of "[]"] obtain K where "(scan_step env ^^ K) ?x = ([], sc)"
    by auto
  moreover from inv ns obtain j where "(scan_step env ^^ j) ?x = (frames s, scan_of s)"
    by (auto simp: copy_inv_def scan_inv_def)
  moreover have "frames s = []"
    using inv fin by (auto simp: copy_inv_def control_inv_def all_left_def)
  ultimately show ?thesis using scan_result_unique by metis
qed

lemma all_left_result:
  assumes inv: "copy_inv env n k src dst s" and k: "0 < k" and fin: "all_left s" and ns: "\<not> stop s"
    and seq: "process_directory depth env src dst (start_scan dst) = Some sc"
  shows "mset (map fst (copied s)) = mset (sc_files sc)"
    "files_copied s = length (sc_files sc)" "total_files s = length (sc_files sc)"
    "regular_files s = length (sc_files sc)"
    "scan_of s = sc"
proof -
  show sc: "scan_of s = sc" by (rule all_left_scanned [OF inv fin ns seq])
  then have files: "issued s = sc_files sc" by (auto simp: scan_of_def)
  have "dropped s = []" using inv ns by (auto simp: copy_inv_def file_inv_def)
  with all_left_settled(4) [OF inv k fin] files
  show copied: "mset (map fst (copied s)) = mset (sc_files sc)" by simp
  then have "length (copied s) = length (sc_files sc)" by (metis length_map mset_eq_length)
  with inv files \<open>dropped s = []\<close> all_left_no_work [OF fin]
  show "files_copied s = length (sc_files sc)" "total_files s = length (sc_files sc)"
    "regular_files s = length (sc_files sc)"
    by (auto simp: copy_inv_def tally_inv_def)
qed

text \<open>What arrived, when no call on the files failed.\<close>

lemma all_left_bytes:
  assumes inv: "copy_inv env n k src dst s" and fin: "all_left s"
    and io: "\<And>p i. \<not> read_fails env p i" "\<And>p i m. write_result env p i m = int m"
  shows "\<forall>((sp, dp, data), out) \<in> set (copied s). out = data"
    "total_bytes_copied s = of_nat (sum_list (map (\<lambda>((sp, dp, data), out). length data) (copied s)))"
proof -
  have all: "copy_file env (sp, dp, data) = (data, of_nat (length data))" for sp dp data
    using copy_loop_all [of "read_fails env sp" "write_result env dp" 0 data "[]" 0] io
    by (simp add: copy_file_def)
  from inv all show "\<forall>((sp, dp, data), out) \<in> set (copied s). out = data"
    by (fastforce simp: copy_inv_def tally_inv_def)
  have "sum_list (map (\<lambda>c. snd (copy_file env (fst c))) cs) =
      of_nat (sum_list (map (\<lambda>((sp, dp, data), out). length data) cs))" for cs
    by (induction cs) (auto simp: all)
  with inv all_left_no_work [OF fin] show "total_bytes_copied s =
      of_nat (sum_list (map (\<lambda>((sp, dp, data), out). length data) (copied s)))"
    by (simp add: copy_inv_def tally_inv_def)
qed

lemma reachable_threads:
  "steps (thread_step env n WExit) m s t \<Longrightarrow> reachable init (copy_step env n) s \<Longrightarrow>
   reachable init (copy_step env n) t"
proof (induction rule: steps.induct)
  case (steps_Suc s t m u)
  have "copy_step env n s t" using steps_Suc.hyps(1) by (simp add: copy_step_def)
  with steps_Suc.prems have "reachable init (copy_step env n) t" by (rule reachable.reach_step)
  then show ?case by (rule steps_Suc.IH)
qed

lemma thread_step_stop: "thread_step env n leave s t \<Longrightarrow> stop t = stop s"
  by (induction rule: thread_step.induct)
    (auto simp: worker_copy_def Let_def split: option.splits)

lemma threads_stop: "steps (thread_step env n leave) m s t \<Longrightarrow> stop t = stop s"
  by (induction rule: steps.induct) (auto dest: thread_step_stop)

lemma reachable_live_inv:
  assumes "reachable (started env n k src dst) (copy_step env n) s" and "0 < k"
    and "process_directory depth env src dst (start_scan dst) = Some sc"
  shows "live_inv env n k src dst WExit s"
  using copy05.reachable_inv [OF assms(1)] assms(2,3)
  by (auto simp: live_inv_def traversal_ends_def)

lemma reaches_copy_final:
  assumes "reachable (started env n k src dst) (copy_step env n) s" and "0 < k"
    and "process_directory depth env src dst (start_scan dst) = Some sc"
  shows "\<exists>m t. steps (thread_step env n WExit) m s t \<and> copy_final t"
proof -
  from copy_threads.reaches_final [OF reachable_live_inv [OF assms]]
  obtain m t where t: "steps (thread_step env n WExit) m s t" "all_left t" by blast
  then have "WBarrier \<notin> set (workers t)"
    using no_barrier05.reachable_inv reachable_threads assms(1) by blast
  with t show ?thesis using all_left_final by blast
qed

lemma final_all_left: "copy_final s \<Longrightarrow> all_left s"
  by (auto simp: copy_final_def all_left_def)

subsection \<open>A concrete run\<close>

definition demo_env :: fs_env where
  "demo_env = \<lparr>opendir = (\<lambda>p. if p = ''s'' then Some [''.'', ''..'', ''a''] else None),
     lstat = (\<lambda>p. if p = ''s/a'' then Some S_REG else None),
     open_src = (\<lambda>p. Some [104, 105]), open_dst = (\<lambda>p. True), readlink = (\<lambda>p. None),
     read_fails = (\<lambda>p i. False), write_result = (\<lambda>p i m. int m)\<rparr>"

definition demo_scan :: scan where
  "demo_scan = (start_scan ''d'')\<lparr>sc_files := [(''s/a'', ''d/a'', [104, 105])]\<rparr>"

lemma demo_traversal: "process_directory 2 demo_env ''s'' ''d'' (start_scan ''d'') = Some demo_scan"
  by (simp add: demo_env_def demo_scan_def numeral_2_eq_2 entry_action_def join_path_def
      c_snprintf_def start_scan_def empty_scan_def)

lemma demo_start:
  "reachable (started demo_env 1 1 ''s'' ''d'') (copy_step demo_env 1) (copy_init demo_env 1 ''s'' ''d'')"
  by (rule reachable.reach_init) (simp add: started_def MAX_BUFFER_SIZE_def)

lemma demo_final:
  obtains s where "reachable (started demo_env 1 1 ''s'' ''d'') (copy_step demo_env 1) s"
    "copy_final s" "\<not> stop s"
proof -
  from reaches_copy_final [OF demo_start _ demo_traversal]
  obtain m t where t: "steps (thread_step demo_env 1 WExit) m (copy_init demo_env 1 ''s'' ''d'') t"
      "copy_final t"
    by auto
  then have "\<not> stop t" using threads_stop by (fastforce simp: copy_init_def)
  with t that reachable_threads demo_start show ?thesis by blast
qed


subsection \<open>Properties of the buffer\<close>

text \<open>C5. The file buffer is a FIFO of capacity \<open>buffer_size\<close> when the size is between 1 and
  \<open>MAX_BUFFER_SIZE\<close>: every schedule of stores and fetches that respects the two guards the
  threads wait for runs without leaving the array, and the entries come out in the order in
  which they were stored, none lost and none duplicated.\<close>

theorem buffer_is_fifo:
  assumes "0 < n" "n \<le> MAX_BUFFER_SIZE" "guarded n 0 os"
  shows "\<exists>xs b. run_ops (buffer_put n) (buffer_take n) os buffer_init = Some (xs, b) \<and>
    xs @ queued n b = puts os \<and> b_count b \<le> n"
  using file_fifo.run_ops_fifo [OF buffer_init_wf [OF assms(1,2)], of os] assms(3)
  by (auto simp: buffer_wf_def)

theorem buffer_is_fifo_witness:
  "\<exists>xs b. run_ops (buffer_put 2) (buffer_take 2) [Put zero_info, Take, Put zero_info, Put zero_info]
     buffer_init = Some (xs, b) \<and> xs @ queued 2 b = [zero_info, zero_info, zero_info] \<and> b_count b \<le> 2"
  using buffer_is_fifo [of 2 "[Put zero_info, Take, Put zero_info, Put zero_info]"]
  by (simp add: MAX_BUFFER_SIZE_def)

lemma buffer_fill:
  "run_ops (buffer_put n) (buffer_take n) (replicate k (Put fi)) b = Some ([], b') \<Longrightarrow>
   b_in b + k < n \<Longrightarrow> b_in b' = b_in b + k \<and> length (buffer b') = length (buffer b)"
proof (induction k arbitrary: b)
  case (Suc k)
  from Suc.prems(1) obtain b1 where b1: "buffer_put n fi b = Some b1"
    "run_ops (buffer_put n) (buffer_take n) (replicate k (Put fi)) b1 = Some ([], b')"
    by (auto split: option.splits)
  with Suc.prems(2) have "b_in b1 = Suc (b_in b)" "length (buffer b1) = length (buffer b)"
    by (auto simp: buffer_put_def split: if_splits)
  with Suc.IH [OF b1(2)] Suc.prems(2) show ?case by simp
qed simp

lemma run_puts_result: "run_ops put_in take_out (replicate k (Put x)) q = Some (xs, q') \<Longrightarrow> xs = []"
  by (induction k arbitrary: q) (auto split: option.splits)

lemma run_puts_append:
  "run_ops put_in take_out (replicate k (Put x) @ os) q =
     (case run_ops put_in take_out (replicate k (Put x)) q of
        None \<Rightarrow> None | Some (_, q') \<Rightarrow> run_ops put_in take_out os q')"
  by (induction k arbitrary: q) (auto split: option.splits)

lemma guarded_replicate: "c + k \<le> n \<Longrightarrow> guarded n c (replicate k (Put x))"
  by (induction k arbitrary: c) auto

text \<open>A buffer size above \<open>MAX_BUFFER_SIZE\<close>, which \<open>main\<close> accepts, overruns the array: 1025 stores
  respect the guard \<open>count < buffer_size\<close> and yet the last one lands beyond the 1024 slots.\<close>

theorem buffer_overrun:
  assumes "MAX_BUFFER_SIZE < n"
  shows "guarded n 0 (replicate (Suc MAX_BUFFER_SIZE) (Put fi)) \<and>
    run_ops (buffer_put n) (buffer_take n) (replicate (Suc MAX_BUFFER_SIZE) (Put fi)) buffer_init = None"
proof (rule conjI)
  show "guarded n 0 (replicate (Suc MAX_BUFFER_SIZE) (Put fi))"
    using assms by (intro guarded_replicate) simp
  let ?run = "\<lambda>os. run_ops (buffer_put n) (buffer_take n) os buffer_init"
  have "replicate (Suc MAX_BUFFER_SIZE) (Put fi) = replicate MAX_BUFFER_SIZE (Put fi) @ [Put fi]"
    by (simp add: replicate_append_same)
  moreover have "run_ops (buffer_put n) (buffer_take n) [Put fi] b = None"
    if "?run (replicate MAX_BUFFER_SIZE (Put fi)) = Some (xs, b)" for xs b
  proof -
    from that run_puts_result have "?run (replicate MAX_BUFFER_SIZE (Put fi)) = Some ([], b)" by metis
    from buffer_fill [OF this] assms have "b_in b = MAX_BUFFER_SIZE" "length (buffer b) = MAX_BUFFER_SIZE"
      by (simp_all add: buffer_init_def)
    then show ?thesis by (simp add: buffer_put_def)
  qed
  ultimately show "?run (replicate (Suc MAX_BUFFER_SIZE) (Put fi)) = None"
    by (auto simp: run_puts_append simp del: replicate.simps split: option.splits)
qed

theorem buffer_overrun_witness:
  "run_ops (buffer_put 2000) (buffer_take 2000) (replicate (Suc MAX_BUFFER_SIZE) (Put zero_info))
     buffer_init = None"
  using buffer_overrun [of 2000 zero_info] by (simp add: MAX_BUFFER_SIZE_def)

subsection \<open>Properties of the traversal\<close>

text \<open>The regular files of the tree below a directory, each with the path it is copied to.\<close>

inductive tree_file :: "fs_env \<Rightarrow> string \<Rightarrow> string \<Rightarrow> string \<times> string \<times> bytes \<Rightarrow> bool"
  for env :: fs_env where
  here: "opendir env sd = Some names \<Longrightarrow> n \<in> set names \<Longrightarrow>
    entry_action env sd dd n = CopyRegular sp dp data \<Longrightarrow> tree_file env sd dd (sp, dp, data)"
| below: "opendir env sd = Some names \<Longrightarrow> n \<in> set names \<Longrightarrow>
    entry_action env sd dd n = MakeDir sp dp \<Longrightarrow> tree_file env sp dp f \<Longrightarrow> tree_file env sd dd f"

inductive_simps tree_file_iff: "tree_file env sd dd f"

definition entry_files :: "fs_env \<Rightarrow> string \<Rightarrow> string \<Rightarrow> string \<Rightarrow> (string \<times> string \<times> bytes) set" where
  "entry_files env sd dd n =
     (case entry_action env sd dd n of
        CopyRegular sp dp data \<Rightarrow> {(sp, dp, data)}
      | MakeDir sp dp \<Rightarrow> {f. tree_file env sp dp f}
      | _ \<Rightarrow> {})"

lemma tree_files_entries:
  "opendir env sd = Some names \<Longrightarrow>
   {f. tree_file env sd dd f} = (\<Union>n \<in> set names. entry_files env sd dd n)"
  by (subst tree_file_iff) (fastforce simp: entry_files_def split: action.splits)

lemma tree_files_none: "opendir env sd = None \<Longrightarrow> \<not> tree_file env sd dd f"
  by (subst tree_file_iff) simp

lemma traversal_files:
  "process_directory depth env sd dd sc = Some sc' \<Longrightarrow>
     set (sc_files sc') = set (sc_files sc) \<union> {f. tree_file env sd dd f}"
  "process_entries depth env sd dd ns sc = Some sc' \<Longrightarrow>
     set (sc_files sc') = set (sc_files sc) \<union> (\<Union>n \<in> set ns. entry_files env sd dd n)"
proof (induction depth env sd dd sc and depth env sd dd ns sc
    arbitrary: sc' and sc' rule: process_directory_process_entries.induct)
  case (2 depth env sd dd sc)
  then show ?case
    by (cases "opendir env sd") (simp_all add: tree_files_entries tree_files_none)
next
  case (4 depth env sd dd n ns sc)
  let ?act = "entry_action env sd dd n"
  show ?case
  proof (cases "\<exists>sp dp. ?act = MakeDir sp dp")
    case True
    then obtain sp dp where act: "?act = MakeDir sp dp" by blast
    with "4.prems" obtain sc1 where
      d: "process_directory depth env sp dp (record_action ?act sc) = Some sc1" and
      e: "process_entries depth env sd dd ns sc1 = Some sc'"
      by (auto simp: Let_def split: option.splits)
    from "4.IH"(3) [OF refl refl act d] "4.IH"(4) [OF refl refl act d e] act
    show ?thesis by (auto simp: entry_files_def)
  next
    case False
    then have e: "process_entries depth env sd dd ns (record_action ?act sc) = Some sc'"
      using "4.prems" by (auto simp: Let_def split: action.splits)
    with "4.IH"(1,2,5,6) False
    have "set (sc_files sc') = set (sc_files (record_action ?act sc)) \<union>
        (\<Union>n \<in> set ns. entry_files env sd dd n)"
      by (cases ?act) auto
    with False show ?thesis by (cases ?act) (auto simp: entry_files_def)
  qed
qed simp_all

subsection \<open>Enough depth\<close>

text \<open>A depth that is enough can be increased without changing the result.\<close>

lemma process_directory_more:
  "process_directory depth env sd dd sc = Some sc' \<Longrightarrow> process_directory (depth + k) env sd dd sc = Some sc'"
  "process_entries depth env sd dd ns sc = Some sc' \<Longrightarrow> process_entries (depth + k) env sd dd ns sc = Some sc'"
proof (induction depth env sd dd sc and depth env sd dd ns sc
    arbitrary: sc' and sc' rule: process_directory_process_entries.induct)
  case (2 depth env sd dd sc)
  then show ?case by (cases "opendir env sd") simp_all
next
  case (4 depth env sd dd n ns sc)
  let ?act = "entry_action env sd dd n"
  show ?case
  proof (cases "\<exists>sp dp. ?act = MakeDir sp dp")
    case True
    then obtain sp dp where act: "?act = MakeDir sp dp" by blast
    with "4.prems" obtain sc1 where
      d: "process_directory depth env sp dp (record_action ?act sc) = Some sc1" and
      e: "process_entries depth env sd dd ns sc1 = Some sc'"
      by (auto simp: Let_def split: option.splits)
    from "4.IH"(3) [OF refl refl act d] "4.IH"(4) [OF refl refl act d e] act
    show ?thesis by simp
  next
    case False
    then have e: "process_entries depth env sd dd ns (record_action ?act sc) = Some sc'"
      using "4.prems" by (auto simp: Let_def split: action.splits)
    with "4.IH"(1,2,5,6) False show ?thesis by (cases ?act) auto
  qed
qed simp_all

text \<open>A source tree without an endless chain of directories.\<close>

inductive finite_tree :: "fs_env \<Rightarrow> string \<Rightarrow> string \<Rightarrow> bool" for env where
  "(\<And>names d_name src_path dst_path. opendir env sd = Some names \<Longrightarrow> d_name \<in> set names \<Longrightarrow>
      entry_action env sd dd d_name = MakeDir src_path dst_path \<Longrightarrow> finite_tree env src_path dst_path) \<Longrightarrow>
    finite_tree env sd dd"

lemma entries_return:
  assumes "\<And>n sp dp. n \<in> set ns \<Longrightarrow> entry_action env sd dd n = MakeDir sp dp \<Longrightarrow>
    \<exists>depth. \<forall>sc. process_directory depth env sp dp sc \<noteq> None"
  shows "\<exists>depth. \<forall>sc. process_entries depth env sd dd ns sc \<noteq> None"
  using assms
proof (induction ns)
  case (Cons n ns)
  then obtain d2 where d2: "\<forall>sc. process_entries d2 env sd dd ns sc \<noteq> None"
    by (meson list.set_intros(2))
  have rest: "process_entries (d2 + k) env sd dd ns sc \<noteq> None" for k sc
    using d2 process_directory_more(2) by blast
  show ?case
  proof (cases "entry_action env sd dd n")
    case (MakeDir sp dp)
    with Cons.prems [of n] obtain d1 where d1: "\<forall>sc. process_directory d1 env sp dp sc \<noteq> None" by auto
    have "process_directory (d2 + d1) env sp dp sc \<noteq> None" for sc
      using d1 process_directory_more(1) [of d1 env sp dp sc _ d2] by (metis add.commute not_None_eq)
    with rest [of d1] MakeDir show ?thesis
      by (intro exI [of _ "d2 + d1"]) (auto simp: Let_def split: option.splits)
  qed (use rest [of 0] in \<open>auto intro!: exI [of _ d2] simp: Let_def\<close>)
qed simp

lemma entries_returned:
  assumes "process_entries depth env sd dd ns sc = Some sc'" and "n \<in> set ns"
    and "entry_action env sd dd n = MakeDir sp dp"
  shows "\<exists>sc1 sc2. process_directory depth env sp dp sc1 = Some sc2"
  using assms
proof (induction ns arbitrary: sc)
  case (Cons m ns)
  show ?case
  proof (cases "entry_action env sd dd m")
    case (MakeDir sp' dp')
    with Cons.prems(1) obtain sc1 where "process_directory depth env sp' dp' (record_action (MakeDir sp' dp') sc) = Some sc1"
      "process_entries depth env sd dd ns sc1 = Some sc'"
      by (auto simp: Let_def split: option.splits)
    with Cons.IH [of sc1] Cons.prems(2,3) MakeDir show ?thesis
      by (cases "n = m"; simp del: record_action.simps; blast)
  qed (use Cons in \<open>auto simp: Let_def\<close>)
qed simp



text \<open>C7. The traversal returns exactly when the source tree has no endless chain of directories: then
  some depth of recursion is enough, whatever the counters were, and without it none is.
\<close>

theorem traversal_returns:
  "finite_tree env sd dd \<longleftrightarrow> (\<exists>depth. \<forall>sc. process_directory depth env sd dd sc \<noteq> None)"
proof
  assume "finite_tree env sd dd"
  then show "\<exists>depth. \<forall>sc. process_directory depth env sd dd sc \<noteq> None"
  proof (induction rule: finite_tree.induct)
    case (1 sd dd)
    show ?case
    proof (cases "opendir env sd")
      case None
      then show ?thesis by (intro exI [of _ "Suc 0"]) simp
    next
      case (Some names)
      with 1 entries_return [of names env sd dd] obtain d where
        "\<forall>sc. process_entries d env sd dd names sc \<noteq> None" by blast
      with Some show ?thesis by (intro exI [of _ "Suc d"]) simp
    qed
  qed
next
  assume "\<exists>depth. \<forall>sc. process_directory depth env sd dd sc \<noteq> None"
  then obtain depth sc sc' where "process_directory depth env sd dd sc = Some sc'" by fast
  then show "finite_tree env sd dd"
  proof (induction depth arbitrary: sd dd sc sc')
    case (Suc depth)
    show ?case
    proof (rule finite_tree.intros)
      fix names n sp dp
      assume "opendir env sd = Some names" "n \<in> set names" "entry_action env sd dd n = MakeDir sp dp"
      with Suc.prems obtain sc1 sc2 where "process_directory depth env sp dp sc1 = Some sc2"
        using entries_returned [of depth env sd dd names sc sc' n sp dp] by auto
      then show "finite_tree env sp dp" by (rule Suc.IH)
    qed
  qed simp
qed

text \<open>The 512-byte path buffers make the recursion endless: in a directory whose path has 511
  characters the path built for an entry is the path of the directory itself, so an entry that
  is neither \<open>.\<close> nor \<open>..\<close> sends \<open>process_directory\<close> into the same directory again, at every depth.\<close>

theorem deep_path_never_returns:
  assumes "511 \<le> length d" "length d \<le> 511" "opendir env d = Some (nm # names)" "lstat env d = Some S_DIR"
    and "nm \<noteq> ''.''" "nm \<noteq> ''..''"
  shows "process_directory depth env d dst sc = None"
proof (induction depth arbitrary: dst sc)
  case (Suc depth)
  have "join_path d nm = d" using assms(1,2) by (simp add: join_path_def c_snprintf_def)
  then have "entry_action env d dst nm = MakeDir d (join_path dst nm)"
    using assms by (simp add: entry_action_def Let_def)
  with Suc assms(3) show ?case by (simp add: Let_def)
qed simp

definition deep_env :: fs_env where
  "deep_env = demo_env\<lparr>opendir := (\<lambda>p. Some [''x'']), lstat := (\<lambda>p. Some S_DIR)\<rparr>"

theorem deep_path_never_returns_witness:
  "process_directory 1000 deep_env (replicate 511 CHR ''d'') ''o'' empty_scan = None"
  using deep_path_never_returns [of "replicate 511 CHR ''d''" deep_env "''x''" "[]" 1000 "''o''" empty_scan]
  by (simp add: deep_env_def)

subsection \<open>Properties of the threads\<close>



text \<open>C2. In every run that has ended, also after SIGINT, each file that was opened was either copied
  or given up, never both and never lost, a file is given up only after SIGINT, every descriptor
  has been closed and the buffer is empty.\<close>

theorem copy_conservation:
  assumes "reachable (started env n k src dst) (copy_step env n) s" "0 < k" "copy_final s"
  shows "mset (issued s) = mset (map fst (copied s)) + mset (dropped s) \<and>
    (stop s \<or> dropped s = []) \<and> dom (ofiles s) = {} \<and> queued n (fbuf s) = []"
proof -
  note inv = copy05.reachable_inv [OF assms(1)] and fin = final_all_left [OF assms(3)]
  from inv have "stop s \<or> dropped s = []" by (auto simp: copy_inv_def file_inv_def)
  with all_left_settled [OF inv assms(2) fin] show ?thesis by (simp add: queued_eq_Nil)
qed

theorem copy_conservation_witness:
  "\<exists>s. reachable (started demo_env 1 1 ''s'' ''d'') (copy_step demo_env 1) s \<and> copy_final s \<and>
     mset (issued s) = mset (map fst (copied s)) \<and> dom (ofiles s) = {} \<and> queued 1 (fbuf s) = []"
proof -
  obtain s where s: "reachable (started demo_env 1 1 ''s'' ''d'') (copy_step demo_env 1) s"
    "copy_final s" "\<not> stop s"
    by (rule demo_final)
  from copy_conservation [OF s(1) _ s(2)] s show ?thesis by auto
qed

text \<open>When no \<open>read\<close> fails and no \<open>write\<close> is short, every copied file has arrived byte for byte, and
  \<open>total_bytes_copied\<close> is the sum of their lengths (modulo the width of \<open>size_t\<close>).\<close>

theorem copy_bytes_intact:
  assumes "reachable (started env n k src dst) (copy_step env n) s" "copy_final s"
    and "\<And>p i. \<not> read_fails env p i" "\<And>p i m. write_result env p i m = int m"
  shows "(\<forall>((sp, dp, data), out) \<in> set (copied s). out = data) \<and>
    total_bytes_copied s = of_nat (sum_list (map (\<lambda>((sp, dp, data), out). length data) (copied s)))"
  using all_left_bytes [OF copy05.reachable_inv [OF assms(1)] final_all_left [OF assms(2)] assms(3,4)]
  by blast

theorem copy_bytes_intact_witness:
  "\<exists>s. reachable (started demo_env 1 1 ''s'' ''d'') (copy_step demo_env 1) s \<and> copy_final s \<and>
     total_bytes_copied s = of_nat (sum_list (map (\<lambda>((sp, dp, data), out). length data) (copied s)))"
proof -
  obtain s where s: "reachable (started demo_env 1 1 ''s'' ''d'') (copy_step demo_env 1) s"
    "copy_final s" "\<not> stop s"
    by (rule demo_final)
  from copy_bytes_intact [OF s(1,2)] s show ?thesis by (auto simp: demo_env_def)
qed

text \<open>C3. The threads never deadlock: in every reachable state in which the manager or a worker has not
  returned, some thread can take a step, although waiting threads move only when they are
  signalled (no spurious wakeup and no signal from outside is needed).\<close>

theorem copy_deadlock_free:
  assumes "reachable (started env n k src dst) (copy_step env n) s" "0 < k" "\<not> copy_final s"
  shows "\<exists>t. thread_step env n WExit s t"
proof (rule thread_progress [OF copy05.reachable_inv [OF assms(1)] assms(2)])
  show "\<not> all_left s"
    using no_barrier05.reachable_inv [OF assms(1)] all_left_final assms(3) by blast
qed

theorem copy_deadlock_free_witness:
  "\<exists>t. thread_step demo_env 1 WExit (copy_init demo_env 1 ''s'' ''d'') t"
  using copy_deadlock_free [OF demo_start] by (simp add: copy_final_def copy_init_def)

text \<open>C4. Both threads routines return: from every reachable state the number of steps the threads can
  still take is bounded, whatever the schedule, and some continuation ends with all threads
  returned (\<open>main\<close> passes its joins), provided the source tree is finite.\<close>

theorem copy_terminates:
  assumes "reachable (started env n k src dst) (copy_step env n) s" "0 < k"
    and "process_directory depth env src dst (start_scan dst) = Some sc"
  shows "(\<exists>bound. \<forall>m t. steps (thread_step env n WExit) m s t \<longrightarrow> m \<le> bound) \<and>
    (\<exists>m t. steps (thread_step env n WExit) m s t \<and> copy_final t)"
proof -
  have "m \<le> copy_work env k s" if "steps (thread_step env n WExit) m s t" for m t
    using copy_threads.steps_bound [OF that reachable_live_inv [OF assms]] by simp
  with reaches_copy_final [OF assms] show ?thesis by blast
qed

theorem copy_terminates_witness:
  "\<exists>m t. steps (thread_step demo_env 1 WExit) m (copy_init demo_env 1 ''s'' ''d'') t \<and> copy_final t"
  using copy_terminates [OF demo_start _ demo_traversal] by simp

text \<open>No thread ever accesses a slot beyond the array, and the buffer never holds more than
  \<open>buffer_size\<close> entries, in every reachable state (buffer size at most \<open>MAX_BUFFER_SIZE\<close>).\<close>

theorem copy_buffer_bounded:
  assumes "reachable (started env n k src dst) (copy_step env n) s"
  shows "\<not> faulted s \<and> b_count (fbuf s) \<le> n \<and> b_in (fbuf s) < n \<and> b_out (fbuf s) < n"
  using copy05.reachable_inv [OF assms]
  by (auto simp: copy_inv_def control_inv_def buffer_wf_def)

theorem copy_buffer_bounded_witness:
  "b_count (fbuf (copy_init demo_env 1 ''s'' ''d'')) \<le> 1"
  using copy_buffer_bounded [OF demo_start] by blast

end
