(* ===== verification/Copy_Barrier.thy ===== *)
theory Copy_Barrier
  imports Copy_Properties
begin

text \<open>
  The enhanced copying utility (sys06): the manager, the buffer and the loop of the workers are
  those of sys05, and a worker that leaves its loop waits at \<open>pthread_barrier_wait\<close> until
  \<open>num_workers\<close> workers wait there. The barrier machine is a refinement of the machine of sys05.
\<close>

subsection \<open>The barrier\<close>

text \<open>The barrier lets all of them go at once when \<open>num_workers\<close> threads wait.\<close>

definition pass_barrier :: "worker_pc \<Rightarrow> worker_pc" where
  "pass_barrier w = (if w = WBarrier then WExit else w)"

definition barrier_open :: "copy_state \<Rightarrow> copy_state" where
  "barrier_open s = s\<lparr>workers := map pass_barrier (workers s)\<rparr>"

definition barrier_step :: "fs_env \<Rightarrow> nat \<Rightarrow> nat \<Rightarrow> copy_state \<Rightarrow> copy_state \<Rightarrow> bool" where
  "barrier_step env buffer_size num_workers s t =
     (thread_step env buffer_size WBarrier s t \<or> outside_step s t \<or>
      (count_if (\<lambda>w. w = WBarrier) (workers s) = num_workers \<and> t = barrier_open s))"

text \<open>
  \<open>main\<close> of sys06: the arguments of sys05, the initial state and the number the barrier is
  initialised with.
\<close>

definition barrier_main :: "fs_env \<Rightarrow> string list \<Rightarrow> (nat \<times> nat \<times> copy_state) option" where
  "barrier_main env argv =
     (case copy_args argv of
        None \<Rightarrow> None
      | Some (buffer_size, num_workers, src_dir, dst_dir) \<Rightarrow>
          Some (buffer_size, num_workers, copy_init env num_workers src_dir dst_dir))"

subsection \<open>Invariant\<close>

definition barrier_inv :: "fs_env \<Rightarrow> nat \<Rightarrow> nat \<Rightarrow> string \<Rightarrow> string \<Rightarrow> copy_state \<Rightarrow> bool" where
  "barrier_inv env n k src dst s =
     (copy_inv env n k src dst s \<and> (WExit \<in> set (workers s) \<longrightarrow> set (workers s) \<subseteq> {WExit}))"

lemma all_exited_step:
  "thread_step env n leave s t \<Longrightarrow> set (workers s) \<subseteq> {WExit} \<Longrightarrow> workers t = workers s"
proof (induction rule: thread_step.induct)
  case (scan s sfd dfd)
  have "map (\<lambda>w. if w = WWait then WHead else w) (workers s) = workers s"
    by (rule map_idI) (use scan.prems in auto)
  then show ?case by (cases env sfd dfd s rule: manager_scan_cases) (simp_all add: wake_all_def)
next
  case (put s fi ws)
  have "ws = workers s"
    using put.hyps(3) by (cases rule: wake_choices_cases) (use put.prems in \<open>auto dest: nth_mem\<close>)
  then show ?case by (simp add: manager_put_def split: option.splits)
qed (auto dest: nth_mem)

lemma all_exited_outside:
  "outside_step s t \<Longrightarrow> set (workers s) \<subseteq> {WExit} \<Longrightarrow> workers t = workers s"
  by (induction rule: outside_step.induct) (auto simp: handle_signal_def dest: nth_mem)

lemma barrier_step_exits:
  assumes "barrier_inv env n k src dst s" "thread_step env n WBarrier s t \<or> outside_step s t"
  shows "WExit \<in> set (workers t) \<longrightarrow> set (workers t) \<subseteq> {WExit}"
proof (cases "WExit \<in> set (workers s)")
  case True
  with assms all_exited_step all_exited_outside show ?thesis
    unfolding barrier_inv_def by metis
next
  case False
  with assms(2) have "WExit \<notin> set (workers t)"
    using other_exit_step [of env n WBarrier s t WExit] other_exit_outside [of s t WExit] by auto
  then show ?thesis by simp
qed

text \<open>When the barrier opens, every worker is waiting at it.\<close>

lemma barrier_all_waiting:
  assumes "length (workers s) = k" "count_if (\<lambda>w. w = WBarrier) (workers s) = k"
  shows "set (workers s) \<subseteq> {WBarrier}" "set (workers (barrier_open s)) \<subseteq> {WExit}"
proof -
  from assms have "\<forall>w \<in> set (workers s). w = WBarrier" by (simp flip: count_if_eq_length)
  then show "set (workers s) \<subseteq> {WBarrier}" "set (workers (barrier_open s)) \<subseteq> {WExit}"
    by (auto simp: barrier_open_def pass_barrier_def)
qed

lemma pass_barrier_simps [simp]:
  "awake (pass_barrier w) = awake w" "left_loop (pass_barrier w) = left_loop w"
  "worker_item (pass_barrier w) = worker_item w" "is_account (pass_barrier w) = is_account w"
  "pending_bytes (pass_barrier w) = pending_bytes w"
  "pass_barrier w = WWait \<longleftrightarrow> w = WWait" "WWait = pass_barrier w \<longleftrightarrow> w = WWait"
  by (cases w; simp add: pass_barrier_def)+

text \<open>The invariants do not tell a worker that has passed the barrier from one that waits there.\<close>

lemma barrier_open_inv:
  assumes "copy_inv env n k src dst s"
  shows "copy_inv env n k src dst (barrier_open s)"
proof -
  have "WWait \<in> pass_barrier ` W \<longleftrightarrow> WWait \<in> W" for W by (auto simp: image_iff)
  then have "control_inv n (barrier_open s) = control_inv n s"
    by (simp add: control_inv_def barrier_open_def count_if_map)
  moreover have "tally_inv env (barrier_open s)"
    "live_items n (barrier_open s) = live_items n s" "scan_of (barrier_open s) = scan_of s"
    using assms by (simp_all add: copy_inv_def tally_inv_def live_items_def
        scan_of_def barrier_open_def count_if_map gather_map comp_def)
  ultimately show ?thesis using assms
    by (simp add: copy_inv_def fd_inv_def file_inv_def scan_inv_def) (simp add: barrier_open_def)
qed

lemma barrier_inv_step:
  assumes "barrier_inv env n k src dst s" "barrier_step env n k s t"
  shows "barrier_inv env n k src dst t"
proof (cases "thread_step env n WBarrier s t \<or> outside_step s t")
  case True
  with assms(1) have "copy_inv env n k src dst t"
    by (auto simp: barrier_inv_def intro: thread_step_inv outside_step_inv)
  with barrier_step_exits [OF assms(1) True] show ?thesis by (simp add: barrier_inv_def)
next
  case False
  with assms(2) have t: "count_if (\<lambda>w. w = WBarrier) (workers s) = k" "t = barrier_open s"
    by (auto simp: barrier_step_def)
  moreover from assms(1) have "copy_inv env n k src dst s" "length (workers s) = k"
    by (auto simp: barrier_inv_def copy_inv_def)
  ultimately show ?thesis using barrier_open_inv barrier_all_waiting [of s k]
    by (simp add: barrier_inv_def)
qed

interpretation copy06: inductive_invariant "started env n k src dst" "barrier_step env n k"
    "barrier_inv env n k src dst"
  for env n k src dst
proof unfold_locales
  fix s assume "started env n k src dst s"
  then show "barrier_inv env n k src dst s"
    using started_inv by (auto simp: barrier_inv_def started_def copy_init_def)
qed (rule barrier_inv_step)

subsection \<open>Refinement of the machine without the barrier\<close>

lemma wake_choices_pass: "wake_choices (map pass_barrier ws) = map (map pass_barrier) (wake_choices ws)"
proof -
  have "filter (\<lambda>k. map pass_barrier ws ! k = WWait) [0..<length ws] =
      filter (\<lambda>k. ws ! k = WWait) [0..<length ws]"
    by (rule filter_cong) auto
  moreover have "pass_barrier WHead = WHead" by (simp add: pass_barrier_def)
  ultimately show ?thesis by (simp add: wake_choices_def Let_def map_update comp_def)
qed

lemma wake_all_pass: "wake_all (map pass_barrier ws) = map pass_barrier (wake_all ws)"
  by (simp add: wake_all_def comp_def pass_barrier_def)

lemma barrier_open_scan:
  "manager_scan env sfd dfd (barrier_open s) = barrier_open (manager_scan env sfd dfd s)"
proof -
  have "manager_action env sfd dfd act (barrier_open u) = barrier_open (manager_action env sfd dfd act u)"
    for act u by (cases act) (simp_all add: barrier_open_def)
  moreover have "barrier_open u\<lparr>frames := fs\<rparr> = barrier_open (u\<lparr>frames := fs\<rparr>)" for u fs
    by (simp add: barrier_open_def)
  moreover have "frames (barrier_open s) = frames s" "stop (barrier_open s) = stop s"
    by (simp_all add: barrier_open_def)
  ultimately show ?thesis
    by (simp add: manager_scan_def split: list.split) (simp add: barrier_open_def wake_all_pass)
qed

lemma barrier_open_put:
  "manager_put n fi (map pass_barrier ws) (barrier_open s) = barrier_open (manager_put n fi ws s)"
  by (simp add: manager_put_def barrier_open_def split: option.split)

lemma barrier_open_lock:
  "worker_lock n WExit i (barrier_open s) = barrier_open (worker_lock n WBarrier i s)"
  by (simp add: worker_lock_def barrier_open_def Let_def map_update pass_barrier_def split: option.split)

lemma barrier_open_copy:
  "worker_copy env fi i (barrier_open s) = barrier_open (worker_copy env fi i s)"
  by (simp add: worker_copy_def barrier_open_def Let_def map_update pass_barrier_def split: option.split)

lemma barrier_open_account:
  "worker_account m i (barrier_open s) = barrier_open (worker_account m i s)"
  by (simp add: worker_account_def barrier_open_def map_update pass_barrier_def)

lemma barrier_open_thread:
  "thread_step env n WBarrier s t \<Longrightarrow> thread_step env n WExit (barrier_open s) (barrier_open t)"
proof (induction rule: thread_step.induct)
  case (scan s sfd dfd)
  then show ?case
    unfolding barrier_open_scan [symmetric] by (intro thread_step.scan) (simp_all add: barrier_open_def)
next
  case (put s fi ws)
  then show ?case
    unfolding barrier_open_put [symmetric]
    by (intro thread_step.put) (auto simp: barrier_open_def wake_choices_pass)
next
  case (lock s i)
  then show ?case
    unfolding barrier_open_lock [symmetric]
    by (intro thread_step.lock) (simp_all add: barrier_open_def pass_barrier_def)
next
  case (copy s i fi)
  then show ?case
    unfolding barrier_open_copy [symmetric]
    by (intro thread_step.copy) (simp_all add: barrier_open_def pass_barrier_def)
next
  case (account s i m)
  then show ?case
    unfolding barrier_open_account [symmetric]
    by (intro thread_step.account) (simp_all add: barrier_open_def pass_barrier_def)
qed

lemma barrier_open_outside:
  "outside_step s t \<Longrightarrow> outside_step (barrier_open s) (barrier_open t)"
proof (induction rule: outside_step.induct)
  case (sigint s)
  have "barrier_open (handle_signal s) = handle_signal (barrier_open s)"
    by (simp add: barrier_open_def handle_signal_def)
  then show ?case by (simp add: outside_step.sigint)
next
  case (spurious_worker i s)
  let ?u = "barrier_open s"
  have "barrier_open (s\<lparr>workers := (workers s)[i := WHead]\<rparr>) = ?u\<lparr>workers := (workers ?u)[i := WHead]\<rparr>"
    by (simp add: barrier_open_def map_update pass_barrier_def)
  moreover have "i < length (workers ?u)" "workers ?u ! i = WWait"
    using spurious_worker by (simp_all add: barrier_open_def)
  ultimately show ?case by (simp only: outside_step.spurious_worker)
next
  case (spurious_manager s fi)
  have "barrier_open (s\<lparr>manager := MPut fi\<rparr>) = barrier_open s\<lparr>manager := MPut fi\<rparr>"
    by (simp add: barrier_open_def)
  moreover have "manager (barrier_open s) = MPutWait fi"
    using spurious_manager by (simp add: barrier_open_def)
  ultimately show ?case by (simp only: outside_step.spurious_manager)
qed

lemma barrier_open_started: "started env n k src dst s \<Longrightarrow> started env n k src dst (barrier_open s)"
  by (auto simp: started_def copy_init_def barrier_open_def pass_barrier_def)

lemma barrier_open_idem: "barrier_open (barrier_open s) = barrier_open s"
  by (simp add: barrier_open_def pass_barrier_def comp_def)

interpretation copy06_05: simulation "started env n k src dst" "barrier_step env n k"
    "barrier_inv env n k src dst" "started env n k src dst" "copy_step env n" barrier_open
  for env n k src dst
proof unfold_locales
  fix s t assume "barrier_step env n k s t"
  then show "barrier_open t = barrier_open s \<or> copy_step env n (barrier_open s) (barrier_open t)"
    using barrier_open_thread barrier_open_outside barrier_open_idem
    unfolding barrier_step_def copy_step_def by metis
qed (rule barrier_open_started)

subsection \<open>Liveness\<close>

lemma barrier_thread_steps:
  "steps (thread_step env n WBarrier) m s t \<Longrightarrow> steps (barrier_step env n k) m s t"
proof (induction rule: steps.induct)
  case (steps_Suc s t m u)
  then show ?case by (intro steps.steps_Suc [of _ s t]) (simp_all add: barrier_step_def)
qed simp

lemma barrier_end:
  assumes inv: "barrier_inv env n k src dst s" and fin: "all_left s"
  shows "\<exists>m t. steps (barrier_step env n k) m s t \<and> copy_final t"
proof (cases "WExit \<in> set (workers s)")
  case True
  with inv fin have "copy_final s" by (auto simp: barrier_inv_def all_left_def copy_final_def)
  then show ?thesis by (blast intro: steps_0)
next
  case False
  with fin have "\<forall>w \<in> set (workers s). w = WBarrier"
    by (auto simp: all_left_def left_loop_def)
  moreover from inv have "length (workers s) = k" by (simp add: barrier_inv_def copy_inv_def)
  ultimately have "count_if (\<lambda>w. w = WBarrier) (workers s) = k"
    using count_if_eq_length [of "\<lambda>w. w = WBarrier" "workers s"] by simp
  then have "steps (barrier_step env n k) (Suc 0) s (barrier_open s)"
    by (simp add: steps_Suc_iff barrier_step_def)
  moreover have "copy_final (barrier_open s)"
    using fin False
    by (auto simp: copy_final_def barrier_open_def all_left_def left_loop_def pass_barrier_def)
  ultimately show ?thesis by blast
qed

lemma barrier_reaches_final:
  assumes "reachable (started env n k src dst) (barrier_step env n k) s" "0 < k"
    and "process_directory depth env src dst (start_scan dst) = Some sc"
  shows "\<exists>m t. steps (barrier_step env n k) m s t \<and> copy_final t"
proof -
  have inv: "barrier_inv env n k src dst s" by (rule copy06.reachable_inv [OF assms(1)])
  with assms(2,3) have "live_inv env n k src dst WBarrier s"
    by (auto simp: live_inv_def barrier_inv_def traversal_ends_def)
  from copy_threads.reaches_final [OF this] obtain m t
    where t: "steps (thread_step env n WBarrier) m s t" "all_left t" by blast
  then have run: "steps (barrier_step env n k) m s t" by (simp add: barrier_thread_steps)
  from copy06.steps_inv [OF this inv] have "barrier_inv env n k src dst t" .
  from barrier_end [OF this t(2)] run show ?thesis by (blast intro: steps_trans)
qed

lemma demo_barrier_start:
  "reachable (started demo_env 1 1 ''s'' ''d'') (barrier_step demo_env 1 1) (copy_init demo_env 1 ''s'' ''d'')"
  by (rule reachable.reach_init) (simp add: started_def MAX_BUFFER_SIZE_def)

lemma demo_barrier_final:
  obtains s where "reachable (started demo_env 1 1 ''s'' ''d'') (barrier_step demo_env 1 1) s"
    "WExit \<in> set (workers s)"
proof -
  from barrier_reaches_final [OF demo_barrier_start _ demo_traversal] obtain m t where
    t: "steps (barrier_step demo_env 1 1) m (copy_init demo_env 1 ''s'' ''d'') t" "copy_final t"
    by auto
  then have r: "reachable (started demo_env 1 1 ''s'' ''d'') (barrier_step demo_env 1 1) t"
    by (intro reachable_steps [OF _ demo_barrier_start])
  then have "length (workers t) = 1"
    using copy06.reachable_inv by (fastforce simp: barrier_inv_def copy_inv_def)
  with t(2) have "WExit \<in> set (workers t)"
    by (cases "workers t") (auto simp: copy_final_def)
  with r that show ?thesis by blast
qed

subsection \<open>Properties\<close>

text \<open>The barrier: once one worker of sys06 has passed it, every worker has, the buffer is empty,
  \<open>done\<close> or \<open>stop\<close> is set, and every file that was handed over has been copied and counted.\<close>

theorem barrier_gate:
  assumes "reachable (started env n k src dst) (barrier_step env n k) s" "WExit \<in> set (workers s)"
  shows "(\<forall>w \<in> set (workers s). w = WExit) \<and> queued n (fbuf s) = [] \<and>
    (b_done (fbuf s) \<or> stop s) \<and> files_copied s = length (copied s)"
proof -
  have inv: "barrier_inv env n k src dst s" by (rule copy06.reachable_inv [OF assms(1)])
  then have all: "\<forall>w \<in> set (workers s). w = WExit" using assms(2) by (auto simp: barrier_inv_def)
  then have "\<exists>w \<in> set (workers s). left_loop w" "count_if is_account (workers s) = 0"
    using assms(2) by (blast intro: left_loop_simps, use all in \<open>auto simp: count_if_eq_0\<close>)
  with inv have "b_done (fbuf s) \<or> stop s" "b_count (fbuf s) = 0" "files_copied s = length (copied s)"
    unfolding barrier_inv_def copy_inv_def control_inv_def tally_inv_def by auto
  with all show ?thesis by (simp add: queued_eq_Nil)
qed

theorem barrier_gate_witness:
  "\<exists>s :: copy_state. WExit \<in> set (workers s) \<and> (\<forall>w \<in> set (workers s). w = WExit) \<and> queued 1 (fbuf s) = []"
proof -
  obtain s where s: "reachable (started demo_env 1 1 ''s'' ''d'') (barrier_step demo_env 1 1) s"
    "WExit \<in> set (workers s)"
    by (rule demo_barrier_final)
  then have "(\<forall>w \<in> set (workers s). w = WExit) \<and> queued 1 (fbuf s) = []"
    using barrier_gate [OF s] by simp
  with s(2) show ?thesis by blast
qed

text \<open>C8. The utility of sys06 refines that of sys05: seen without the barrier, every state it can
  reach is one the program of sys05 can reach, so that everything shown there holds here.\<close>

theorem barrier_refines:
  assumes "reachable (started env n k src dst) (barrier_step env n k) s"
  shows "reachable (started env n k src dst) (copy_step env n) (barrier_open s)"
  using assms by (rule copy06_05.reachable_abst)

theorem barrier_refines_witness:
  "reachable (started demo_env 1 1 ''s'' ''d'') (copy_step demo_env 1)
     (barrier_open (copy_init demo_env 1 ''s'' ''d''))"
  by (rule barrier_refines [OF demo_barrier_start])

text \<open>The barrier is no deadlock: from every reachable state of sys06 the threads can go on until
  the manager and all workers have returned (buffer size within the array, finite source tree).\<close>

theorem barrier_terminates:
  assumes "reachable (started env n k src dst) (barrier_step env n k) s" "0 < k"
    and "process_directory depth env src dst (start_scan dst) = Some sc"
  shows "\<exists>m t. steps (barrier_step env n k) m s t \<and> copy_final t"
  using assms by (rule barrier_reaches_final)

theorem barrier_terminates_witness:
  "\<exists>m t. steps (barrier_step demo_env 1 1) m (copy_init demo_env 1 ''s'' ''d'') t \<and> copy_final t"
  using barrier_terminates [OF demo_barrier_start _ demo_traversal] by simp

end
