(* ===== verification/Fat12.thy ===== *)
theory Fat12
  imports Complex_Main C_Library
begin

text \<open>
  The file system image of os02: the structures of \<open>FAT12.h\<close>, \<open>makeFileSystem\<close> and the operations
  of \<open>fileSystemOper\<close>. A \<open>DirectoryEntry\<close> is 32 bytes, so a block of 512 bytes is 16 entries and
  the data region (8192 structures \<open>Block\<close> of 16 bytes) is a sequence of 4096 entries: the code
  reaches the region only through \<open>(DirectoryEntry *)((char *)fs->data + b * 512)\<close>, which is
  entry \<open>16 * b\<close> of that sequence. An access beyond the region is \<open>None\<close>.
\<close>

unbundle bit_operations_syntax

subsection \<open>Structures\<close>

definition BYTES_PER_SECTOR :: nat where "BYTES_PER_SECTOR = 512"
definition ROOT_ENTRIES :: nat where "ROOT_ENTRIES = 224"
definition MAX_FILENAME :: nat where "MAX_FILENAME = 8"
definition MAX_EXTENSION :: nat where "MAX_EXTENSION = 3"
definition NUMBER_OF_BLOCKS :: nat where "NUMBER_OF_BLOCKS = 4 * 1024 * 1024 div BYTES_PER_SECTOR"

record DirectoryEntry =
  filename :: string
  extension :: string
  file_size :: bytes
  password :: string
  first_block_number :: bytes
  last_modified_date :: bytes
  last_modified_time :: bytes
  creation_date :: bytes
  creation_time :: bytes
  file_attributes :: bytes
  file_type :: bytes

definition ENTRY_BYTES :: nat where "ENTRY_BYTES = 32"

record SuperBlock =
  block_size :: int
  number_of_blocks :: nat
  root_dir_pos :: nat
  fat_pos :: nat
  data_pos :: nat

record FileSystem =
  super_block :: SuperBlock
  fat :: "u16 list"
  root_dir :: "DirectoryEntry list"
  fs_data :: "DirectoryEntry list"

definition zero_entry :: DirectoryEntry where
  "zero_entry =
     \<lparr>filename = replicate 8 (CHR 0x00), extension = replicate 3 (CHR 0x00),
      file_size = replicate 4 0, password = replicate 5 (CHR 0x00),
      first_block_number = replicate 2 0, last_modified_date = replicate 2 0,
      last_modified_time = replicate 2 0, creation_date = replicate 2 0,
      creation_time = replicate 2 0, file_attributes = replicate 1 0, file_type = replicate 1 0\<rparr>"

subsection \<open>makeFileSystem\<close>

definition initialize_file_system :: "int \<Rightarrow> FileSystem" where
  "initialize_file_system bs =
     (let fat_start = 0 + (ROOT_ENTRIES * ENTRY_BYTES) div BYTES_PER_SECTOR in
      \<lparr>super_block =
         \<lparr>block_size = bs, number_of_blocks = NUMBER_OF_BLOCKS, root_dir_pos = 0,
          fat_pos = fat_start, data_pos = fat_start + (NUMBER_OF_BLOCKS * 2) div BYTES_PER_SECTOR\<rparr>,
       fat = replicate NUMBER_OF_BLOCKS 0,
       root_dir = replicate ROOT_ENTRIES zero_entry,
       fs_data = replicate (NUMBER_OF_BLOCKS * 16 div ENTRY_BYTES) zero_entry\<rparr>)"

text \<open>
  The size of the file \<open>write_file_system_to_file\<close> leaves: \<open>sizeof(FileSystem)\<close> is 20 bytes of
  super block, the FAT, the root directory, 4 bytes of padding and the 8192 blocks. \<open>None\<close> is the
  exit on an invalid block size.
\<close>

definition sizeof_FileSystem :: nat where
  "sizeof_FileSystem = 20 + 2 * NUMBER_OF_BLOCKS + ROOT_ENTRIES * ENTRY_BYTES + 4 + 16 * NUMBER_OF_BLOCKS"

definition image_size :: "int \<Rightarrow> nat option" where
  "image_size block_size_bytes =
     (if block_size_bytes = 512 then Some (max sizeof_FileSystem (2 * 1024 * 1024))
      else if block_size_bytes = 1024 then Some (max sizeof_FileSystem (4 * 1024 * 1024))
      else None)"

text \<open>\<open>main\<close>: \<open>kb\<close> is the value of \<open>atof\<close> on the first argument.\<close>

definition make_file_system :: "rat \<Rightarrow> (FileSystem \<times> nat option) option" where
  "make_file_system kb =
     (if kb \<noteq> 1/2 \<and> kb \<noteq> 1 then None
      else let bs = \<lfloor>kb * 1024\<rfloor> in Some (initialize_file_system bs, image_size bs))"

subsection \<open>Directories as pointers\<close>

datatype dir_ptr = RootDir | DataBlock nat

fun entry_at :: "FileSystem \<Rightarrow> dir_ptr \<Rightarrow> nat \<Rightarrow> DirectoryEntry option" where
  "entry_at fs RootDir i = (if i < length (root_dir fs) then Some (root_dir fs ! i) else None)"
| "entry_at fs (DataBlock b) i =
     (if 16 * b + i < length (fs_data fs) then Some (fs_data fs ! (16 * b + i)) else None)"

fun set_entry :: "dir_ptr \<Rightarrow> nat \<Rightarrow> DirectoryEntry \<Rightarrow> FileSystem \<Rightarrow> FileSystem" where
  "set_entry RootDir i e fs = fs\<lparr>root_dir := (root_dir fs)[i := e]\<rparr>"
| "set_entry (DataBlock b) i e fs = fs\<lparr>fs_data := (fs_data fs)[16 * b + i := e]\<rparr>"

text \<open>
  What a reader of a C string at \<open>filename\<close> (or \<open>extension\<close>) sees: the array may fill up, and the
  string then goes on in the fields behind it.
\<close>

definition byte_char :: "byte \<Rightarrow> char" where
  "byte_char b = char_of (unat b)"

definition extension_text :: "DirectoryEntry \<Rightarrow> string" where
  "extension_text e =
     c_str (extension e @ map byte_char (file_size e) @ password e @
       map byte_char (first_block_number e @ last_modified_date e @ last_modified_time e @
         creation_date e @ creation_time e @ file_attributes e @ file_type e))"

definition filename_text :: "DirectoryEntry \<Rightarrow> string" where
  "filename_text e =
     (if CHR 0x00 \<in> set (filename e) then c_str (filename e) else filename e @ extension_text e)"

definition is_used :: "DirectoryEntry \<Rightarrow> bool" where
  "is_used e = (filename e ! 0 \<noteq> CHR 0x00)"

definition is_dir :: "DirectoryEntry \<Rightarrow> bool" where
  "is_dir e = (file_attributes e ! 0 = 0x10)"

definition first_block :: "DirectoryEntry \<Rightarrow> nat" where
  "first_block e = unat (first_block_number e ! 0)"

text \<open>
  The loops over the entries of a directory: the first index from \<open>i\<close> on, within \<open>n\<close> entries,
  that satisfies a condition; \<open>None\<close> when the loop runs out of the region.
\<close>

fun first_entry ::
  "FileSystem \<Rightarrow> dir_ptr \<Rightarrow> (DirectoryEntry \<Rightarrow> bool) \<Rightarrow> nat \<Rightarrow> nat \<Rightarrow> nat option option" where
  "first_entry fs d P i 0 = Some None"
| "first_entry fs d P i (Suc n) =
     (case entry_at fs d i of
        None \<Rightarrow> None
      | Some e \<Rightarrow> if P e then Some (Some i) else first_entry fs d P (Suc i) n)"

subsection \<open>find_directory\<close>

definition backslash :: string where
  "backslash = [CHR 0x5C]"

datatype lookup = Fault | Missing | Found dir_ptr

function walk_path :: "FileSystem \<Rightarrow> dir_ptr \<Rightarrow> string \<Rightarrow> lookup" where
  "walk_path fs current_dir s =
     (case c_strtok backslash s of
        (None, r) \<Rightarrow> Found current_dir
      | (Some token, r) \<Rightarrow>
          (case first_entry fs current_dir
                  (\<lambda>e. c_strcmp (filename_text e) token = 0 \<and> is_dir e) 0 ROOT_ENTRIES of
             None \<Rightarrow> Fault
           | Some None \<Rightarrow> Missing
           | Some (Some i) \<Rightarrow>
               (case entry_at fs current_dir i of
                  None \<Rightarrow> Fault
                | Some e \<Rightarrow> walk_path fs (DataBlock (first_block e)) r)))"
  by pat_completeness auto

lemma c_strtok_shorter: "c_strtok d s = (Some t, r) \<Longrightarrow> length r < length s"
proof -
  assume *: "c_strtok d s = (Some t, r)"
  let ?s = "dropWhile (\<lambda>c. c \<in> set d) s"
  from * have ne: "?s \<noteq> []" and r: "r = drop 1 (dropWhile (\<lambda>c. c \<notin> set d) ?s)"
    by (auto simp: c_strtok_def Let_def split: if_splits)
  from hd_dropWhile [OF ne] have hd: "hd ?s \<notin> set d" by simp
  then have "dropWhile (\<lambda>c. c \<notin> set d) ?s = dropWhile (\<lambda>c. c \<notin> set d) (tl ?s)"
    using ne by (cases ?s) auto
  then have "length r \<le> length (tl ?s)"
    using r length_dropWhile_le [of "\<lambda>c. c \<notin> set d" "tl ?s"] by simp
  then show ?thesis using ne length_dropWhile_le [of "\<lambda>c. c \<in> set d" s] by (cases ?s) auto
qed

termination walk_path
  by (relation "measure (\<lambda>(fs, d, s). length s)") (auto dest: c_strtok_shorter [OF sym])

declare walk_path.simps [simp del]

definition find_directory :: "FileSystem \<Rightarrow> string \<Rightarrow> lookup" where
  "find_directory fs path =
     (if c_strcmp path backslash = 0 then Found RootDir else walk_path fs RootDir path)"

subsection \<open>create_directory\<close>

record tm =
  tm_year :: int
  tm_mon :: int
  tm_mday :: int
  tm_hour :: int
  tm_min :: int
  tm_sec :: int

definition encode_date :: "tm \<Rightarrow> bytes" where
  "encode_date t =
     (let year = tm_year t + 1900 - 1980; month = tm_mon t + 1; day = tm_mday t in
      [word_of_int ((day AND 0x1F) OR push_bit 5 (month AND 0x07)),
       word_of_int (drop_bit 3 (month AND 0x08) OR push_bit 1 (year AND 0x7F))])"

definition encode_time :: "tm \<Rightarrow> bytes" where
  "encode_time t =
     (let hour = tm_hour t; minute = tm_min t; second = tm_sec t div 2 in
      [word_of_int ((second AND 0x1F) OR push_bit 5 (minute AND 0x07)),
       word_of_int (drop_bit 3 (minute AND 0x38) OR push_bit 3 (hour AND 0x1F))])"

text \<open>The loop over the FAT: the first free block.\<close>

definition free_block :: "u16 list \<Rightarrow> nat option" where
  "free_block table = find (\<lambda>i. table ! i = 0x000) [0..<NUMBER_OF_BLOCKS]"

definition mark_block :: "FileSystem \<Rightarrow> DirectoryEntry \<Rightarrow> FileSystem \<times> DirectoryEntry" where
  "mark_block fs e =
     (case free_block (fat fs) of
        None \<Rightarrow> (fs, e)
      | Some i \<Rightarrow> (fs\<lparr>fat := (fat fs)[i := 0xFFF]\<rparr>,
                    e\<lparr>first_block_number := (first_block_number e)[0 := of_nat i]\<rparr>))"

datatype message =
    ParentNotFound string
  | Created string string
  | NoSpace string
  | Removed string string
  | NotEmpty string string
  | NotFound string string
  | DirNotFound string

text \<open>\<open>None\<close> is an access outside the image.\<close>

definition create_directory ::
  "tm \<Rightarrow> string \<Rightarrow> string \<Rightarrow> FileSystem \<Rightarrow> (FileSystem \<times> message) option" where
  "create_directory now path dirname fs =
     (case (if c_strcmp path backslash = 0 then Found RootDir else find_directory fs path) of
        Fault \<Rightarrow> None
      | Missing \<Rightarrow> Some (fs, ParentNotFound path)
      | Found parent_dir \<Rightarrow>
          (case first_entry fs parent_dir (\<lambda>e. \<not> is_used e) 0 ROOT_ENTRIES of
             None \<Rightarrow> None
           | Some None \<Rightarrow> Some (fs, NoSpace path)
           | Some (Some i) \<Rightarrow>
               (case entry_at fs parent_dir i of
                  None \<Rightarrow> None
                | Some e \<Rightarrow>
                    let e1 = e\<lparr>filename := c_strncpy MAX_FILENAME dirname,
                               file_attributes := (file_attributes e)[0 := 0x10],
                               file_type := (file_type e)[0 := 0x01]\<rparr>;
                        (fs1, e2) = mark_block fs e1;
                        e3 = e2\<lparr>creation_date := encode_date now, creation_time := encode_time now\<rparr>
                    in Some (set_entry parent_dir i e3 fs1, Created path dirname))))"

subsection \<open>remove_directory\<close>

text \<open>
  \<open>target_dir - fs->root_dir\<close>. Within the root directory it is the index; for an entry of the
  data region, which begins 4 bytes of padding behind the root directory, it is the difference of
  the addresses divided by the size of an entry.
\<close>

fun root_distance :: "dir_ptr \<Rightarrow> nat \<Rightarrow> nat" where
  "root_distance RootDir i = i"
| "root_distance (DataBlock b) i = ROOT_ENTRIES + (16 * b + i)"

definition blocks_removal :: "FileSystem \<Rightarrow> dir_ptr \<Rightarrow> nat \<Rightarrow> nat \<Rightarrow> bool" where
  "blocks_removal fs d i j =
     (let e = root_dir fs ! j in
      is_used e \<and> \<not> (d = RootDir \<and> j = i) \<and> first_block e = root_distance d i)"

definition remove_directory ::
  "string \<Rightarrow> string \<Rightarrow> FileSystem \<Rightarrow> (FileSystem \<times> message) option" where
  "remove_directory path dirname fs =
     (case find_directory fs path of
        Fault \<Rightarrow> None
      | Missing \<Rightarrow> Some (fs, ParentNotFound path)
      | Found parent_dir \<Rightarrow>
          (case first_entry fs parent_dir
                  (\<lambda>e. c_strncmp (c_str (filename e)) dirname MAX_FILENAME = 0 \<and> is_dir e)
                  0 ROOT_ENTRIES of
             None \<Rightarrow> None
           | Some None \<Rightarrow> Some (fs, NotFound path dirname)
           | Some (Some i) \<Rightarrow>
               if list_ex (blocks_removal fs parent_dir i) [0..<ROOT_ENTRIES]
               then Some (fs, NotEmpty path dirname)
               else Some (set_entry parent_dir i zero_entry fs, Removed path dirname)))"

subsection \<open>list_directory and dump_file_system_info\<close>

definition pad_int :: "nat \<Rightarrow> int \<Rightarrow> string" where
  "pad_int w n = (let ds = c_show_int n in replicate (w - length ds) CHR ''0'' @ ds)"

definition decode_date :: "bytes \<Rightarrow> int \<times> int \<times> int" where
  "decode_date date =
     (let d0 = uint (date ! 0); d1 = uint (date ! 1) in
      ((drop_bit 1 d1 AND 0x7F) + 1980,
       push_bit 3 (d1 AND 0x01) OR (drop_bit 5 d0 AND 0x07),
       d0 AND 0x1F))"

definition decode_time :: "bytes \<Rightarrow> int \<times> int \<times> int" where
  "decode_time time =
     (let t0 = uint (time ! 0); t1 = uint (time ! 1) in
      (drop_bit 3 t1 AND 0x1F,
       push_bit 3 (t1 AND 0x07) OR (drop_bit 5 t0 AND 0x07),
       (t0 AND 0x1F) * 2))"

definition print_date :: "bytes \<Rightarrow> string" where
  "print_date date =
     (case decode_date date of (year, month, day) \<Rightarrow>
        pad_int 4 year @ ''-'' @ pad_int 2 month @ ''-'' @ pad_int 2 day @ '' '')"

definition print_time :: "bytes \<Rightarrow> string" where
  "print_time time =
     (case decode_time time of (hour, minute, second) \<Rightarrow>
        pad_int 2 hour @ '':'' @ pad_int 2 minute @ '':'' @ pad_int 2 second @ '' '')"

definition print_permissions :: "byte \<Rightarrow> string" where
  "print_permissions a =
     (if a AND 0x01 \<noteq> 0 then ''R'' else ''-'') @ (if a AND 0x02 \<noteq> 0 then ''W'' else ''-'') @ '' ''"

definition print_file_type :: "byte \<Rightarrow> string" where
  "print_file_type t = (if t = 0x01 then ''Dir'' else ''File'')"

definition entry_line :: "DirectoryEntry \<Rightarrow> string" where
  "entry_line e =
     (let name = c_str (take MAX_FILENAME (filename e));
          ext = c_str (take MAX_EXTENSION (extension e)) in
      print_file_type (file_type e ! 0) @ '' '' @ print_permissions (file_attributes e ! 0) @
      print_date (creation_date e) @ print_time (creation_time e) @
      (if 0 < length ext then name @ ''.'' @ ext @ '' '' else name @ '' '') @
      (if password e ! 0 \<noteq> CHR 0x00 then ''(protected)'' else ''''))"

fun directory_lines :: "FileSystem \<Rightarrow> dir_ptr \<Rightarrow> nat \<Rightarrow> nat \<Rightarrow> string list option" where
  "directory_lines fs d i 0 = Some []"
| "directory_lines fs d i (Suc n) =
     (case entry_at fs d i of
        None \<Rightarrow> None
      | Some e \<Rightarrow>
          (case directory_lines fs d (Suc i) n of
             None \<Rightarrow> None
           | Some ls \<Rightarrow> Some (if is_used e then entry_line e # ls else ls)))"

definition list_directory :: "FileSystem \<Rightarrow> string \<Rightarrow> (message + string list) option" where
  "list_directory fs path =
     (case find_directory fs path of
        Fault \<Rightarrow> None
      | Missing \<Rightarrow> Some (Inl (DirNotFound path))
      | Found d \<Rightarrow> map_option Inr (directory_lines fs d 0 ROOT_ENTRIES))"

record dump =
  d_block_count :: nat
  d_block_size :: int
  d_occupied :: nat
  d_free :: int
  d_files :: nat
  d_directories :: nat
  d_blocks :: "(nat \<times> string \<times> string) list"

definition dump_file_system_info :: "FileSystem \<Rightarrow> dump" where
  "dump_file_system_info fs =
     (let occupied = count_if (\<lambda>x. x \<noteq> 0x000) (fat fs); used = filter is_used (root_dir fs) in
      \<lparr>d_block_count = number_of_blocks (super_block fs),
       d_block_size = block_size (super_block fs),
       d_occupied = occupied,
       d_free = int (number_of_blocks (super_block fs)) - int occupied,
       d_files = count_if (\<lambda>e. \<not> is_dir e) used,
       d_directories = count_if is_dir used,
       d_blocks = map (\<lambda>e. (first_block e, filename_text e, extension_text e)) used\<rparr>)"

subsection \<open>main\<close>

datatype reply =
    Usage
  | UnknownOperation string
  | Listing "message + string list"
  | Said message
  | Dumped dump
  | Silent

text \<open>
  The arguments after the name of the program, the image read from \<open>argv[1]\<close> and the local time.
  The result is the exit status, what is printed and, where \<open>main\<close> saves, the image it writes.
\<close>

definition slashes :: "string \<Rightarrow> string" where
  "slashes s = map (\<lambda>c. if c = CHR ''/'' then CHR 0x5C else c) s"

definition fs_main ::
  "tm \<Rightarrow> string list \<Rightarrow> FileSystem \<Rightarrow> (bool \<times> reply \<times> FileSystem option) option" where
  "fs_main now args fs =
     (case args of
        file # operation # params \<Rightarrow>
          (let ps = map slashes params in
           if operation = ''dir'' then
             (case ps of
                [path] \<Rightarrow> map_option (\<lambda>l. (True, Listing l, None)) (list_directory fs path)
              | _ \<Rightarrow> Some (False, Usage, None))
           else if operation = ''mkdir'' then
             (case ps of
                [path, dirname] \<Rightarrow>
                  map_option (\<lambda>(fs', m). (True, Said m, Some fs')) (create_directory now path dirname fs)
              | _ \<Rightarrow> Some (False, Usage, None))
           else if operation = ''rmdir'' then
             (case ps of
                [path, dirname] \<Rightarrow>
                  map_option (\<lambda>(fs', m). (True, Said m, Some fs')) (remove_directory path dirname fs)
              | _ \<Rightarrow> Some (False, Usage, None))
           else if operation = ''dumpe2fs'' then Some (True, Dumped (dump_file_system_info fs), None)
           else if operation = ''write'' then Some (True, Silent, None)
           else Some (False, UnknownOperation operation, None))
      | _ \<Rightarrow> Some (False, Usage, None))"

end
