(* ===== verification/Fat12_Properties.thy ===== *)
theory Fat12_Properties
  imports Fat12 Transition_Systems
begin

text \<open>
  What the file system operations of os02 do: the encoding of dates and times, the effect of
  \<open>mkdir\<close> and \<open>rmdir\<close> on the image and on the FAT, look-up after creation, and the ways in which
  directories share blocks.
\<close>

unbundle bit_operations_syntax

subsection \<open>Dates and times\<close>

lemma masks:
  "(x :: int) AND 1 = take_bit 1 x" "x AND 7 = take_bit 3 x" "x AND 31 = take_bit 5 x"
  "x AND 127 = take_bit 7 x" "drop_bit 3 (x AND 8) = take_bit 1 (drop_bit 3 x)"
  "drop_bit 3 (x AND 56) = take_bit 3 (drop_bit 3 x)"
  by (simp_all add: take_bit_eq_mask mask_eq_exp_minus_1 drop_bit_and)

text \<open>A byte made of a field of \<open>k\<close> bits below a field of \<open>8 - k\<close> bits.\<close>

lemma fields:
  assumes "k + m = 8"
  shows "take_bit k (take_bit 8 (take_bit k x OR push_bit k (take_bit m y))) = take_bit k (x :: int)"
    "take_bit m (drop_bit k (take_bit 8 (take_bit k x OR push_bit k (take_bit m y)))) = take_bit m (y :: int)"
  using assms by (auto intro!: bit_eqI simp: bit_simps)

lemma joined: "push_bit 3 (take_bit k (drop_bit 3 x)) OR take_bit 3 x = take_bit (3 + k) (x :: int)"
  by (rule bit_eqI) (auto simp: bit_simps)

lemma uint_of_int: "uint (word_of_int x :: byte) = take_bit 8 x"
  by (simp add: uint_word_of_int_eq)

lemma eight_bits: "5 + 3 = (8 :: nat)" "1 + 7 = (8 :: nat)" "3 + 5 = (8 :: nat)"
  by simp_all

lemmas byte_fields = eight_bits [THEN fields(1)] eight_bits [THEN fields(2)]

lemma pair_nth: "[x, y] ! 0 = x" "[x, y] ! 1 = y"
  by simp_all

lemmas code_bytes = Let_def uint_of_int masks byte_fields joined pair_nth

lemma decode_encode_date:
  "decode_date (encode_date t) =
     (take_bit 7 (tm_year t + 1900 - 1980) + 1980, take_bit (3 + 1) (tm_mon t + 1),
      take_bit 5 (tm_mday t))"
  by (simp only: decode_date_def encode_date_def code_bytes)

lemma decode_encode_time:
  "decode_time (encode_time t) =
     (take_bit 5 (tm_hour t), take_bit (3 + 3) (tm_min t), take_bit 5 (tm_sec t div 2) * 2)"
  by (simp only: decode_time_def encode_time_def code_bytes)

text \<open>The packed creation date and time survive the round trip: for every moment from 1980 to
  2107, \<open>print_date\<close> reads from the two bytes that \<open>create_directory\<close> stores the year, month and day it
  was given, and \<open>print_time\<close> the hour, the minute and the second rounded down to an even number.\<close>

theorem date_time_roundtrip:
  assumes "80 \<le> tm_year t" "tm_year t < 208" "0 \<le> tm_mon t" "tm_mon t < 12"
    and "1 \<le> tm_mday t" "tm_mday t \<le> 31" "0 \<le> tm_hour t" "tm_hour t < 24"
    and "0 \<le> tm_min t" "tm_min t < 60" "0 \<le> tm_sec t" "tm_sec t < 62"
  shows "decode_date (encode_date t) = (tm_year t + 1900, tm_mon t + 1, tm_mday t) \<and>
    decode_time (encode_time t) = (tm_hour t, tm_min t, tm_sec t - tm_sec t mod 2)"
  unfolding decode_encode_date decode_encode_time
  using assms minus_mod_eq_div_mult [of "tm_sec t" 2] by (simp add: take_bit_int_eq_self)

theorem date_time_roundtrip_witness:
  "decode_date (encode_date \<lparr>tm_year = 124, tm_mon = 5, tm_mday = 7, tm_hour = 23, tm_min = 59, tm_sec = 41\<rparr>) =
     (2024, 6, 7) \<and>
   decode_time (encode_time \<lparr>tm_year = 124, tm_mon = 5, tm_mday = 7, tm_hour = 23, tm_min = 59, tm_sec = 41\<rparr>) =
     (23, 59, 40)"
  using date_time_roundtrip [of "\<lparr>tm_year = 124, tm_mon = 5, tm_mday = 7, tm_hour = 23, tm_min = 59, tm_sec = 41\<rparr>"]
  by simp

subsection \<open>Searching a directory\<close>

lemma first_entry_Some:
  "first_entry fs d P i n = Some (Some j) \<Longrightarrow>
   i \<le> j \<and> j < i + n \<and> (\<exists>e. entry_at fs d j = Some e \<and> P e)"
  by (induction n arbitrary: i) (fastforce split: option.splits if_splits)+

lemma first_entry_total:
  "(\<And>j. i \<le> j \<Longrightarrow> j < i + n \<Longrightarrow> entry_at fs d j \<noteq> None) \<Longrightarrow> first_entry fs d P i n \<noteq> None"
proof (induction n arbitrary: i)
  case (Suc n)
  from Suc.prems [of i] obtain e where "entry_at fs d i = Some e" by auto
  moreover have "first_entry fs d P (Suc i) n \<noteq> None"
    by (rule Suc.IH) (use Suc.prems in auto)
  ultimately show ?case by simp
qed simp

lemma first_entry_at:
  assumes "i \<le> j" "j < i + n" "entry_at fs d j = Some e" "P e"
    and "\<And>k. i \<le> k \<Longrightarrow> k < j \<Longrightarrow> \<exists>e'. entry_at fs d k = Some e' \<and> \<not> P e'"
  shows "first_entry fs d P i n = Some (Some j)"
  using assms
proof (induction n arbitrary: i)
  case (Suc n)
  show ?case
  proof (cases "i = j")
    case False
    with Suc.prems obtain e' where "entry_at fs d i = Some e'" "\<not> P e'" by fastforce
    with Suc False show ?thesis by simp
  qed (use Suc in simp)
qed simp

lemma first_entry_cong:
  "(\<And>k. entry_at fs d k = entry_at gs d k) \<Longrightarrow> first_entry fs d P i n = first_entry gs d P i n"
  by (induction n arbitrary: i) (auto split: option.splits)

subsection \<open>The image as a state\<close>

definition entry_wf :: "DirectoryEntry \<Rightarrow> bool" where
  "entry_wf e =
     (length (filename e) = 8 \<and> length (extension e) = 3 \<and> length (file_size e) = 4 \<and>
      length (password e) = 5 \<and> length (first_block_number e) = 2 \<and>
      length (last_modified_date e) = 2 \<and> length (last_modified_time e) = 2 \<and>
      length (creation_date e) = 2 \<and> length (creation_time e) = 2 \<and>
      length (file_attributes e) = 1 \<and> length (file_type e) = 1 \<and>
      extension e ! 0 = CHR 0x00 \<and> (is_used e \<longrightarrow> is_dir e))"

definition entries :: "FileSystem \<Rightarrow> DirectoryEntry set" where
  "entries fs = set (root_dir fs) \<union> set (fs_data fs)"

definition allocated :: "FileSystem \<Rightarrow> nat" where
  "allocated fs = count_if (\<lambda>x. x \<noteq> 0x000) (fat fs)"

text \<open>
  The images the two programs produce: the arrays have their lengths, the FAT is allocated from the
  front, and no entry names a block that has not been allocated.
\<close>

definition image_wf :: "FileSystem \<Rightarrow> bool" where
  "image_wf fs =
     (length (root_dir fs) = ROOT_ENTRIES \<and> length (fs_data fs) = 4096 \<and>
      number_of_blocks (super_block fs) = NUMBER_OF_BLOCKS \<and>
      allocated fs \<le> NUMBER_OF_BLOCKS \<and>
      fat fs = replicate (allocated fs) 0xFFF @ replicate (NUMBER_OF_BLOCKS - allocated fs) 0 \<and>
      (\<forall>e \<in> entries fs. entry_wf e \<and> (first_block e = 0 \<or> first_block e < allocated fs)))"

definition fs_init :: "FileSystem \<Rightarrow> bool" where
  "fs_init fs = (\<exists>bs. fs = initialize_file_system bs)"

definition fs_step :: "FileSystem \<Rightarrow> FileSystem \<Rightarrow> bool" where
  "fs_step fs fs' = (\<exists>now args status r. fs_main now args fs = Some (status, r, Some fs'))"

lemma block_count: "NUMBER_OF_BLOCKS = 8192"
  by (simp add: NUMBER_OF_BLOCKS_def BYTES_PER_SECTOR_def)

lemma count_replicate [simp]: "count_if P (replicate n x) = (if P x then n else 0)"
  by (induction n) auto

lemma zero_entry_wf: "entry_wf zero_entry" "first_block zero_entry = 0" "\<not> is_used zero_entry"
  by (simp_all add: entry_wf_def zero_entry_def first_block_def is_used_def is_dir_def numeral_eq_Suc)

lemma init_image_wf: "image_wf (initialize_file_system bs)"
proof -
  have "allocated (initialize_file_system bs) = 0"
    by (simp add: allocated_def initialize_file_system_def Let_def)
  then show ?thesis
    by (auto simp: image_wf_def initialize_file_system_def Let_def entries_def ENTRY_BYTES_def
      block_count zero_entry_wf)
qed

lemma free_block_wf:
  assumes "image_wf fs"
  shows "free_block (fat fs) = (if allocated fs < NUMBER_OF_BLOCKS then Some (allocated fs) else None)"
proof -
  let ?k = "allocated fs"
  have fat: "fat fs = replicate ?k 0xFFF @ replicate (NUMBER_OF_BLOCKS - ?k) 0" and k: "?k \<le> NUMBER_OF_BLOCKS"
    using assms by (auto simp: image_wf_def)
  have used: "fat fs ! i \<noteq> 0" if "i < ?k" for i
    unfolding fat using that by (simp add: nth_append)
  show ?thesis
  proof (cases "?k < NUMBER_OF_BLOCKS")
    case True
    then have "fat fs ! ?k = 0" by (subst fat) (simp add: nth_append)
    with True used show ?thesis
      by (auto simp: free_block_def find_Some_iff intro!: exI [of _ ?k])
  next
    case False
    with k used show ?thesis by (auto simp: free_block_def find_None_iff)
  qed
qed

lemma entry_in: "entry_at fs d i = Some e \<Longrightarrow> e \<in> entries fs"
  by (cases d) (auto simp: entries_def split: if_splits)

lemma set_entry_fields [simp]:
  "fat (set_entry d i e fs) = fat fs" "super_block (set_entry d i e fs) = super_block fs"
  "length (root_dir (set_entry d i e fs)) = length (root_dir fs)"
  "length (fs_data (set_entry d i e fs)) = length (fs_data fs)"
  "allocated (set_entry d i e fs) = allocated fs"
  by (cases d; simp add: allocated_def)+

lemma set_entry_entries: "e' \<in> entries (set_entry d i e fs) \<Longrightarrow> e' = e \<or> e' \<in> entries fs"
  by (cases d) (auto simp: entries_def dest!: set_update_subset_insert [THEN subsetD])

lemma entry_at_set:
  "entry_at fs d i \<noteq> None \<Longrightarrow> entry_at (set_entry d i e fs) d i = Some e"
  by (cases d) (auto split: if_splits)

lemma set_entry_wf:
  assumes "image_wf fs" "entry_wf e" "first_block e = 0 \<or> first_block e < allocated fs"
  shows "image_wf (set_entry d i e fs)"
  using assms set_entry_entries [of _ d i e fs] unfolding image_wf_def by auto

subsection \<open>The effect of mkdir\<close>

definition take_block :: "FileSystem \<Rightarrow> FileSystem" where
  "take_block fs = fst (mark_block fs zero_entry)"

definition made_entry :: "tm \<Rightarrow> string \<Rightarrow> FileSystem \<Rightarrow> DirectoryEntry \<Rightarrow> DirectoryEntry" where
  "made_entry now dirname fs e =
     (snd (mark_block fs
        (e\<lparr>filename := c_strncpy MAX_FILENAME dirname, file_attributes := (file_attributes e)[0 := 0x10],
           file_type := (file_type e)[0 := 0x01]\<rparr>)))
       \<lparr>creation_date := encode_date now, creation_time := encode_time now\<rparr>"

lemma parent_lookup:
  "(if c_strcmp path backslash = 0 then Found RootDir else find_directory fs path) =
   find_directory fs path"
  by (simp add: find_directory_def)

lemma create_made:
  assumes "find_directory fs path = Found d"
    "first_entry fs d (\<lambda>e. \<not> is_used e) 0 ROOT_ENTRIES = Some (Some i)" "entry_at fs d i = Some e"
  shows "create_directory now path dirname fs =
    Some (set_entry d i (made_entry now dirname fs e) (take_block fs), Created path dirname)"
  unfolding create_directory_def parent_lookup
  using assms by (simp add: take_block_def made_entry_def Let_def mark_block_def split: option.splits)

lemma create_cases:
  assumes "create_directory now path dirname fs = Some (fs', m)"
  obtains (unchanged) "fs' = fs" "\<And>p n. m \<noteq> Created p n"
    | (made) d i e where "find_directory fs path = Found d"
        "first_entry fs d (\<lambda>e. \<not> is_used e) 0 ROOT_ENTRIES = Some (Some i)" "entry_at fs d i = Some e"
        "fs' = set_entry d i (made_entry now dirname fs e) (take_block fs)" "m = Created path dirname"
proof (cases "find_directory fs path")
  case (Found d)
  show ?thesis
  proof (cases "first_entry fs d (\<lambda>e. \<not> is_used e) 0 ROOT_ENTRIES")
    case None
    with Found assms show ?thesis by (simp add: create_directory_def parent_lookup)
  next
    case (Some r)
    show ?thesis
    proof (cases r)
      case None
      with Found Some assms have "fs' = fs" "m = NoSpace path"
        by (simp_all add: create_directory_def parent_lookup)
      then show ?thesis by (intro unchanged) simp_all
    next
      case j: (Some i)
      from first_entry_Some [OF Some [unfolded j]] obtain e where e: "entry_at fs d i = Some e" by blast
      from create_made [OF Found Some [unfolded j] e] assms
      show ?thesis by (intro made [OF Found Some [unfolded j] e]) simp_all
    qed
  qed
next
  case Missing
  with assms have "fs' = fs" "m = ParentNotFound path"
    by (simp_all add: create_directory_def parent_lookup)
  then show ?thesis by (intro unchanged) simp_all
next
  case Fault
  with assms show ?thesis by (simp add: create_directory_def parent_lookup)
qed

lemma allocated_replicate:
  "allocated (fs\<lparr>fat := replicate k 0xFFF @ replicate m 0\<rparr>) = k"
  by (simp add: allocated_def)

lemma take_block_wf:
  assumes wf: "image_wf fs"
  shows "image_wf (take_block fs)" "root_dir (take_block fs) = root_dir fs"
    "fs_data (take_block fs) = fs_data fs"
    "allocated (take_block fs) = min (Suc (allocated fs)) NUMBER_OF_BLOCKS"
proof -
  let ?k = "allocated fs"
  have fat: "fat fs = replicate ?k 0xFFF @ replicate (NUMBER_OF_BLOCKS - ?k) 0" and k: "?k \<le> NUMBER_OF_BLOCKS"
    using wf by (auto simp: image_wf_def)
  show same: "root_dir (take_block fs) = root_dir fs" "fs_data (take_block fs) = fs_data fs"
    by (simp_all add: take_block_def mark_block_def split: option.split)
  show alloc: "allocated (take_block fs) = min (Suc ?k) NUMBER_OF_BLOCKS" and "image_wf (take_block fs)"
  proof (atomize (full), cases "?k < NUMBER_OF_BLOCKS")
    case True
    have "replicate (NUMBER_OF_BLOCKS - ?k) (0 :: u16) = 0 # replicate (NUMBER_OF_BLOCKS - Suc ?k) 0"
      using True by (simp flip: replicate_Suc add: Suc_diff_Suc)
    with fat have "(fat fs)[?k := 0xFFF] =
        replicate (Suc ?k) 0xFFF @ replicate (NUMBER_OF_BLOCKS - Suc ?k) 0"
      by (metis (no_types, lifting) append_Cons append_assoc list_update_length length_replicate
        replicate_append_same replicate_Suc append_Nil)
    then have t: "take_block fs =
        fs\<lparr>fat := replicate (Suc ?k) 0xFFF @ replicate (NUMBER_OF_BLOCKS - Suc ?k) 0\<rparr>"
      using True free_block_wf [OF wf] by (simp add: take_block_def mark_block_def)
    have al: "allocated (take_block fs) = Suc ?k" unfolding t by (rule allocated_replicate)
    moreover have "image_wf (take_block fs)"
      using wf True unfolding image_wf_def al by (auto simp: t entries_def)
    ultimately show "allocated (take_block fs) = min (Suc ?k) NUMBER_OF_BLOCKS \<and> image_wf (take_block fs)"
      using True by simp
  next
    case False
    then have "take_block fs = fs"
      using free_block_wf [OF wf] by (simp add: take_block_def mark_block_def)
    with wf False k show "allocated (take_block fs) = min (Suc ?k) NUMBER_OF_BLOCKS \<and> image_wf (take_block fs)"
      by simp
  qed
qed

text \<open>The entry \<open>mkdir\<close> writes.\<close>

lemma made_entry_fields:
  assumes wf: "image_wf fs" and e: "entry_wf e"
  shows "filename (made_entry now dn fs e) = c_strncpy MAX_FILENAME dn"
    "extension (made_entry now dn fs e) = extension e"
    "is_dir (made_entry now dn fs e)"
    "creation_date (made_entry now dn fs e) = encode_date now"
    "creation_time (made_entry now dn fs e) = encode_time now"
    "allocated fs < NUMBER_OF_BLOCKS \<Longrightarrow> first_block (made_entry now dn fs e) = allocated fs mod 256"
    "allocated fs = NUMBER_OF_BLOCKS \<Longrightarrow> first_block (made_entry now dn fs e) = first_block e"
  using e by (auto simp: made_entry_def mark_block_def free_block_wf [OF wf] is_dir_def first_block_def
      entry_wf_def unat_of_nat split: option.split)

lemma made_entry_wf:
  assumes wf: "image_wf fs" and e: "entry_wf e"
  shows "entry_wf (made_entry now dn fs e)"
  using e made_entry_fields [OF wf e]
  by (auto simp: entry_wf_def made_entry_def mark_block_def MAX_FILENAME_def encode_date_def
      encode_time_def Let_def split: option.split)

lemma entry_wf_at: "image_wf fs \<Longrightarrow> entry_at fs d i = Some e \<Longrightarrow> entry_wf e"
  using entry_in by (fastforce simp: image_wf_def)

lemma first_block_at:
  "image_wf fs \<Longrightarrow> entry_at fs d i = Some e \<Longrightarrow> first_block e = 0 \<or> first_block e < allocated fs"
  using entry_in by (fastforce simp: image_wf_def)

lemma create_wf:
  assumes wf: "image_wf fs" and c: "create_directory now path dn fs = Some (fs', m)"
  shows "image_wf fs'"
  using c
proof (cases rule: create_cases)
  case (made d i e)
  let ?e = "made_entry now dn fs e"
  have e: "entry_wf e" using wf made(3) by (rule entry_wf_at)
  have "first_block ?e = 0 \<or> first_block ?e < allocated (take_block fs)"
  proof (cases "allocated fs < NUMBER_OF_BLOCKS")
    case True
    have "allocated fs mod 256 < Suc (allocated fs)" by (simp add: less_Suc_eq_le)
    with True made_entry_fields(6) [OF wf e True] take_block_wf(4) [OF wf] show ?thesis by simp
  next
    case False
    then have all: "allocated fs = NUMBER_OF_BLOCKS" using wf by (simp add: image_wf_def)
    with made_entry_fields(7) [OF wf e all] first_block_at [OF wf made(3)] take_block_wf(4) [OF wf]
    show ?thesis by simp
  qed
  then have "image_wf (set_entry d i ?e (take_block fs))"
    by (intro set_entry_wf take_block_wf(1) wf made_entry_wf e)
  with made(4) show ?thesis by simp
qed (use wf in simp)

lemma remove_cases:
  assumes "remove_directory path dn fs = Some (fs', m)"
  obtains (unchanged) "fs' = fs" "\<And>p n. m \<noteq> Removed p n"
    | (removed) d i e where "find_directory fs path = Found d" "entry_at fs d i = Some e" "is_dir e"
        "c_strncmp (c_str (filename e)) dn MAX_FILENAME = 0" "i < ROOT_ENTRIES"
        "fs' = set_entry d i zero_entry fs" "m = Removed path dn"
proof (cases "find_directory fs path")
  case (Found d)
  show ?thesis
  proof (cases "first_entry fs d
      (\<lambda>e. c_strncmp (c_str (filename e)) dn MAX_FILENAME = 0 \<and> is_dir e) 0 ROOT_ENTRIES")
    case None
    with Found assms show ?thesis by (simp add: remove_directory_def)
  next
    case (Some r)
    show ?thesis
    proof (cases r)
      case None
      with Found Some assms have "fs' = fs" "m = NotFound path dn"
        by (simp_all add: remove_directory_def)
      then show ?thesis by (intro unchanged) simp_all
    next
      case j: (Some i)
      from first_entry_Some [OF Some [unfolded j]] obtain e where e: "entry_at fs d i = Some e"
        "is_dir e" "c_strncmp (c_str (filename e)) dn MAX_FILENAME = 0" "i < ROOT_ENTRIES" by auto
      show ?thesis
      proof (cases "list_ex (blocks_removal fs d i) [0..<ROOT_ENTRIES]")
        case True
        with Found Some j assms have "fs' = fs" "m = NotEmpty path dn"
          by (simp_all add: remove_directory_def)
        then show ?thesis by (intro unchanged) simp_all
      next
        case False
        with Found Some j assms have "fs' = set_entry d i zero_entry fs" "m = Removed path dn"
          by (simp_all add: remove_directory_def)
        then show ?thesis by (intro removed [OF Found e])
      qed
    qed
  qed
next
  case Missing
  with assms have "fs' = fs" "m = ParentNotFound path"
    by (simp_all add: remove_directory_def)
  then show ?thesis by (intro unchanged) simp_all
next
  case Fault
  with assms show ?thesis by (simp add: remove_directory_def)
qed

lemma remove_wf:
  assumes wf: "image_wf fs" and r: "remove_directory path dn fs = Some (fs', m)"
  shows "image_wf fs'"
  using r by (cases rule: remove_cases) (use wf zero_entry_wf in \<open>auto intro: set_entry_wf\<close>)

lemma fs_step_cases:
  assumes "fs_step fs fs'"
  obtains now path dn m where "create_directory now path dn fs = Some (fs', m)"
    | path dn m where "remove_directory path dn fs = Some (fs', m)"
proof -
  from assms obtain now args st r where main: "fs_main now args fs = Some (st, r, Some fs')"
    by (auto simp: fs_step_def)
  obtain img oper params where args: "args = img # oper # params"
    using main by (cases args rule: remdups_adj.cases) (auto simp: fs_main_def)
  let ?ps = "map slashes params"
  have "oper = ''mkdir'' \<or> oper = ''rmdir''" "length ?ps = 2"
    using main args by (auto simp: fs_main_def Let_def split: if_splits list.splits)
  then obtain p q where "?ps = [p, q]" "oper = ''mkdir'' \<or> oper = ''rmdir''"
    by (auto simp: length_Suc_conv numeral_2_eq_2)
  then consider m where "create_directory now p q fs = Some (fs', m)"
    | m where "remove_directory p q fs = Some (fs', m)"
    using main args by (auto simp: fs_main_def)
  then show ?thesis using that by cases
qed

interpretation fat12: inductive_invariant fs_init fs_step image_wf
  by unfold_locales (auto simp: fs_init_def init_image_wf elim!: fs_step_cases dest: create_wf remove_wf)

subsection \<open>Accesses stay inside the image\<close>

definition in_image :: "FileSystem \<Rightarrow> dir_ptr \<Rightarrow> bool" where
  "in_image fs d = (\<forall>i < ROOT_ENTRIES. entry_at fs d i \<noteq> None)"

lemma block_in_image:
  "image_wf fs \<Longrightarrow> b \<le> 242 \<Longrightarrow> in_image fs (DataBlock b)"
  by (auto simp: in_image_def image_wf_def ROOT_ENTRIES_def)

lemma root_in_image: "image_wf fs \<Longrightarrow> in_image fs RootDir"
  by (auto simp: in_image_def image_wf_def)

lemma first_entry_in_image: "in_image fs d \<Longrightarrow> first_entry fs d P 0 ROOT_ENTRIES \<noteq> None"
  by (rule first_entry_total) (auto simp: in_image_def)

lemma lines_in_image:
  "(\<And>j. i \<le> j \<Longrightarrow> j < i + n \<Longrightarrow> entry_at fs d j \<noteq> None) \<Longrightarrow> directory_lines fs d i n \<noteq> None"
proof (induction n arbitrary: i)
  case (Suc n)
  from Suc.prems [of i] obtain e where "entry_at fs d i = Some e" by auto
  moreover have "directory_lines fs d (Suc i) n \<noteq> None"
    by (rule Suc.IH) (use Suc.prems in auto)
  ultimately show ?case by auto
qed simp

lemma walk_in_image:
  assumes wf: "image_wf fs" and few: "allocated fs \<le> 243"
  shows "in_image fs d \<Longrightarrow> walk_path fs d s \<noteq> Fault \<and> (\<forall>d'. walk_path fs d s = Found d' \<longrightarrow> in_image fs d')"
proof (induction s arbitrary: d rule: length_induct)
  case (1 s)
  obtain t r where tok: "c_strtok backslash s = (t, r)" by fastforce
  show ?case
  proof (cases t)
    case None
    with tok 1 show ?thesis by (simp add: walk_path.simps [of fs d s])
  next
    case (Some token)
    let ?P = "\<lambda>e. c_strcmp (filename_text e) token = 0 \<and> is_dir e"
    obtain x where x: "first_entry fs d ?P 0 ROOT_ENTRIES = Some x"
      using first_entry_in_image [OF "1.prems"] by blast
    show ?thesis
    proof (cases x)
      case None
      with tok Some x show ?thesis by (simp add: walk_path.simps [of fs d s])
    next
      case j: (Some i)
      from first_entry_Some [OF x [unfolded j]] obtain e where e: "entry_at fs d i = Some e" by blast
      from first_block_at [OF wf e] few have "first_block e \<le> 242" by auto
      then have "in_image fs (DataBlock (first_block e))" by (rule block_in_image [OF wf])
      moreover have "length r < length s" using tok Some c_strtok_shorter by blast
      ultimately have "walk_path fs (DataBlock (first_block e)) r \<noteq> Fault \<and>
          (\<forall>d'. walk_path fs (DataBlock (first_block e)) r = Found d' \<longrightarrow> in_image fs d')"
        using "1.IH" by blast
      with tok Some x j e show ?thesis by (simp add: walk_path.simps [of fs d s])
    qed
  qed
qed

lemma find_in_image:
  assumes "image_wf fs" "allocated fs \<le> 243"
  shows "find_directory fs path \<noteq> Fault" "find_directory fs path = Found d \<Longrightarrow> in_image fs d"
  using walk_in_image [OF assms root_in_image [OF assms(1)], of path] root_in_image [OF assms(1)]
  by (auto simp: find_directory_def split: if_splits)

lemma create_no_fault:
  assumes "image_wf fs" "allocated fs \<le> 243"
  shows "create_directory now path dn fs \<noteq> None"
proof (cases "find_directory fs path")
  case (Found d)
  obtain x where x: "first_entry fs d (\<lambda>e. \<not> is_used e) 0 ROOT_ENTRIES = Some x"
    using first_entry_in_image [OF find_in_image(2) [OF assms Found]] by blast
  show ?thesis
  proof (cases x)
    case None
    with Found x show ?thesis by (simp add: create_directory_def parent_lookup)
  next
    case (Some i)
    from first_entry_Some [OF x [unfolded Some]] obtain e where "entry_at fs d i = Some e" by blast
    from create_made [OF Found x [unfolded Some] this] show ?thesis by simp
  qed
qed (use find_in_image(1) [OF assms] in \<open>simp_all add: create_directory_def parent_lookup\<close>)

lemma remove_no_fault:
  assumes "image_wf fs" "allocated fs \<le> 243"
  shows "remove_directory path dn fs \<noteq> None"
proof (cases "find_directory fs path")
  case (Found d)
  then show ?thesis
    using first_entry_in_image [OF find_in_image(2) [OF assms Found]]
    by (auto simp: remove_directory_def split: option.splits)
qed (use find_in_image(1) [OF assms] in \<open>simp_all add: remove_directory_def\<close>)

lemma list_no_fault:
  assumes "image_wf fs" "allocated fs \<le> 243"
  shows "list_directory fs path \<noteq> None"
proof (cases "find_directory fs path")
  case (Found d)
  with find_in_image(2) [OF assms Found] lines_in_image [of 0 ROOT_ENTRIES fs d] show ?thesis
    by (auto simp: list_directory_def in_image_def)
qed (use find_in_image(1) [OF assms] in \<open>simp_all add: list_directory_def\<close>)

lemma main_no_fault:
  assumes "image_wf fs" "allocated fs \<le> 243"
  shows "fs_main now args fs \<noteq> None"
proof (cases args)
  case (Cons img rest)
  show ?thesis
  proof (cases rest)
    case rest: (Cons oper params)
    note total = create_no_fault [OF assms] remove_no_fault [OF assms] list_no_fault [OF assms]
    consider "map slashes params = []" | x where "map slashes params = [x]"
      | x y where "map slashes params = [x, y]" | x y z zs where "map slashes params = x # y # z # zs"
      by (metis list.exhaust)
    then show ?thesis by cases (simp_all add: Cons rest fs_main_def Let_def total del: not_None_eq)
  qed (simp add: Cons fs_main_def)
qed (simp add: fs_main_def)

text \<open>C11. An image made by \<open>makeFileSystem\<close> and changed by any sequence of \<open>fileSystemOper\<close> commands
  stays consistent: the directories and the FAT keep their sizes, the FAT is allocated from the
  front and holds only free and end-of-file marks, no entry refers to a block that was not
  allocated, and the report of \<open>dumpe2fs\<close> adds up (occupied and free blocks make 8192, every used
  entry of the root is a directory).\<close>

theorem image_consistent:
  assumes "reachable fs_init fs_step fs"
  shows "image_wf fs \<and>
    int (d_occupied (dump_file_system_info fs)) + d_free (dump_file_system_info fs) = 8192 \<and>
    d_files (dump_file_system_info fs) = 0 \<and>
    d_directories (dump_file_system_info fs) = length (d_blocks (dump_file_system_info fs))"
proof -
  have wf: "image_wf fs" by (rule fat12.reachable_inv [OF assms])
  then have "is_dir e" if "e \<in> set (filter is_used (root_dir fs))" for e
    using that by (auto simp: image_wf_def entries_def entry_wf_def)
  then have "count_if (\<lambda>e. \<not> is_dir e) (filter is_used (root_dir fs)) = 0"
    "count_if is_dir (filter is_used (root_dir fs)) = length (filter is_used (root_dir fs))"
    by (auto simp: count_if_eq_0 count_if_eq_length)
  with wf show ?thesis
    by (simp add: dump_file_system_info_def Let_def image_wf_def block_count)
qed

theorem image_consistent_witness:
  "image_wf (initialize_file_system 512) \<and>
   d_free (dump_file_system_info (initialize_file_system 512)) = 8192"
proof -
  have "reachable fs_init fs_step (initialize_file_system 512)"
    by (rule reachable.reach_init) (auto simp: fs_init_def)
  from image_consistent [OF this] show ?thesis
    by (simp add: dump_file_system_info_def Let_def initialize_file_system_def)
qed

text \<open>C12. As long as at most 243 blocks have been allocated, no command reads or writes outside the
  image: every argument list gives a result. The bound is sharp: a directory in block 243, the
  244th, does not fit, its entries from 208 on lie behind the data region.\<close>

theorem no_access_outside:
  assumes "reachable fs_init fs_step fs" "allocated fs \<le> 243"
  shows "fs_main now args fs \<noteq> None \<and> entry_at fs (DataBlock 243) 208 = None"
proof (rule conjI)
  have wf: "image_wf fs" by (rule fat12.reachable_inv [OF assms(1)])
  then show "fs_main now args fs \<noteq> None" using assms(2) by (rule main_no_fault)
  from wf show "entry_at fs (DataBlock 243) 208 = None" by (simp add: image_wf_def)
qed

definition noon :: tm where
  "noon = \<lparr>tm_year = 124, tm_mon = 5, tm_mday = 7, tm_hour = 12, tm_min = 0, tm_sec = 0\<rparr>"

theorem no_access_outside_witness:
  "fs_main noon [''img'', ''mkdir'', ''/usr'', ''ysa''] (initialize_file_system 1024) \<noteq> None"
proof -
  have "reachable fs_init fs_step (initialize_file_system 1024)"
    by (rule reachable.reach_init) (auto simp: fs_init_def)
  moreover have "allocated (initialize_file_system 1024) \<le> 243"
    by (simp add: allocated_def initialize_file_system_def Let_def)
  ultimately show ?thesis using no_access_outside [of _ noon] by blast
qed

subsection \<open>Creation, look-up, removal\<close>

lemma first_entry_least:
  "first_entry fs d P i n = Some (Some j) \<Longrightarrow> i \<le> k \<Longrightarrow> k < j \<Longrightarrow>
   \<exists>e. entry_at fs d k = Some e \<and> \<not> P e"
proof (induction n arbitrary: i)
  case (Suc n)
  then show ?case
    by (cases "k = i") (auto split: option.splits if_splits)
qed simp

lemma extension_empty: "entry_wf e \<Longrightarrow> extension_text e = []"
  by (cases "extension e") (auto simp: entry_wf_def extension_text_def c_str_def)

lemma filename_text_made:
  assumes "entry_wf e" "filename e = c_strncpy MAX_FILENAME dn" "nul_free dn" "length dn \<le> 8"
  shows "filename_text e = dn"
proof (cases "CHR 0x00 \<in> set (filename e)")
  case True
  with assms c_str_strncpy [of dn MAX_FILENAME] show ?thesis
    by (simp add: filename_text_def MAX_FILENAME_def)
next
  case False
  with assms have "length dn = 8" by (auto simp: c_strncpy_def MAX_FILENAME_def)
  with False assms show ?thesis
    by (simp add: filename_text_def extension_empty c_strncpy_def MAX_FILENAME_def)
qed

lemma nul_free_text: "entry_wf e \<Longrightarrow> nul_free (filename_text e)"
  by (auto simp: filename_text_def extension_empty nul_free_def [of "filename e"])

lemma unused_text: "entry_wf e \<Longrightarrow> \<not> is_used e \<Longrightarrow> filename_text e = []"
  by (cases "filename e") (auto simp: entry_wf_def is_used_def filename_text_def c_str_def)

lemma walk_one:
  assumes dn: "dn \<noteq> []" "set dn \<inter> set backslash = {}" and nf: "nul_free dn"
    and at: "i < ROOT_ENTRIES" "entry_at fs RootDir i = Some e" "filename_text e = dn" "is_dir e"
    and before: "\<And>k. k < i \<Longrightarrow> \<exists>e'. entry_at fs RootDir k = Some e' \<and> c_strcmp (filename_text e') dn \<noteq> 0"
  shows "find_directory fs dn = Found (DataBlock (first_block e))"
    "find_directory fs (backslash @ dn) = Found (DataBlock (first_block e))"
proof -
  let ?P = "\<lambda>e. c_strcmp (filename_text e) dn = 0 \<and> is_dir e"
  have "first_entry fs RootDir ?P 0 ROOT_ENTRIES = Some (Some i)"
    using at before by (intro first_entry_at [of _ _ _ _ _ e]) (simp_all del: entry_at.simps, blast)
  moreover have "c_strtok backslash dn = (Some dn, [])" by (rule c_strtok_last [OF dn])
  moreover from this have "c_strtok backslash (backslash @ dn) = (Some dn, [])"
    by (simp add: backslash_def c_strtok_skip)
  ultimately have "walk_path fs RootDir dn = Found (DataBlock (first_block e))"
    "walk_path fs RootDir (backslash @ dn) = Found (DataBlock (first_block e))"
    using at(2) by (simp_all add: walk_path.simps)
  moreover have "c_strcmp dn backslash \<noteq> 0" "c_strcmp (backslash @ dn) backslash \<noteq> 0"
  proof -
    obtain c cs where c: "dn = c # cs" using dn(1) by (cases dn) auto
    then have "c \<noteq> CHR 0x5C" using dn(2) by (auto simp: backslash_def)
    then show "c_strcmp dn backslash \<noteq> 0"
      using c_strcmp_eq_0 [OF nf, of backslash] by (auto simp: backslash_def c)
    show "c_strcmp (backslash @ dn) backslash \<noteq> 0"
      using nf by (simp add: backslash_def c char_code_0)
  qed
  ultimately show "find_directory fs dn = Found (DataBlock (first_block e))"
    "find_directory fs (backslash @ dn) = Found (DataBlock (first_block e))"
    by (simp_all add: find_directory_def)
qed

lemma create_created:
  assumes "create_directory now path dn fs = Some (fs', Created p n)"
  obtains d i e where "find_directory fs path = Found d"
    "first_entry fs d (\<lambda>e. \<not> is_used e) 0 ROOT_ENTRIES = Some (Some i)" "entry_at fs d i = Some e"
    "fs' = set_entry d i (made_entry now dn fs e) (take_block fs)"
  using assms
proof (cases rule: create_cases)
  case unchanged
  then show ?thesis by blast
qed (rule that)

lemma created_in_root:
  assumes wf: "image_wf fs" and c: "create_directory now backslash dn fs = Some (fs', Created p n)"
    and dn: "nul_free dn" "dn \<noteq> []" "length dn \<le> 8" "CHR 0x5C \<notin> set dn"
    and fresh: "\<And>e. e \<in> set (root_dir fs) \<Longrightarrow> is_used e \<Longrightarrow> filename_text e \<noteq> dn"
    and few: "allocated fs < 256"
  shows "find_directory fs' dn = Found (DataBlock (allocated fs))"
    "find_directory fs' (backslash @ dn) = Found (DataBlock (allocated fs))"
proof -
  from c obtain d i e where made: "find_directory fs backslash = Found d"
      "first_entry fs d (\<lambda>e. \<not> is_used e) 0 ROOT_ENTRIES = Some (Some i)" "entry_at fs d i = Some e"
      "fs' = set_entry d i (made_entry now dn fs e) (take_block fs)"
    by (rule create_created)
  from made(1) have d: "d = RootDir" by (simp add: find_directory_def)
  let ?e = "made_entry now dn fs e"
  have e: "entry_wf e" using entry_wf_at [OF wf made(3)] .
  have i: "i < ROOT_ENTRIES" using first_entry_Some [OF made(2)] by simp
  note root = take_block_wf(2) [OF wf]
  have at: "entry_at fs' RootDir i = Some ?e"
    unfolding made(4) d by (rule entry_at_set) (use made(3) in \<open>simp add: d root split: if_splits\<close>)
  have "first_block ?e = allocated fs"
    using made_entry_fields(6) [OF wf e, of now dn] few by (simp add: block_count)
  moreover have text_e: "filename_text ?e = dn"
    using made_entry_wf [OF wf e] made_entry_fields(1) [OF wf e] dn(1,3) by (rule filename_text_made)
  moreover have "\<exists>e'. entry_at fs' RootDir k = Some e' \<and> c_strcmp (filename_text e') dn \<noteq> 0" if k: "k < i" for k
  proof -
    have "k < length (root_dir fs)" using k i wf by (simp add: image_wf_def)
    moreover from this have "root_dir fs ! k \<in> set (root_dir fs)" by simp
    moreover from this have "entry_wf (root_dir fs ! k)" using wf by (auto simp: image_wf_def entries_def)
    moreover from calculation have "filename_text (root_dir fs ! k) \<noteq> dn"
      using fresh unused_text dn(2) by metis
    ultimately show ?thesis
      using k dn(1) by (simp add: made(4) d root c_strcmp_eq_0 nul_free_text)
  qed
  moreover have "is_dir ?e" "set dn \<inter> set backslash = {}"
    using made_entry_fields(3) [OF wf e] dn(4) by (auto simp: backslash_def)
  ultimately show "find_directory fs' dn = Found (DataBlock (allocated fs))"
    "find_directory fs' (backslash @ dn) = Found (DataBlock (allocated fs))"
    using walk_one [OF dn(2) _ dn(1) i at] by metis+
qed

lemma set_entry_take_block: "(set_entry d i e (take_block fs))\<lparr>fat := fat fs\<rparr> = set_entry d i e fs"
  by (cases d; simp add: take_block_def mark_block_def split: option.split)


lemma find_root [simp]: "find_directory fs backslash = Found RootDir"
  by (simp add: find_directory_def)

lemma init_create:
  obtains fs' where
    "create_directory noon backslash dn (initialize_file_system bs) = Some (fs', Created backslash dn)"
proof -
  let ?fs = "initialize_file_system bs"
  have "entry_at ?fs RootDir 0 = Some zero_entry"
    by (simp add: initialize_file_system_def Let_def ROOT_ENTRIES_def)
  moreover from this have "first_entry ?fs RootDir (\<lambda>e. \<not> is_used e) 0 ROOT_ENTRIES = Some (Some 0)"
    by (intro first_entry_at [of _ _ _ _ _ zero_entry]) (simp_all add: zero_entry_wf ROOT_ENTRIES_def)
  ultimately show ?thesis using create_made [OF find_root] that by blast
qed

lemma init_allocated: "allocated (initialize_file_system bs) = 0"
  by (simp add: allocated_def initialize_file_system_def Let_def)


text \<open>\<open>mkdir\<close> in the root followed by a look-up of the new path, with or without the leading
  backslash, finds the directory, at the block that was allocated for it, for a name of 1 to 8
  characters without a separator that the root does not hold yet and while fewer than 256 blocks
  are allocated.\<close>

theorem mkdir_find:
  assumes "image_wf fs" "create_directory now backslash dn fs = Some (fs', Created p n)"
    and "nul_free dn" "dn \<noteq> []" "length dn \<le> 8" "CHR 0x5C \<notin> set dn"
    and "\<And>e. e \<in> set (root_dir fs) \<Longrightarrow> is_used e \<Longrightarrow> filename_text e \<noteq> dn"
    and "allocated fs < 256"
  shows "find_directory fs' dn = Found (DataBlock (allocated fs)) \<and>
    find_directory fs' (backslash @ dn) = Found (DataBlock (allocated fs))"
  using created_in_root [OF assms] by blast

theorem mkdir_find_witness:
  "\<exists>fs'. create_directory noon backslash ''usr'' (initialize_file_system 512) =
     Some (fs', Created backslash ''usr'') \<and> find_directory fs' ''usr'' = Found (DataBlock 0)"
proof -
  obtain fs' where c: "create_directory noon backslash ''usr'' (initialize_file_system 512) =
      Some (fs', Created backslash ''usr'')"
    by (rule init_create)
  have unused: "\<not> is_used e" if "e \<in> set (root_dir (initialize_file_system 512))" for e
    using that by (auto simp: initialize_file_system_def Let_def zero_entry_wf)
  have "find_directory fs' ''usr'' = Found (DataBlock 0)"
    using mkdir_find [OF init_image_wf c] unused by (auto simp: init_allocated)
  with c show ?thesis by blast
qed

text \<open>Directories are not isolated: a directory occupies 224 entries, 14 blocks, but \<open>mkdir\<close>
  allocates one block. If the directories of two paths have adjacent blocks, a directory created
  in the second appears among the entries of the first, in a slot that was unused before.\<close>

theorem mkdir_shows_in_sibling:
  assumes "image_wf fs" "find_directory fs q = Found (DataBlock (Suc b))"
    and "create_directory now q dn fs = Some (fs', Created q dn)"
    and "entry_at fs (DataBlock (Suc b)) k = Some e0" "\<not> is_used e0" "k < 208"
  shows "\<exists>j < ROOT_ENTRIES. \<exists>old new. entry_at fs (DataBlock b) j = Some old \<and> \<not> is_used old \<and>
    entry_at fs' (DataBlock b) j = Some new \<and> is_dir new \<and> filename new = c_strncpy MAX_FILENAME dn"
proof -
  note wf = assms(1)
  from assms(3) obtain d i e where made: "find_directory fs q = Found d"
      "first_entry fs d (\<lambda>e. \<not> is_used e) 0 ROOT_ENTRIES = Some (Some i)" "entry_at fs d i = Some e"
      "fs' = set_entry d i (made_entry now dn fs e) (take_block fs)"
    by (rule create_created)
  from made(1) assms(2) have d: "d = DataBlock (Suc b)" by simp
  have "i \<le> k"
    using first_entry_least [OF made(2), of k] assms(4,5) d by (cases "i \<le> k") auto
  with assms(6) have "i + 16 < ROOT_ENTRIES" by (simp add: ROOT_ENTRIES_def)
  moreover have shift: "entry_at gs (DataBlock b) (i + 16) = entry_at gs (DataBlock (Suc b)) i" for gs
    by (simp add: ac_simps)
  have "entry_at fs' d i = Some (made_entry now dn fs e)"
    unfolding made(4) by (rule entry_at_set) (use made(3) take_block_wf(3) [OF wf] in \<open>simp add: d split: if_splits\<close>)
  moreover have "\<not> is_used e" using first_entry_Some [OF made(2)] made(3) by auto
  moreover note made_entry_fields(1,3) [OF wf entry_wf_at [OF wf made(3)], of now dn]
  ultimately show ?thesis using made(3) d
    by (intro exI [of _ "i + 16"]) (simp add: shift del: entry_at.simps)
qed

definition dir_entry :: "string \<Rightarrow> nat \<Rightarrow> DirectoryEntry" where
  "dir_entry dn b = zero_entry\<lparr>filename := c_strncpy MAX_FILENAME dn, file_attributes := [0x10],
     file_type := [0x01], first_block_number := [of_nat b, 0]\<rparr>"

definition two_dirs :: FileSystem where
  "two_dirs = (initialize_file_system 512)
     \<lparr>root_dir := dir_entry ''A'' 0 # dir_entry ''B'' 1 # replicate 222 zero_entry,
      fat := replicate 2 0xFFF @ replicate 8190 0\<rparr>"

lemma two_dirs_wf: "image_wf two_dirs"
proof -
  have "entry_wf (dir_entry ''A'' 0)" "entry_wf (dir_entry ''B'' 1)"
    by (simp_all add: entry_wf_def dir_entry_def zero_entry_def is_dir_def MAX_FILENAME_def numeral_eq_Suc)
  moreover have "first_block (dir_entry ''A'' 0) = 0" "first_block (dir_entry ''B'' 1) = 1"
    by (simp_all add: first_block_def dir_entry_def)
  moreover have "allocated two_dirs = 2"
    unfolding two_dirs_def by (rule allocated_replicate)
  ultimately show ?thesis
    unfolding image_wf_def
    by (auto simp: two_dirs_def initialize_file_system_def Let_def entries_def zero_entry_wf block_count
      ROOT_ENTRIES_def ENTRY_BYTES_def)
qed

lemma dir_entry_text: "nul_free dn \<Longrightarrow> length dn < 8 \<Longrightarrow> filename_text (dir_entry dn b) = dn"
  using c_str_strncpy [of dn 8]
  by (simp add: filename_text_def dir_entry_def MAX_FILENAME_def) (simp add: c_strncpy_def)

lemma two_dirs_find: "find_directory two_dirs ''B'' = Found (DataBlock 1)"
proof -
  have root: "entry_at two_dirs RootDir 0 = Some (dir_entry ''A'' 0)"
    "entry_at two_dirs RootDir 1 = Some (dir_entry ''B'' 1)"
    by (simp_all add: two_dirs_def)
  have "find_directory two_dirs ''B'' = Found (DataBlock (first_block (dir_entry ''B'' 1)))"
  proof (rule walk_one [of _ 1])
    show "\<exists>e'. entry_at two_dirs RootDir k = Some e' \<and> c_strcmp (filename_text e') ''B'' \<noteq> 0" if "k < 1" for k
      using that root by (simp add: dir_entry_text del: entry_at.simps)
  qed (use root in \<open>simp_all add: dir_entry_text backslash_def ROOT_ENTRIES_def is_dir_def del: entry_at.simps\<close>,
      simp_all add: dir_entry_def)
  then show ?thesis by (simp add: first_block_def dir_entry_def)
qed

theorem mkdir_shows_in_sibling_witness:
  "\<exists>fs' j new. create_directory noon ''B'' ''X'' two_dirs = Some (fs', Created ''B'' ''X'') \<and>
     j < ROOT_ENTRIES \<and> entry_at fs' (DataBlock 0) j = Some new \<and> is_dir new \<and>
     filename new = c_strncpy MAX_FILENAME ''X''"
proof -
  have slot: "entry_at two_dirs (DataBlock (Suc 0)) 0 = Some zero_entry"
    by (simp add: two_dirs_def initialize_file_system_def Let_def block_count ENTRY_BYTES_def)
  then have "first_entry two_dirs (DataBlock (Suc 0)) (\<lambda>e. \<not> is_used e) 0 ROOT_ENTRIES = Some (Some 0)"
    by (intro first_entry_at [of _ _ _ _ _ zero_entry]) (simp_all add: zero_entry_wf ROOT_ENTRIES_def)
  from create_made [OF _ this slot, of "''B''" noon "''X''"] two_dirs_find obtain fs' where
    c: "create_directory noon ''B'' ''X'' two_dirs = Some (fs', Created ''B'' ''X'')"
    by auto
  from mkdir_shows_in_sibling [OF two_dirs_wf _ c slot] two_dirs_find c show ?thesis
    by (auto simp: zero_entry_wf simp del: entry_at.simps)
qed

text \<open>\<open>rmdir\<close> in the root neither looks at the contents of the directory nor gives anything back:
  whatever the data region holds, the verdict is the same, and the data region and the FAT are
  left as they were, so a directory that is not empty is removed and its blocks stay occupied.\<close>

theorem rmdir_ignores_contents:
  "map_option (\<lambda>(fs', m). (root_dir fs', fs_data fs', fat fs', m))
     (remove_directory backslash dn (fs\<lparr>fs_data := contents\<rparr>)) =
   map_option (\<lambda>(fs', m). (root_dir fs', contents, fat fs, m)) (remove_directory backslash dn fs)"
proof -
  have at: "entry_at (fs\<lparr>fs_data := contents\<rparr>) RootDir k = entry_at fs RootDir k" for k by simp
  have "blocks_removal (fs\<lparr>fs_data := contents\<rparr>) RootDir i = blocks_removal fs RootDir i" for i
    by (auto simp: blocks_removal_def fun_eq_iff)
  then show ?thesis
    by (simp add: remove_directory_def first_entry_cong [OF at] split: option.split)
qed

end
