(* ===== verification/Pide_Orders.thy ===== *)
theory Pide_Orders
  imports C_Library
begin

text \<open>
  The order message of the pide shop (sys07): the text \<open>client.c\<close> sends for one customer, and the
  \<open>sscanf\<close> with which \<open>handle_client\<close> of \<open>server.c\<close> reads the location out of it.
\<close>

subsection \<open>sscanf\<close>

text \<open>
  The directives of a format: a literal character, white space (any amount in the input), \<open>%d\<close>
  and \<open>%*d\<close>. The numbers go through \<open>strtol\<close> and are stored in an \<open>int\<close>.
\<close>

datatype directive = Lit char | Space | ReadInt | SkipInt

definition scan_int :: "string \<Rightarrow> (int \<times> string) option" where
  "scan_int s =
     (let s1 = dropWhile is_space s;
          neg = (s1 \<noteq> [] \<and> hd s1 = CHR ''-'');
          s2 = (if s1 \<noteq> [] \<and> (hd s1 = CHR ''-'' \<or> hd s1 = CHR ''+'') then tl s1 else s1);
          ds = takeWhile is_digit s2;
          v = digits_value ds
      in if ds = [] then None
         else Some (signed_take_bit 31 (clamp_long (if neg then - v else v)), dropWhile is_digit s2))"

text \<open>The values assigned up to the first directive that does not match.\<close>

fun c_sscanf :: "directive list \<Rightarrow> string \<Rightarrow> int list" where
  "c_sscanf [] s = []"
| "c_sscanf (Lit c # ds) [] = []"
| "c_sscanf (Lit c # ds) (x # xs) = (if x = c then c_sscanf ds xs else [])"
| "c_sscanf (Space # ds) s = c_sscanf ds (dropWhile is_space s)"
| "c_sscanf (ReadInt # ds) s =
     (case scan_int s of None \<Rightarrow> [] | Some (v, r) \<Rightarrow> v # c_sscanf ds r)"
| "c_sscanf (SkipInt # ds) s =
     (case scan_int s of None \<Rightarrow> [] | Some (v, r) \<Rightarrow> c_sscanf ds r)"

definition text_format :: "string \<Rightarrow> directive list" where
  "text_format s = map (\<lambda>c. if c = CHR '' '' then Space else Lit c) s"

definition order_format :: "directive list" where
  "order_format =
     text_format ''Order from client '' @ [SkipInt] @ text_format '' at location ('' @ [ReadInt] @
     text_format '', '' @ [ReadInt] @ text_format '')''"

text \<open>\<open>MAX_BUFFER\<close> is 1024; the coordinates are 0 where \<open>sscanf\<close> assigns none.\<close>

definition parse_order :: "string \<Rightarrow> int \<times> int" where
  "parse_order buffer =
     (case c_sscanf order_format buffer of
        [] \<Rightarrow> (0, 0)
      | [x] \<Rightarrow> (x, 0)
      | x # y # _ \<Rightarrow> (x, y))"

definition order_message :: "int \<Rightarrow> int \<Rightarrow> int \<Rightarrow> string" where
  "order_message i x y =
     c_snprintf 1024 (''Order from client '' @ c_show_int i @ '' at location ('' @ c_show_int x @
       '', '' @ c_show_int y @ '')'')"

subsection \<open>Reading back a printed number\<close>

lemma scan_int_shown:
  assumes "is_int v" "rest = [] \<or> \<not> is_digit (hd rest)"
  shows "scan_int (c_show_int v @ rest) = Some (v, rest)"
proof (cases "v < 0")
  case True
  with assms show ?thesis
    by (simp add: scan_int_def c_show_int_def Let_def minus_facts dec_digits_span dec_digits_nonempty
      digits_value_dec_digits narrow_int)
next
  case False
  obtain c cs where c: "dec_digits (nat v) = c # cs"
    using dec_digits_nonempty [of "nat v"] by (cases "dec_digits (nat v)") auto
  then have "is_digit c" using dec_digits_digits [of c "nat v"] by simp
  then have "dropWhile is_space (dec_digits (nat v) @ rest) = dec_digits (nat v) @ rest"
    "hd (dec_digits (nat v) @ rest) \<noteq> CHR ''-''" "hd (dec_digits (nat v) @ rest) \<noteq> CHR ''+''"
    using digit_not_space digit_not_sign by (simp_all add: c)
  with False assms show ?thesis
    by (simp add: scan_int_def c_show_int_def Let_def dec_digits_span dec_digits_nonempty
      digits_value_dec_digits narrow_int)
qed

lemma parse_order_message:
  assumes "is_int i" "is_int x" "is_int y"
  shows "parse_order (order_message i x y) = (x, y)"
proof -
  let ?m = "''Order from client '' @ c_show_int i @ '' at location ('' @ c_show_int x @
       '', '' @ c_show_int y @ '')''"
  have "length ?m < 1024" using assms [THEN length_shown] by simp
  then have m: "order_message i x y = ?m" unfolding order_message_def by (rule c_snprintf_short)
  have digits: "\<not> is_digit CHR '' ''" "\<not> is_digit CHR '',''" "\<not> is_digit CHR '')''"
    by (simp_all add: is_digit_def)
  have sp: "is_space CHR '' ''" "\<not> is_space CHR ''f''" "\<not> is_space CHR ''c''" "\<not> is_space CHR ''a''"
      "\<not> is_space CHR ''l''" "\<not> is_space CHR ''(''"
    by (simp_all add: is_space_def)
  have "c_sscanf order_format ?m = [x, y]"
    using assms by (simp add: order_format_def text_format_def scan_int_shown shown_no_space digits sp)
  then show ?thesis unfolding m parse_order_def by simp
qed

text \<open>The location survives the way from \<open>client.c\<close> to the order table: for all \<open>int\<close> values, the
  message built for customer \<open>i\<close> at \<open>(x, y)\<close> is read back by \<open>handle_client\<close> as \<open>(x, y)\<close>.\<close>

theorem order_roundtrip:
  assumes "is_int i" "is_int x" "is_int y"
  shows "parse_order (order_message i x y) = (x, y)"
  using assms by (rule parse_order_message)

theorem order_roundtrip_witness:
  "parse_order (order_message 7 (-12) 2147483647) = (-12, 2147483647)"
  by (rule order_roundtrip) (simp_all add: is_int_def)

end
