(* ===== verification/Pide_Shop.thy ===== *)
theory Pide_Shop
  imports Pide_Orders Transition_Systems
begin

text \<open>
  The server of the pide shop (sys07, \<open>server.c\<close>): the order table, the cooks, the delivery
  persons and the connections, as a machine whose steps are the critical sections of
  \<open>orders_mutex\<close>. All threads wait on the one condition variable \<open>orders_cond\<close>. The id of a cook
  or of a delivery person is its index, the list \<open>deliveries\<close> is the array up to
  \<open>delivery_count\<close>, and \<open>order_count\<close> bounds the part of the table in use.
\<close>

subsection \<open>State\<close>

definition MAX_ORDERS :: nat where "MAX_ORDERS = 100"
definition MAX_COOKS :: nat where "MAX_COOKS = 10"
definition MAX_DELIVERIES :: nat where "MAX_DELIVERIES = 10"
definition MAX_DELIVERY_CAPACITY :: nat where "MAX_DELIVERY_CAPACITY = 3"

record order =
  o_id :: nat
  is_being_prepared :: bool
  is_in_oven :: bool
  is_ready :: bool
  is_delivered :: bool
  cancelled :: bool
  location :: "int \<times> int"
  delivery_person_id :: int

datatype cook_pc =
    CHead           \<comment> \<open>about to lock at the top of the loop\<close>
  | CWait
  | CWork nat       \<comment> \<open>unlocked, busy with the order of this index\<close>

record cook =
  c_busy :: bool
  c_pc :: cook_pc

datatype delivery_pc =
    DHead
  | DWait
  | DCarry nat      \<comment> \<open>in the loop over the deliveries, the next index\<close>

record delivery_person =
  d_busy :: bool
  deliveries :: "nat list"
  d_pc :: delivery_pc

text \<open>
  \<open>handlers\<close> are the connections whose thread has not yet read its message; \<open>notices\<close> records the
  descriptors the message \<open>All orders delivered\<close> was written to.
\<close>

record shop =
  orders :: "order list"
  order_count :: nat
  delivered_count :: nat
  cooks :: "cook list"
  delivery_persons :: "delivery_person list"
  client_gen_socket :: int
  handlers :: "int list"
  notices :: "int list"

definition blank_order :: order where
  "blank_order = \<lparr>o_id = 0, is_being_prepared = False, is_in_oven = False, is_ready = False,
     is_delivered = False, cancelled = False, location = (0, 0), delivery_person_id = 0\<rparr>"

text \<open>The start of \<open>main\<close>: the pools; \<open>None\<close> is an access beyond the arrays \<open>cooks\<close> or \<open>delivery_persons\<close>.\<close>

definition shop_init :: "nat \<Rightarrow> nat \<Rightarrow> shop option" where
  "shop_init cook_pool_size delivery_pool_size =
     (if cook_pool_size > MAX_COOKS \<or> delivery_pool_size > MAX_DELIVERIES then None
      else Some \<lparr>orders = replicate MAX_ORDERS blank_order, order_count = 0, delivered_count = 0,
                 cooks = replicate cook_pool_size \<lparr>c_busy = False, c_pc = CHead\<rparr>,
                 delivery_persons = replicate delivery_pool_size
                   \<lparr>d_busy = False, deliveries = [], d_pc = DHead\<rparr>,
                 client_gen_socket = 0, handlers = [], notices = []\<rparr>)"

subsection \<open>The condition variable\<close>

fun wake_cook :: "cook \<Rightarrow> cook" where
  "wake_cook c = (if c_pc c = CWait then c\<lparr>c_pc := CHead\<rparr> else c)"

fun wake_person :: "delivery_person \<Rightarrow> delivery_person" where
  "wake_person p = (if d_pc p = DWait then p\<lparr>d_pc := DHead\<rparr> else p)"

declare wake_cook.simps [simp del] wake_person.simps [simp del]

definition broadcast :: "shop \<Rightarrow> shop" where
  "broadcast s = s\<lparr>cooks := map wake_cook (cooks s),
                   delivery_persons := map wake_person (delivery_persons s)\<rparr>"

text \<open>\<open>pthread_cond_signal\<close>: any one of the waiting threads, cook or delivery person.\<close>

definition signal_choices :: "shop \<Rightarrow> shop list" where
  "signal_choices s =
     (let cs = filter (\<lambda>j. c_pc (cooks s ! j) = CWait) [0..<length (cooks s)];
          ps = filter (\<lambda>j. d_pc (delivery_persons s ! j) = DWait) [0..<length (delivery_persons s)]
      in if cs = [] \<and> ps = [] then [s]
         else map (\<lambda>j. s\<lparr>cooks := (cooks s)[j := (cooks s ! j)\<lparr>c_pc := CHead\<rparr>]\<rparr>) cs @
              map (\<lambda>j. s\<lparr>delivery_persons :=
                     (delivery_persons s)[j := (delivery_persons s ! j)\<lparr>d_pc := DHead\<rparr>]\<rparr>) ps)"

subsection \<open>Connections\<close>

text \<open>\<open>accept\<close> in \<open>main\<close>: the first connection of a session is taken for the client generator.\<close>

definition accept_client :: "int \<Rightarrow> shop \<Rightarrow> shop" where
  "accept_client fd s =
     s\<lparr>client_gen_socket := (if client_gen_socket s = 0 then fd else client_gen_socket s),
       handlers := handlers s @ [fd]\<rparr>"

text \<open>\<open>handle_client\<close> up to the signal; the boolean says whether there is one.\<close>

definition new_order :: "nat \<Rightarrow> int \<times> int \<Rightarrow> order" where
  "new_order i loc = \<lparr>o_id = i, is_being_prepared = False, is_in_oven = False, is_ready = False,
     is_delivered = False, cancelled = False, location = loc, delivery_person_id = -1\<rparr>"

definition handle_client :: "string \<Rightarrow> shop \<Rightarrow> shop list" where
  "handle_client buffer s =
     (if order_count s < MAX_ORDERS
      then signal_choices
             (s\<lparr>orders := (orders s)[order_count s := new_order (order_count s) (parse_order buffer)],
                order_count := order_count s + 1\<rparr>)
      else [s])"

subsection \<open>cook_function\<close>

definition wants_cook :: "order \<Rightarrow> bool" where
  "wants_cook x = (\<not> is_being_prepared x \<and> \<not> is_in_oven x \<and> \<not> is_ready x \<and> \<not> is_delivered x \<and>
                   \<not> cancelled x)"

definition cook_lock :: "nat \<Rightarrow> shop \<Rightarrow> shop" where
  "cook_lock j s =
     (case find (\<lambda>i. wants_cook (orders s ! i)) [0..<order_count s] of
        None \<Rightarrow> s\<lparr>cooks := (cooks s)[j := (cooks s ! j)\<lparr>c_pc := CWait\<rparr>]\<rparr>
      | Some i \<Rightarrow>
          s\<lparr>orders := (orders s)[i := (orders s ! i)\<lparr>is_being_prepared := True\<rparr>],
            cooks := (cooks s)[j := \<lparr>c_busy = True, c_pc = CWork i\<rparr>]\<rparr>)"

definition cook_done :: "nat \<Rightarrow> nat \<Rightarrow> shop \<Rightarrow> shop" where
  "cook_done i j s =
     broadcast
       (s\<lparr>orders := (orders s)[i := (orders s ! i)\<lparr>is_ready := True, is_in_oven := False\<rparr>],
          cooks := (cooks s)[j := \<lparr>c_busy = False, c_pc = CHead\<rparr>]\<rparr>)"

subsection \<open>delivery_function\<close>

definition wants_delivery :: "order \<Rightarrow> bool" where
  "wants_delivery x = (is_ready x \<and> \<not> is_delivered x \<and> \<not> cancelled x \<and> delivery_person_id x = -1)"

text \<open>The loop that collects orders, from the index list that is left.\<close>

fun collect :: "nat \<Rightarrow> nat list \<Rightarrow> order list \<times> delivery_person \<Rightarrow> order list \<times> delivery_person" where
  "collect j [] (xs, p) = (xs, p)"
| "collect j (i # is) (xs, p) =
     (if wants_delivery (xs ! i) \<and> \<not> d_busy p
      then let xs' = xs[i := (xs ! i)\<lparr>delivery_person_id := int j\<rparr>];
               p' = p\<lparr>deliveries := deliveries p @ [o_id (xs ! i)]\<rparr>
           in if length (deliveries p') = MAX_DELIVERY_CAPACITY then (xs', p')
              else collect j is (xs', p')
      else collect j is (xs, p))"

definition delivery_lock :: "nat \<Rightarrow> shop \<Rightarrow> shop" where
  "delivery_lock j s =
     (let (xs, p) = collect j [0..<order_count s] (orders s, delivery_persons s ! j);
          p' = (if 0 < length (deliveries p) then p\<lparr>d_busy := True, d_pc := DCarry 0\<rparr>
                else p\<lparr>d_pc := DWait\<rparr>)
      in s\<lparr>orders := xs, delivery_persons := (delivery_persons s)[j := p']\<rparr>)"

text \<open>\<open>check_and_notify_all_delivered\<close>.\<close>

definition check_and_notify_all_delivered :: "shop \<Rightarrow> shop" where
  "check_and_notify_all_delivered s =
     (if delivered_count s = order_count s
      then s\<lparr>notices := notices s @ [client_gen_socket s], client_gen_socket := 0,
             delivered_count := 0, order_count := 0\<rparr>
      else s)"

text \<open>One call of \<open>deliver_order\<close>, for the delivery of index \<open>k\<close>.\<close>

definition deliver_order :: "nat \<Rightarrow> nat \<Rightarrow> shop \<Rightarrow> shop" where
  "deliver_order k j s =
     (let p = delivery_persons s ! j; i = deliveries p ! k in
      check_and_notify_all_delivered
        (s\<lparr>orders := (orders s)[i := (orders s ! i)\<lparr>is_delivered := True\<rparr>],
           delivered_count := delivered_count s + 1,
           delivery_persons := (delivery_persons s)[j := p\<lparr>d_pc := DCarry (Suc k)\<rparr>]\<rparr>))"

definition delivery_return :: "nat \<Rightarrow> shop \<Rightarrow> shop" where
  "delivery_return j s =
     broadcast
       (s\<lparr>delivery_persons := (delivery_persons s)[j := \<lparr>d_busy = False, deliveries = [], d_pc = DHead\<rparr>]\<rparr>)"

subsection \<open>The steps\<close>

inductive shop_thread :: "shop \<Rightarrow> shop \<Rightarrow> bool" where
  cook_lock: "j < length (cooks s) \<Longrightarrow> c_pc (cooks s ! j) = CHead \<Longrightarrow> shop_thread s (cook_lock j s)"
| cook_done: "j < length (cooks s) \<Longrightarrow> c_pc (cooks s ! j) = CWork i \<Longrightarrow>
    shop_thread s (cook_done i j s)"
| delivery_lock: "j < length (delivery_persons s) \<Longrightarrow> d_pc (delivery_persons s ! j) = DHead \<Longrightarrow>
    shop_thread s (delivery_lock j s)"
| deliver: "j < length (delivery_persons s) \<Longrightarrow> d_pc (delivery_persons s ! j) = DCarry k \<Longrightarrow>
    k < length (deliveries (delivery_persons s ! j)) \<Longrightarrow> shop_thread s (deliver_order k j s)"
| return: "j < length (delivery_persons s) \<Longrightarrow> d_pc (delivery_persons s ! j) = DCarry k \<Longrightarrow>
    k = length (deliveries (delivery_persons s ! j)) \<Longrightarrow> shop_thread s (delivery_return j s)"

text \<open>The clients, and the wakeups without a signal that POSIX allows.\<close>

inductive shop_outside :: "shop \<Rightarrow> shop \<Rightarrow> bool" where
  accept: "shop_outside s (accept_client fd s)"
| receive: "fd \<in> set (handlers s) \<Longrightarrow>
    t \<in> set (handle_client buffer (s\<lparr>handlers := remove1 fd (handlers s)\<rparr>)) \<Longrightarrow> shop_outside s t"
| spurious_cook: "j < length (cooks s) \<Longrightarrow> c_pc (cooks s ! j) = CWait \<Longrightarrow>
    shop_outside s (s\<lparr>cooks := (cooks s)[j := (cooks s ! j)\<lparr>c_pc := CHead\<rparr>]\<rparr>)"
| spurious_person: "j < length (delivery_persons s) \<Longrightarrow> d_pc (delivery_persons s ! j) = DWait \<Longrightarrow>
    shop_outside s (s\<lparr>delivery_persons :=
      (delivery_persons s)[j := (delivery_persons s ! j)\<lparr>d_pc := DHead\<rparr>]\<rparr>)"

definition shop_step :: "shop \<Rightarrow> shop \<Rightarrow> bool" where
  "shop_step s t = (shop_thread s t \<or> shop_outside s t)"

definition shop_start :: "nat \<Rightarrow> nat \<Rightarrow> shop \<Rightarrow> bool" where
  "shop_start nc nd s = (shop_init nc nd = Some s)"

end
