(* ===== verification/Pide_Invariants.thy ===== *)
theory Pide_Invariants
  imports Pide_Shop
begin

text \<open>
  The invariant of the pide shop: the order table is consistent, the orders the cooks work on are
  exactly those being prepared and not ready, the deliveries the delivery persons still have to
  make are exactly the orders assigned and not delivered, and \<open>delivered_count\<close> counts the
  delivered orders of the session.
\<close>

subsection \<open>The orders of the table with a property\<close>

definition sel :: "nat \<Rightarrow> ('a \<Rightarrow> bool) \<Rightarrow> 'a list \<Rightarrow> nat set" where
  "sel n P xs = {k. k < n \<and> P (xs ! k)}"

lemma finite_sel [simp]: "finite (sel n P xs)"
  by (simp add: sel_def)

lemma sel_0 [simp]: "sel 0 P xs = {}"
  by (simp add: sel_def)

lemma sel_update:
  "i < n \<Longrightarrow> n \<le> length xs \<Longrightarrow>
   sel n P (xs[i := y]) = (if P y then insert i (sel n P xs) else sel n P xs - {i})"
  by (auto simp: sel_def nth_list_update)

lemma sel_same: "P y = P (xs ! i) \<Longrightarrow> i < length xs \<Longrightarrow> sel n P (xs[i := y]) = sel n P xs"
  by (auto simp: sel_def nth_list_update)

lemma sel_beyond: "n \<le> i \<Longrightarrow> sel n P (xs[i := y]) = sel n P xs"
  by (auto simp: sel_def nth_list_update)

lemma sel_Suc: "sel (Suc n) P xs = (if P (xs ! n) then insert n (sel n P xs) else sel n P xs)"
  by (auto simp: sel_def less_Suc_eq)

subsection \<open>The table\<close>

definition being_cooked :: "order \<Rightarrow> bool" where
  "being_cooked x = (is_being_prepared x \<and> \<not> is_ready x)"

definition on_the_way :: "order \<Rightarrow> bool" where
  "on_the_way x = (delivery_person_id x \<noteq> -1 \<and> \<not> is_delivered x)"

definition order_ok :: "nat \<Rightarrow> nat \<Rightarrow> order \<Rightarrow> bool" where
  "order_ok nd i x =
     (o_id x = i \<and> \<not> cancelled x \<and> \<not> is_in_oven x \<and> (is_ready x \<longrightarrow> is_being_prepared x) \<and>
      (delivery_person_id x \<noteq> -1 \<longrightarrow> is_ready x \<and> 0 \<le> delivery_person_id x \<and>
         delivery_person_id x < int nd) \<and>
      (is_delivered x \<longrightarrow> delivery_person_id x \<noteq> -1))"

definition table_ok :: "nat \<Rightarrow> nat \<Rightarrow> nat \<Rightarrow> order list \<Rightarrow> bool" where
  "table_ok nd n dc xs =
     (length xs = MAX_ORDERS \<and> n \<le> MAX_ORDERS \<and> (\<forall>i < n. order_ok nd i (xs ! i)) \<and>
      dc = card (sel n is_delivered xs))"

lemma table_update:
  assumes "table_ok nd n dc xs" "i < n" "order_ok nd i y" "is_delivered y = is_delivered (xs ! i)"
  shows "table_ok nd n dc (xs[i := y])"
  using assms by (auto simp: table_ok_def sel_same nth_list_update)

subsection \<open>The cooks\<close>

definition cook_item :: "cook \<Rightarrow> nat multiset" where
  "cook_item c = (case c_pc c of CWork i \<Rightarrow> {#i#} | _ \<Rightarrow> {#})"

definition cook_ok :: "cook \<Rightarrow> bool" where
  "cook_ok c = (c_busy c = (\<exists>i. c_pc c = CWork i))"

definition cooks_ok :: "nat \<Rightarrow> order list \<Rightarrow> cook list \<Rightarrow> bool" where
  "cooks_ok n xs cs =
     (gather cook_item cs = mset_set (sel n being_cooked xs) \<and> (\<forall>c \<in> set cs. cook_ok c))"

lemma cook_item_simps [simp]:
  "cook_item \<lparr>c_busy = b, c_pc = CHead\<rparr> = {#}" "cook_item \<lparr>c_busy = b, c_pc = CWork i\<rparr> = {#i#}"
  "cook_item (c\<lparr>c_pc := CWait\<rparr>) = {#}" "cook_item (c\<lparr>c_pc := CHead\<rparr>) = {#}"
  by (simp_all add: cook_item_def)

lemma wake_cook_item [simp]: "cook_item (wake_cook c) = cook_item c" "cook_ok (wake_cook c) = cook_ok c"
  by (auto simp: cook_item_def cook_ok_def wake_cook.simps)

lemma cooks_wake: "cooks_ok n xs (map wake_cook cs) = cooks_ok n xs cs"
  by (simp add: cooks_ok_def gather_map)

lemma cooks_update:
  assumes "cooks_ok n xs cs" "j < length cs" "cook_ok c"
    and "mset_set (sel n being_cooked xs') + cook_item (cs ! j) =
         mset_set (sel n being_cooked xs) + cook_item c"
  shows "cooks_ok n xs' (cs[j := c])"
proof -
  have "gather cook_item (cs[j := c]) + cook_item (cs ! j) = gather cook_item cs + cook_item c"
    by (rule gather_update [OF assms(2)])
  with assms(1,4) have "gather cook_item (cs[j := c]) = mset_set (sel n being_cooked xs')"
    by (simp add: cooks_ok_def) (metis add_right_cancel)
  with assms(1,3) show ?thesis by (auto simp: cooks_ok_def dest: in_update_D)
qed

lemma cook_in_table:
  assumes "cooks_ok n xs cs" "j < length cs" "c_pc (cs ! j) = CWork i"
  shows "i < n" "being_cooked (xs ! i)"
proof -
  have "i \<in># cook_item (cs ! j)" using assms(3) by (simp add: cook_item_def)
  with assms(2) have "i \<in># gather cook_item cs" by (rule nth_in_gather)
  with assms(1) show "i < n" "being_cooked (xs ! i)" by (auto simp: cooks_ok_def sel_def)
qed

subsection \<open>The delivery persons\<close>

definition pending :: "delivery_person \<Rightarrow> nat multiset" where
  "pending p = (case d_pc p of DCarry k \<Rightarrow> mset (drop k (deliveries p)) | _ \<Rightarrow> {#})"

definition person_ok :: "order list \<Rightarrow> nat \<Rightarrow> delivery_person \<Rightarrow> bool" where
  "person_ok xs j p =
     ((case d_pc p of
         DCarry k \<Rightarrow> d_busy p \<and> k \<le> length (deliveries p) \<and> 0 < length (deliveries p) \<and>
           length (deliveries p) \<le> MAX_DELIVERY_CAPACITY
       | _ \<Rightarrow> \<not> d_busy p \<and> deliveries p = []) \<and>
      (\<forall>i \<in># pending p. delivery_person_id (xs ! i) = int j))"

definition persons_ok :: "nat \<Rightarrow> order list \<Rightarrow> delivery_person list \<Rightarrow> bool" where
  "persons_ok n xs ps =
     (gather pending ps = mset_set (sel n on_the_way xs) \<and> (\<forall>j < length ps. person_ok xs j (ps ! j)))"

lemma pending_simps [simp]:
  "pending \<lparr>d_busy = b, deliveries = ds, d_pc = DHead\<rparr> = {#}" "pending (p\<lparr>d_pc := DHead\<rparr>) = {#}"
  "pending (p\<lparr>d_pc := DWait\<rparr>) = {#}" "pending (p\<lparr>d_pc := DCarry k\<rparr>) = mset (drop k (deliveries p))"
  by (simp_all add: pending_def)

lemma wake_person_pending [simp]:
  "pending (wake_person p) = pending p" "person_ok xs j (wake_person p) = person_ok xs j p"
  by (auto simp: pending_def person_ok_def wake_person.simps split: delivery_pc.splits)

lemma persons_wake: "persons_ok n xs (map wake_person ps) = persons_ok n xs ps"
  by (simp add: persons_ok_def gather_map)

lemma person_in_table:
  assumes "persons_ok n xs ps" "j < length ps" "i \<in># pending (ps ! j)"
  shows "i < n" "on_the_way (xs ! i)"
proof -
  have "i \<in># gather pending ps" using assms(2,3) by (rule nth_in_gather)
  with assms(1) show "i < n" "on_the_way (xs ! i)" by (auto simp: persons_ok_def sel_def)
qed

text \<open>A person changes, and the table changes only in ways that keep the assignments.\<close>

lemma persons_update:
  assumes "persons_ok n xs ps" "j < length ps" "person_ok xs' j p"
    and "mset_set (sel n on_the_way xs') + pending (ps ! j) =
         mset_set (sel n on_the_way xs) + pending p"
    and "\<And>i. i < n \<Longrightarrow> on_the_way (xs ! i) \<Longrightarrow> delivery_person_id (xs' ! i) = delivery_person_id (xs ! i)"
  shows "persons_ok n xs' (ps[j := p])"
proof -
  have "gather pending (ps[j := p]) + pending (ps ! j) = gather pending ps + pending p"
    by (rule gather_update [OF assms(2)])
  with assms(1,4) have "gather pending (ps[j := p]) = mset_set (sel n on_the_way xs')"
    by (simp add: persons_ok_def) (metis add_right_cancel)
  moreover have "person_ok xs' m (ps ! m)" if "m < length ps" for m
    using assms(1) that person_in_table [OF assms(1) that] assms(5)
    by (auto simp: persons_ok_def person_ok_def)
  ultimately show ?thesis using assms(2,3) by (auto simp: persons_ok_def nth_list_update)
qed

lemma persons_table:
  assumes "persons_ok n xs ps" "sel n on_the_way xs' = sel n on_the_way xs"
    and "\<And>i. i < n \<Longrightarrow> on_the_way (xs ! i) \<Longrightarrow> delivery_person_id (xs' ! i) = delivery_person_id (xs ! i)"
  shows "persons_ok n xs' ps"
  using assms person_in_table [OF assms(1)]
  by (auto simp: persons_ok_def person_ok_def)

subsection \<open>The invariant\<close>

definition shop_inv :: "nat \<Rightarrow> nat \<Rightarrow> shop \<Rightarrow> bool" where
  "shop_inv nc nd s =
     (table_ok nd (order_count s) (delivered_count s) (orders s) \<and>
      cooks_ok (order_count s) (orders s) (cooks s) \<and>
      persons_ok (order_count s) (orders s) (delivery_persons s) \<and>
      length (cooks s) = nc \<and> length (delivery_persons s) = nd)"

lemma shop_start_inv: "shop_start nc nd s \<Longrightarrow> shop_inv nc nd s"
proof -
  assume "shop_start nc nd s"
  moreover have "gather cook_item (replicate m \<lparr>c_busy = False, c_pc = CHead\<rparr>) = {#}"
    "gather pending (replicate m \<lparr>d_busy = False, deliveries = [], d_pc = DHead\<rparr>) = {#}" for m
    by (auto intro: gather_empty)
  ultimately show ?thesis
    by (auto simp: shop_start_def shop_init_def shop_inv_def table_ok_def cooks_ok_def persons_ok_def
      cook_ok_def person_ok_def split: if_splits)
qed

lemma broadcast_inv: "shop_inv nc nd (broadcast s) = shop_inv nc nd s"
  by (simp add: shop_inv_def broadcast_def cooks_wake persons_wake)

lemma cook_lock_inv:
  assumes inv: "shop_inv nc nd s" and j: "j < length (cooks s)" "c_pc (cooks s ! j) = CHead"
  shows "shop_inv nc nd (cook_lock j s)"
proof -
  let ?n = "order_count s" and ?xs = "orders s"
  have parts: "table_ok nd ?n (delivered_count s) ?xs" "cooks_ok ?n ?xs (cooks s)"
    "persons_ok ?n ?xs (delivery_persons s)" and len: "length (cooks s) = nc"
    "length (delivery_persons s) = nd"
    using inv by (auto simp: shop_inv_def)
  have idle: "cook_item (cooks s ! j) = {#}" "cook_ok (cooks s ! j)"
    using parts(2) j by (auto simp: cook_item_def cooks_ok_def)
  show ?thesis
  proof (cases "find (\<lambda>i. wants_cook (?xs ! i)) [0..<?n]")
    case None
    have "cook_ok ((cooks s ! j)\<lparr>c_pc := CWait\<rparr>)" using idle(2) j(2) by (simp add: cook_ok_def)
    from cooks_update [OF parts(2) j(1) this, of ?xs] idle None parts len show ?thesis
      by (simp add: cook_lock_def shop_inv_def)
  next
    case (Some i)
    then have i: "i < ?n" "wants_cook (?xs ! i)" by (auto simp: find_Some_iff)
    let ?y = "(?xs ! i)\<lparr>is_being_prepared := True\<rparr>"
    from parts(1) i have ok: "order_ok nd i (?xs ! i)" and il: "i < length ?xs" "?n \<le> length ?xs"
      by (auto simp: table_ok_def)
    then have "table_ok nd ?n (delivered_count s) (?xs[i := ?y])"
      by (intro table_update parts i) (simp_all add: order_ok_def)
    moreover have "sel ?n being_cooked (?xs[i := ?y]) = insert i (sel ?n being_cooked ?xs)"
      "i \<notin> sel ?n being_cooked ?xs"
      using i il by (auto simp: being_cooked_def wants_cook_def sel_def nth_list_update)
    then have "cooks_ok ?n (?xs[i := ?y]) ((cooks s)[j := \<lparr>c_busy = True, c_pc = CWork i\<rparr>])"
      by (intro cooks_update [OF parts(2) j(1)]) (simp_all add: idle cook_ok_def)
    moreover have "persons_ok ?n (?xs[i := ?y]) (delivery_persons s)"
      using il by (intro persons_table [OF parts(3)]) (auto simp: sel_same on_the_way_def nth_list_update)
    ultimately show ?thesis using Some len by (simp add: cook_lock_def shop_inv_def)
  qed
qed

lemma cook_done_inv:
  assumes inv: "shop_inv nc nd s" and j: "j < length (cooks s)" "c_pc (cooks s ! j) = CWork i"
  shows "shop_inv nc nd (cook_done i j s)"
proof -
  let ?n = "order_count s" and ?xs = "orders s"
  let ?y = "(?xs ! i)\<lparr>is_ready := True, is_in_oven := False\<rparr>"
  have parts: "table_ok nd ?n (delivered_count s) ?xs" "cooks_ok ?n ?xs (cooks s)"
    "persons_ok ?n ?xs (delivery_persons s)" and len: "length (cooks s) = nc"
    "length (delivery_persons s) = nd"
    using inv by (auto simp: shop_inv_def)
  note i = cook_in_table [OF parts(2) j]
  from parts(1) i have ok: "order_ok nd i (?xs ! i)" and il: "i < length ?xs" "?n \<le> length ?xs"
    by (auto simp: table_ok_def)
  have "table_ok nd ?n (delivered_count s) (?xs[i := ?y])"
    using ok i by (intro table_update parts) (auto simp: order_ok_def being_cooked_def)
  moreover have "sel ?n being_cooked (?xs[i := ?y]) = sel ?n being_cooked ?xs - {i}"
    "i \<in> sel ?n being_cooked ?xs"
    using i il by (auto simp: being_cooked_def sel_def nth_list_update)
  then have "cooks_ok ?n (?xs[i := ?y]) ((cooks s)[j := \<lparr>c_busy = False, c_pc = CHead\<rparr>])"
    using j(2) by (intro cooks_update [OF parts(2) j(1)])
      (simp_all add: cook_ok_def cook_item_def mset_set.remove)
  moreover have "persons_ok ?n (?xs[i := ?y]) (delivery_persons s)"
    using il by (intro persons_table [OF parts(3)]) (auto simp: sel_same on_the_way_def nth_list_update)
  ultimately show ?thesis using len by (simp add: cook_done_def broadcast_inv) (simp add: shop_inv_def)
qed

subsection \<open>Collecting deliveries\<close>

text \<open>The orders collected (\<open>ts\<close>), and the table with just these assigned.\<close>

lemma collect_effect:
  assumes "collect j is (xs, p) = (xs', p')" "distinct is" "\<not> d_busy p"
    and "\<And>i. i \<in> set is \<Longrightarrow> i < length xs \<and> o_id (xs ! i) = i"
    and "length (deliveries p) < MAX_DELIVERY_CAPACITY"
  shows "\<exists>ts. p' = p\<lparr>deliveries := deliveries p @ ts\<rparr> \<and> distinct ts \<and>
    set ts \<subseteq> {i \<in> set is. wants_delivery (xs ! i)} \<and>
    length (deliveries p @ ts) \<le> MAX_DELIVERY_CAPACITY \<and> length xs' = length xs \<and>
    (\<forall>i < length xs. xs' ! i =
       (if i \<in> set ts then (xs ! i)\<lparr>delivery_person_id := int j\<rparr> else xs ! i))"
  using assms
proof (induction "is" arbitrary: xs p)
  case Nil
  then show ?case by (intro exI [of _ "[]"]) (simp add: MAX_DELIVERY_CAPACITY_def)
next
  case (Cons i "is")
  let ?xs = "xs[i := (xs ! i)\<lparr>delivery_person_id := int j\<rparr>]"
  let ?p = "p\<lparr>deliveries := deliveries p @ [i]\<rparr>"
  have i: "i < length xs" "o_id (xs ! i) = i" "i \<notin> set is" "distinct is"
    using Cons.prems by auto
  consider (skip) "\<not> wants_delivery (xs ! i)"
    | (full) "wants_delivery (xs ! i)" "length (deliveries ?p) = MAX_DELIVERY_CAPACITY"
    | (more) "wants_delivery (xs ! i)" "length (deliveries ?p) \<noteq> MAX_DELIVERY_CAPACITY"
    by blast
  then show ?case
  proof cases
    case skip
    then have "collect j is (xs, p) = (xs', p')" using Cons.prems by simp
    from Cons.IH [OF this i(4)] Cons.prems show ?thesis by fastforce
  next
    case full
    then have "xs' = ?xs" "p' = ?p" using Cons.prems i by auto
    with full i show ?thesis by (intro exI [of _ "[i]"]) (auto simp: nth_list_update)
  next
    case more
    then have c: "collect j is (?xs, ?p) = (xs', p')" using Cons.prems i by (simp add: Let_def)
    have "o_id (?xs ! k) = k" "k < length ?xs" if "k \<in> set is" for k
      using Cons.prems(4) [of k] that i(1) by (cases "k = i"; simp add: nth_list_update)+
    from Cons.IH [OF c i(4)] this Cons.prems more obtain ts where
      ts: "p' = ?p\<lparr>deliveries := deliveries ?p @ ts\<rparr>" "distinct ts"
        "set ts \<subseteq> {k \<in> set is. wants_delivery (?xs ! k)}"
        "length (deliveries ?p @ ts) \<le> MAX_DELIVERY_CAPACITY" "length xs' = length xs"
        "\<forall>k < length xs. xs' ! k = (if k \<in> set ts then (?xs ! k)\<lparr>delivery_person_id := int j\<rparr> else ?xs ! k)"
      by auto
    have "set (i # ts) \<subseteq> {k \<in> set (i # is). wants_delivery (xs ! k)}"
      using ts(3) i more by (auto simp: nth_list_update split: if_splits)
    moreover have "distinct (i # ts)" using ts(2,3) i by auto
    ultimately show ?thesis using ts(1,4,5,6) i
      by (intro exI [of _ "i # ts"]) (auto simp: nth_list_update)
  qed
qed

lemma delivery_lock_inv:
  assumes inv: "shop_inv nc nd s"
    and j: "j < length (delivery_persons s)" "d_pc (delivery_persons s ! j) = DHead"
  shows "shop_inv nc nd (delivery_lock j s)"
proof -
  let ?n = "order_count s" and ?xs = "orders s" and ?p = "delivery_persons s ! j"
  have parts: "table_ok nd ?n (delivered_count s) ?xs" "cooks_ok ?n ?xs (cooks s)"
    "persons_ok ?n ?xs (delivery_persons s)" and len: "length (cooks s) = nc"
    "length (delivery_persons s) = nd"
    using inv by (auto simp: shop_inv_def)
  have idle: "\<not> d_busy ?p" "deliveries ?p = []" "pending ?p = {#}"
    using parts(3) j by (auto simp: persons_ok_def person_ok_def pending_def)
  obtain xs' p' where c: "collect j [0..<?n] (?xs, ?p) = (xs', p')" by fastforce
  have ids: "i < length ?xs \<and> o_id (?xs ! i) = i" if "i \<in> set [0..<?n]" for i
    using parts(1) that by (auto simp: table_ok_def order_ok_def)
  have "length (deliveries ?p) < MAX_DELIVERY_CAPACITY"
    using idle by (simp add: MAX_DELIVERY_CAPACITY_def)
  from collect_effect [OF c distinct_upt idle(1) ids this] obtain ts where
    ts: "p' = ?p\<lparr>deliveries := ts\<rparr>" "distinct ts" "set ts \<subseteq> {i. i < ?n \<and> wants_delivery (?xs ! i)}"
      "length ts \<le> MAX_DELIVERY_CAPACITY" "length xs' = length ?xs"
      "\<forall>i < length ?xs. xs' ! i =
         (if i \<in> set ts then (?xs ! i)\<lparr>delivery_person_id := int j\<rparr> else ?xs ! i)"
    using idle(2) by auto
  have il: "?n \<le> length ?xs" and ok: "\<And>i. i < ?n \<Longrightarrow> order_ok nd i (?xs ! i)"
    using parts(1) by (auto simp: table_ok_def)
  have xs': "xs' ! i = (if i \<in> set ts then (?xs ! i)\<lparr>delivery_person_id := int j\<rparr> else ?xs ! i)"
    if "i < ?n" for i using ts(6) il that by simp
  have same: "sel ?n P xs' = sel ?n P ?xs"
    if "\<And>x. P (x\<lparr>delivery_person_id := int j\<rparr>) = P x" for P
    using xs' that by (auto simp: sel_def split: if_splits)
  have "order_ok nd i (xs' ! i)" if "i < ?n" for i
    using ok [OF that] xs' [OF that] ts(3) j len
    by (auto simp: order_ok_def wants_delivery_def)
  moreover have "sel ?n is_delivered xs' = sel ?n is_delivered ?xs" by (rule same) simp
  ultimately have t: "table_ok nd ?n (delivered_count s) xs'"
    using parts(1) ts(5) by (simp add: table_ok_def)
  have "sel ?n being_cooked xs' = sel ?n being_cooked ?xs"
    by (rule same) (simp add: being_cooked_def)
  then have k: "cooks_ok ?n xs' (cooks s)" using parts(2) by (simp add: cooks_ok_def)
  have sel: "sel ?n on_the_way xs' = sel ?n on_the_way ?xs \<union> set ts"
    using xs' ts(3) by (fastforce simp: sel_def on_the_way_def wants_delivery_def split: if_splits)
  have disj: "sel ?n on_the_way ?xs \<inter> set ts = {}"
    using ts(3) by (auto simp: sel_def on_the_way_def wants_delivery_def)
  have mset_ts: "mset_set (sel ?n on_the_way xs') = mset_set (sel ?n on_the_way ?xs) + mset ts"
    unfolding sel using disj ts(2) by (simp add: mset_set_Union mset_set_set)
  have stay: "delivery_person_id (xs' ! i) = delivery_person_id (?xs ! i)"
    if "i < ?n" "on_the_way (?xs ! i)" for i
    using xs' [OF that(1)] that ts(3) by (auto simp: on_the_way_def wants_delivery_def)
  let ?q = "if 0 < length ts then p'\<lparr>d_busy := True, d_pc := DCarry 0\<rparr> else p'\<lparr>d_pc := DWait\<rparr>"
  have "person_ok xs' j ?q" "pending ?q = mset ts"
    using ts(1,3,4) idle xs' by (auto simp: person_ok_def pending_def)
  then have "persons_ok ?n xs' ((delivery_persons s)[j := ?q])"
    using mset_ts idle by (intro persons_update [OF parts(3) j(1) _ _ stay]) (simp_all add: idle)
  with t k len show ?thesis
    by (cases "ts = []") (simp_all add: delivery_lock_def c shop_inv_def ts(1) Let_def)
qed

subsection \<open>Delivering\<close>

text \<open>When the counters meet, everything in the table is delivered and nobody holds an order.\<close>

lemma all_delivered:
  assumes "table_ok nd n n xs"
  shows "sel n being_cooked xs = {}" "sel n on_the_way xs = {}"
proof -
  have sub: "sel n is_delivered xs \<subseteq> {..<n}" by (auto simp: sel_def)
  moreover have "card (sel n is_delivered xs) = card {..<n}" using assms by (simp add: table_ok_def)
  ultimately have "sel n is_delivered xs = {..<n}" by (intro card_subset_eq) auto
  then have "is_delivered (xs ! i) \<and> order_ok nd i (xs ! i)" if "i < n" for i
    using assms that by (auto simp: table_ok_def sel_def)
  then show "sel n being_cooked xs = {}" "sel n on_the_way xs = {}"
    by (auto simp: sel_def being_cooked_def on_the_way_def order_ok_def)
qed

lemma gather_empty_iff: "gather f xs = {#} \<longleftrightarrow> (\<forall>x \<in> set xs. f x = {#})"
  by (induction xs) auto

lemma notify_inv:
  assumes "shop_inv nc nd s"
  shows "shop_inv nc nd (check_and_notify_all_delivered s)"
proof (cases "delivered_count s = order_count s")
  case True
  with assms all_delivered have none: "sel (order_count s) being_cooked (orders s) = {}"
    "sel (order_count s) on_the_way (orders s) = {}"
    by (auto simp: shop_inv_def)
  with assms have "gather cook_item (cooks s) = {#}" "gather pending (delivery_persons s) = {#}"
    by (simp_all add: shop_inv_def cooks_ok_def persons_ok_def)
  with assms True show ?thesis
    by (simp add: shop_inv_def check_and_notify_all_delivered_def table_ok_def cooks_ok_def persons_ok_def)
next
  case False
  with assms show ?thesis by (simp add: check_and_notify_all_delivered_def)
qed

lemma deliver_inv:
  assumes inv: "shop_inv nc nd s"
    and j: "j < length (delivery_persons s)" "d_pc (delivery_persons s ! j) = DCarry k"
    and k: "k < length (deliveries (delivery_persons s ! j))"
  shows "shop_inv nc nd (deliver_order k j s)"
proof -
  let ?n = "order_count s" and ?xs = "orders s" and ?p = "delivery_persons s ! j"
  let ?i = "deliveries ?p ! k"
  let ?y = "(?xs ! ?i)\<lparr>is_delivered := True\<rparr>"
  have parts: "table_ok nd ?n (delivered_count s) ?xs" "cooks_ok ?n ?xs (cooks s)"
    "persons_ok ?n ?xs (delivery_persons s)" and len: "length (cooks s) = nc"
    "length (delivery_persons s) = nd"
    using inv by (auto simp: shop_inv_def)
  have pend: "pending ?p = add_mset ?i (mset (drop (Suc k) (deliveries ?p)))"
    using j(2) k by (simp add: pending_def Cons_nth_drop_Suc [symmetric])
  then have i: "?i < ?n" "on_the_way (?xs ! ?i)" using person_in_table [OF parts(3) j(1)] by auto
  from parts(1) i have ok: "order_ok nd ?i (?xs ! ?i)" and il: "?i < length ?xs" "?n \<le> length ?xs"
    by (auto simp: table_ok_def)
  have "sel ?n is_delivered (?xs[?i := ?y]) = insert ?i (sel ?n is_delivered ?xs)"
    "?i \<notin> sel ?n is_delivered ?xs"
    using i il by (auto simp: on_the_way_def sel_def nth_list_update)
  moreover have "order_ok nd m (?xs[?i := ?y] ! m)" if "m < ?n" for m
    using parts(1) that ok i(2) il by (auto simp: table_ok_def nth_list_update order_ok_def on_the_way_def)
  ultimately have t: "table_ok nd ?n (delivered_count s + 1) (?xs[?i := ?y])"
    using parts(1) by (simp add: table_ok_def)
  have "sel ?n being_cooked (?xs[?i := ?y]) = sel ?n being_cooked ?xs"
    using il by (simp add: sel_same being_cooked_def)
  then have c: "cooks_ok ?n (?xs[?i := ?y]) (cooks s)" using parts(2) by (simp add: cooks_ok_def)
  have "sel ?n on_the_way (?xs[?i := ?y]) = sel ?n on_the_way ?xs - {?i}" "?i \<in> sel ?n on_the_way ?xs"
    using i il by (auto simp: on_the_way_def sel_def nth_list_update)
  then have gone: "mset_set (sel ?n on_the_way ?xs) =
      add_mset ?i (mset_set (sel ?n on_the_way (?xs[?i := ?y])))"
    by (simp add: mset_set.remove)
  have stay: "delivery_person_id (?xs[?i := ?y] ! m) = delivery_person_id (?xs ! m)" for m
    using il(1) by (simp add: nth_list_update)
  have "person_ok ?xs j ?p" using parts(3) j(1) by (simp add: persons_ok_def)
  then have "person_ok (?xs[?i := ?y]) j (?p\<lparr>d_pc := DCarry (Suc k)\<rparr>)"
    using j(2) k pend stay by (auto simp: person_ok_def)
  then have "persons_ok ?n (?xs[?i := ?y]) ((delivery_persons s)[j := ?p\<lparr>d_pc := DCarry (Suc k)\<rparr>])"
    using gone pend stay by (intro persons_update [OF parts(3) j(1)]) simp_all
  with t c len have "shop_inv nc nd (s\<lparr>orders := ?xs[?i := ?y], delivered_count := delivered_count s + 1,
      delivery_persons := (delivery_persons s)[j := ?p\<lparr>d_pc := DCarry (Suc k)\<rparr>]\<rparr>)"
    by (simp add: shop_inv_def)
  then show ?thesis by (simp add: deliver_order_def Let_def notify_inv)
qed

lemma return_inv:
  assumes inv: "shop_inv nc nd s"
    and j: "j < length (delivery_persons s)" "d_pc (delivery_persons s ! j) = DCarry k"
    and k: "k = length (deliveries (delivery_persons s ! j))"
  shows "shop_inv nc nd (delivery_return j s)"
proof -
  have "pending (delivery_persons s ! j) = {#}" using j(2) k by (simp add: pending_def)
  with inv j(1) persons_update [of "order_count s" "orders s" "delivery_persons s" j "orders s"
      "\<lparr>d_busy = False, deliveries = [], d_pc = DHead\<rparr>"]
  show ?thesis by (simp add: delivery_return_def broadcast_inv) (simp add: shop_inv_def person_ok_def)
qed

subsection \<open>The other steps\<close>

lemma wait_cook_inv:
  assumes inv: "shop_inv nc nd s" and j: "j < length (cooks s)" "c_pc (cooks s ! j) = CWait"
  shows "shop_inv nc nd (s\<lparr>cooks := (cooks s)[j := (cooks s ! j)\<lparr>c_pc := CHead\<rparr>]\<rparr>)"
proof -
  have "cook_ok (cooks s ! j)" using inv j(1) by (auto simp: shop_inv_def cooks_ok_def)
  with j(2) have "cook_ok ((cooks s ! j)\<lparr>c_pc := CHead\<rparr>)" "cook_item (cooks s ! j) = {#}"
    by (simp_all add: cook_ok_def cook_item_def)
  with inv j(1) show ?thesis by (auto simp: shop_inv_def intro!: cooks_update)
qed

lemma wait_person_inv:
  assumes inv: "shop_inv nc nd s"
    and j: "j < length (delivery_persons s)" "d_pc (delivery_persons s ! j) = DWait"
  shows "shop_inv nc nd (s\<lparr>delivery_persons :=
    (delivery_persons s)[j := (delivery_persons s ! j)\<lparr>d_pc := DHead\<rparr>]\<rparr>)"
proof -
  have "person_ok (orders s) j (delivery_persons s ! j)"
    using inv j(1) by (auto simp: shop_inv_def persons_ok_def)
  with j(2) have "person_ok (orders s) j ((delivery_persons s ! j)\<lparr>d_pc := DHead\<rparr>)"
    "pending (delivery_persons s ! j) = {#}"
    by (simp_all add: person_ok_def pending_def)
  with inv j(1) show ?thesis by (auto simp: shop_inv_def intro!: persons_update)
qed

lemma signal_inv:
  assumes "shop_inv nc nd s" "t \<in> set (signal_choices s)"
  shows "shop_inv nc nd t"
  using assms wait_cook_inv [OF assms(1)] wait_person_inv [OF assms(1)]
  by (auto simp: signal_choices_def Let_def split: if_splits)

lemma new_order_inv:
  assumes inv: "shop_inv nc nd s" and room: "order_count s < MAX_ORDERS"
  shows "shop_inv nc nd (s\<lparr>orders := (orders s)[order_count s := new_order (order_count s) loc],
    order_count := order_count s + 1\<rparr>)"
proof -
  let ?n = "order_count s" and ?xs = "orders s"
  let ?ys = "?xs[?n := new_order ?n loc]"
  have parts: "table_ok nd ?n (delivered_count s) ?xs" "cooks_ok ?n ?xs (cooks s)"
    "persons_ok ?n ?xs (delivery_persons s)" and len: "length (cooks s) = nc"
    "length (delivery_persons s) = nd" and l: "?n < length ?xs"
    using inv room by (auto simp: shop_inv_def table_ok_def)
  have new: "?ys ! ?n = new_order ?n loc" using l by simp
  have same: "sel (Suc ?n) P ?ys = sel ?n P ?xs" if "\<not> P (new_order ?n loc)" for P
    using that l by (simp add: sel_Suc sel_beyond)
  have "sel (Suc ?n) being_cooked ?ys = sel ?n being_cooked ?xs"
    "sel (Suc ?n) on_the_way ?ys = sel ?n on_the_way ?xs"
    "sel (Suc ?n) is_delivered ?ys = sel ?n is_delivered ?xs"
    by (rule same; simp add: new_order_def being_cooked_def on_the_way_def)+
  moreover have "order_ok nd i (?ys ! i)" if "i < Suc ?n" for i
    using parts(1) that l by (auto simp: table_ok_def nth_list_update order_ok_def new_order_def)
  moreover have "person_ok ?ys j (delivery_persons s ! j)" if "j < length (delivery_persons s)" for j
    using parts(3) that person_in_table(1) [OF parts(3) that]
    by (fastforce simp: persons_ok_def person_ok_def nth_list_update)
  ultimately show ?thesis using parts room len
    by (simp add: shop_inv_def table_ok_def cooks_ok_def persons_ok_def)
qed

lemma thread_inv: "shop_thread s t \<Longrightarrow> shop_inv nc nd s \<Longrightarrow> shop_inv nc nd t"
  by (induction rule: shop_thread.induct)
    (simp_all add: cook_lock_inv cook_done_inv delivery_lock_inv deliver_inv return_inv)

lemma outside_inv: "shop_outside s t \<Longrightarrow> shop_inv nc nd s \<Longrightarrow> shop_inv nc nd t"
proof (induction rule: shop_outside.induct)
  case (accept s fd)
  then show ?case by (simp add: shop_inv_def accept_client_def)
next
  case (receive fd s t buffer)
  let ?s = "s\<lparr>handlers := remove1 fd (handlers s)\<rparr>"
  have "shop_inv nc nd ?s" using receive.prems by (simp add: shop_inv_def)
  then show ?case
    using receive.hyps(2) new_order_inv [of nc nd ?s "parse_order buffer"] signal_inv
    by (fastforce simp: handle_client_def split: if_splits)
qed (simp_all add: wait_cook_inv wait_person_inv)

interpretation shop: inductive_invariant "shop_start nc nd" shop_step "shop_inv nc nd" for nc nd
  by unfold_locales (auto simp: shop_step_def intro: shop_start_inv thread_inv outside_inv)

end
