(* ===== verification/Pide_Properties.thy ===== *)
theory Pide_Properties
  imports Pide_Invariants
begin

text \<open>
  What the pide shop guarantees about orders, cooks and delivery persons, and two runs in which it
  goes wrong: a signal that wakes the wrong thread, and the order that the connection of the
  client generator turns into.
\<close>

subsection \<open>The stages of an order\<close>

datatype stage = Waiting | Cooking | Cooked | Assigned | Delivered

fun stage_rank :: "stage \<Rightarrow> nat" where
  "stage_rank Waiting = 0"
| "stage_rank Cooking = 1"
| "stage_rank Cooked = 2"
| "stage_rank Assigned = 3"
| "stage_rank Delivered = 4"

instantiation stage :: linorder
begin

definition less_eq_stage :: "stage \<Rightarrow> stage \<Rightarrow> bool" where
  "less_eq_stage x y = (stage_rank x \<le> stage_rank y)"

definition less_stage :: "stage \<Rightarrow> stage \<Rightarrow> bool" where
  "less_stage x y = (stage_rank x < stage_rank y)"

instance
proof
  fix x y :: stage
  show "x \<le> y \<Longrightarrow> y \<le> x \<Longrightarrow> x = y"
    by (cases x; cases y) (simp_all add: less_eq_stage_def)
qed (auto simp: less_eq_stage_def less_stage_def)

end

definition stage_of :: "order \<Rightarrow> stage" where
  "stage_of x =
     (if is_delivered x then Delivered else if delivery_person_id x \<noteq> -1 then Assigned
      else if is_ready x then Cooked else if is_being_prepared x then Cooking else Waiting)"

lemma stage_update:
  "stage_of (xs ! i) \<le> stage_of y \<Longrightarrow> i < length xs \<Longrightarrow> stage_of (xs ! m) \<le> stage_of (xs[i := y] ! m)"
  by (cases "m = i") auto

lemma notify_orders [simp]: "orders (check_and_notify_all_delivered s) = orders s"
  by (simp add: check_and_notify_all_delivered_def)

lemma broadcast_table [simp]: "orders (broadcast s) = orders s" "order_count (broadcast s) = order_count s"
  by (simp_all add: broadcast_def)

lemma signal_table:
  "t \<in> set (signal_choices s) \<Longrightarrow> orders t = orders s \<and> order_count t = order_count s"
  by (auto simp: signal_choices_def Let_def split: if_splits)

lemma delivery_lock_stage:
  assumes inv: "shop_inv nc nd s" and j: "j < length (delivery_persons s)" "d_pc (delivery_persons s ! j) = DHead"
    and i: "i < order_count s"
  shows "stage_of (orders s ! i) \<le> stage_of (orders (delivery_lock j s) ! i)"
proof -
  let ?n = "order_count s" and ?p = "delivery_persons s ! j"
  obtain xs' p' where c: "collect j [0..<?n] (orders s, ?p) = (xs', p')" by fastforce
  have idle: "\<not> d_busy ?p" "length (deliveries ?p) < MAX_DELIVERY_CAPACITY"
    using inv j by (auto simp: shop_inv_def persons_ok_def person_ok_def MAX_DELIVERY_CAPACITY_def)
  have ids: "m < length (orders s) \<and> o_id (orders s ! m) = m" if "m \<in> set [0..<?n]" for m
    using inv that by (auto simp: shop_inv_def table_ok_def order_ok_def)
  from collect_effect [OF c distinct_upt idle(1) ids idle(2)] ids [of i] i obtain ts where
    "xs' ! i = (if i \<in> set ts then (orders s ! i)\<lparr>delivery_person_id := int j\<rparr> else orders s ! i)"
    "i \<in> set ts \<Longrightarrow> wants_delivery (orders s ! i)"
    by auto
  then have "stage_of (orders s ! i) \<le> stage_of (xs' ! i)"
    by (auto simp: wants_delivery_def stage_of_def less_eq_stage_def)
  then show ?thesis by (simp add: delivery_lock_def c Let_def)
qed

lemma thread_stage:
  assumes "shop_thread s t" "shop_inv nc nd s" "i < order_count s"
  shows "stage_of (orders s ! i) \<le> stage_of (orders t ! i)"
  using assms
proof (induction rule: shop_thread.induct)
  case (cook_lock j s)
  show ?case
  proof (cases "find (\<lambda>i. wants_cook (orders s ! i)) [0..<order_count s]")
    case (Some m)
    then have "m < order_count s" "wants_cook (orders s ! m)" by (auto simp: find_Some_iff)
    moreover from this cook_lock.prems have "delivery_person_id (orders s ! m) = -1" "m < length (orders s)"
      by (auto simp: shop_inv_def table_ok_def order_ok_def wants_cook_def)
    ultimately show ?thesis using Some
      by (simp add: cook_lock_def) (rule stage_update; simp add: wants_cook_def stage_of_def less_eq_stage_def)
  qed (simp add: cook_lock_def)
next
  case (cook_done j s m)
  then have "m < order_count s" "being_cooked (orders s ! m)"
    using cook_in_table by (auto simp: shop_inv_def)
  moreover from this cook_done.prems have "m < length (orders s)"
    by (auto simp: shop_inv_def table_ok_def)
  ultimately show ?case
    by (simp add: cook_done_def) (rule stage_update; simp add: being_cooked_def stage_of_def less_eq_stage_def)
next
  case (deliver j s k)
  let ?i = "deliveries (delivery_persons s ! j) ! k"
  have "?i \<in># pending (delivery_persons s ! j)"
    using deliver.hyps by (simp add: pending_def Cons_nth_drop_Suc [symmetric])
  then have "?i < order_count s"
    using person_in_table deliver by (auto simp: shop_inv_def)
  with deliver.prems have "?i < length (orders s)" by (auto simp: shop_inv_def table_ok_def)
  then show ?case
    by (simp add: deliver_order_def Let_def) (rule stage_update; simp add: stage_of_def less_eq_stage_def)
next
  case (return j s k)
  then show ?case by (simp add: delivery_return_def)
qed (simp add: delivery_lock_stage)

lemma outside_stage:
  assumes "shop_outside s t" "i < order_count s"
  shows "stage_of (orders s ! i) \<le> stage_of (orders t ! i)"
  using assms
proof (induction rule: shop_outside.induct)
  case (receive fd s t buffer)
  then show ?case
    by (auto simp: handle_client_def nth_list_update dest!: signal_table split: if_splits)
qed (simp_all add: accept_client_def)

subsection \<open>Nobody shares an order\<close>

lemma gather_two:
  assumes "j < length xs" "k < length xs" "j \<noteq> k" "x \<in># f (xs ! j)" "x \<in># f (xs ! k)"
  shows "2 \<le> count (gather f xs) x"
  using assms
proof (induction xs arbitrary: j k)
  case (Cons y ys)
  have one: "1 \<le> count (gather f ys) x" if "m < length ys" "x \<in># f (ys ! m)" for m
    using nth_in_gather [of m ys x f] that by (simp add: Suc_le_eq)
  show ?case
  proof (cases j; cases k)
    fix k' assume k: "j = 0" "k = Suc k'"
    with Cons.prems have "1 \<le> count (f y) x" by (simp add: Suc_le_eq)
    moreover have "1 \<le> count (gather f ys) x" using Cons.prems k by (intro one [of k']) simp_all
    moreover have "count (gather f (y # ys)) x = count (f y) x + count (gather f ys) x" by simp
    ultimately show ?thesis by linarith
  next
    fix j' assume j: "j = Suc j'" "k = 0"
    with Cons.prems have "1 \<le> count (f y) x" by (simp add: Suc_le_eq)
    moreover have "1 \<le> count (gather f ys) x" using Cons.prems j by (intro one [of j']) simp_all
    moreover have "count (gather f (y # ys)) x = count (f y) x + count (gather f ys) x" by simp
    ultimately show ?thesis by linarith
  next
    fix j' k' assume jk: "j = Suc j'" "k = Suc k'"
    have "2 \<le> count (gather f ys) x"
      by (rule Cons.IH [of j' k']) (use Cons.prems jk in simp_all)
    then show ?thesis by simp
  qed (use Cons.prems in simp)
qed simp

lemma gather_once:
  assumes "gather f xs = mset_set A" "j < length xs" "k < length xs" "x \<in># f (xs ! j)" "x \<in># f (xs ! k)"
  shows "j = k"
proof (rule ccontr)
  assume "j \<noteq> k"
  with assms have "2 \<le> count (mset_set A) x" using gather_two by metis
  moreover have "count (mset_set A) x \<le> 1" by (cases "finite A"; cases "x \<in> A") simp_all
  ultimately show False by simp
qed

text \<open>C9. Every order is worked on by at most one cook and carried by at most one delivery person, a
  person carries at most three orders, and only orders that came out of the oven are carried.\<close>

theorem orders_exclusive:
  assumes "reachable (shop_start nc nd) shop_step s"
  shows "(\<forall>j k i. j < nc \<and> k < nc \<and> c_pc (cooks s ! j) = CWork i \<and> c_pc (cooks s ! k) = CWork i \<longrightarrow> j = k) \<and>
    (\<forall>j k i. j < nd \<and> k < nd \<and> i \<in># pending (delivery_persons s ! j) \<and>
       i \<in># pending (delivery_persons s ! k) \<longrightarrow> j = k) \<and>
    (\<forall>p \<in> set (delivery_persons s). length (deliveries p) \<le> 3 \<and>
       (\<forall>i \<in># pending p. i < order_count s \<and> is_ready (orders s ! i) \<and> \<not> is_delivered (orders s ! i)))"
proof -
  from shop.reachable_inv [OF assms] have inv: "table_ok nd (order_count s) (delivered_count s) (orders s)"
    "cooks_ok (order_count s) (orders s) (cooks s)" "persons_ok (order_count s) (orders s) (delivery_persons s)"
    "length (cooks s) = nc" "length (delivery_persons s) = nd"
    by (auto simp: shop_inv_def)
  then have cooks: "gather cook_item (cooks s) = mset_set (sel (order_count s) being_cooked (orders s))"
    and ps: "gather pending (delivery_persons s) = mset_set (sel (order_count s) on_the_way (orders s))"
    by (auto simp: cooks_ok_def persons_ok_def)
  have "j = k" if "j < nc" "k < nc" "c_pc (cooks s ! j) = CWork i" "c_pc (cooks s ! k) = CWork i" for i j k
    by (rule gather_once [OF cooks, of _ _ i]) (use that inv in \<open>simp_all add: cook_item_def\<close>)
  moreover have "j = k" if "j < nd" "k < nd" "i \<in># pending (delivery_persons s ! j)"
      "i \<in># pending (delivery_persons s ! k)" for i j k
    by (rule gather_once [OF ps, of _ _ i]) (use that inv in simp_all)
  moreover have "length (deliveries p) \<le> 3 \<and>
      (\<forall>i \<in># pending p. i < order_count s \<and> is_ready (orders s ! i) \<and> \<not> is_delivered (orders s ! i))"
    if "p \<in> set (delivery_persons s)" for p
  proof -
    from that obtain j where j: "j < length (delivery_persons s)" "delivery_persons s ! j = p"
      by (auto simp: in_set_conv_nth)
    with inv(3) have "person_ok (orders s) j p" by (auto simp: persons_ok_def)
    then have "length (deliveries p) \<le> 3"
      by (auto simp: person_ok_def MAX_DELIVERY_CAPACITY_def split: delivery_pc.splits)
    moreover have "i < order_count s \<and> is_ready (orders s ! i) \<and> \<not> is_delivered (orders s ! i)"
      if "i \<in># pending p" for i
      using person_in_table [OF inv(3) j(1), of i] that j(2) inv(1)
      by (auto simp: table_ok_def order_ok_def on_the_way_def)
    ultimately show ?thesis by blast
  qed
  ultimately show ?thesis by blast
qed

text \<open>An order only moves forward: waiting, cooking, cooked, assigned, delivered; no step of a thread
  or of a client takes an order of the table back to an earlier stage.\<close>

theorem order_stage_monotone:
  assumes "reachable (shop_start nc nd) shop_step s" "shop_step s t" "i < order_count s"
  shows "stage_of (orders s ! i) \<le> stage_of (orders t ! i)"
  using assms(2,3) thread_stage [OF _ shop.reachable_inv [OF assms(1)]] outside_stage
  by (auto simp: shop_step_def)

text \<open>The end of a session is sound: the table is emptied and the client generator is told only
  when every order of the table has been delivered, and at that moment no cook is working and no
  delivery person has an order left, so nobody touches the table of the next session by an old index.\<close>

theorem session_end:
  assumes "reachable (shop_start nc nd) shop_step s" "shop_thread s t"
    and "0 < order_count s" "order_count t = 0"
  shows "(\<forall>i < order_count s. is_delivered (orders t ! i)) \<and> notices t = notices s @ [client_gen_socket s] \<and>
    client_gen_socket t = 0 \<and> (\<forall>c \<in> set (cooks t). \<nexists>i. c_pc c = CWork i) \<and>
    (\<forall>p \<in> set (delivery_persons t). pending p = {#})"
proof -
  have inv: "shop_inv nc nd s" by (rule shop.reachable_inv [OF assms(1)])
  have "shop_inv nc nd t" by (rule thread_inv [OF assms(2) inv])
  with assms(4) have "gather cook_item (cooks t) = {#}" "gather pending (delivery_persons t) = {#}"
    by (simp_all add: shop_inv_def cooks_ok_def persons_ok_def)
  then have idle: "\<forall>c \<in> set (cooks t). cook_item c = {#}" "\<forall>p \<in> set (delivery_persons t). pending p = {#}"
    by (simp_all add: gather_empty_iff)
  then have "\<forall>c \<in> set (cooks t). \<nexists>i. c_pc c = CWork i" by (auto simp: cook_item_def)
  moreover have "(\<forall>i < order_count s. is_delivered (orders t ! i)) \<and>
      notices t = notices s @ [client_gen_socket s] \<and> client_gen_socket t = 0"
    using assms(2)
  proof cases
    case (deliver j k)
    let ?p = "delivery_persons s ! j"
    let ?i = "deliveries ?p ! k"
    let ?u = "s\<lparr>orders := (orders s)[?i := (orders s ! ?i)\<lparr>is_delivered := True\<rparr>],
      delivered_count := delivered_count s + 1,
      delivery_persons := (delivery_persons s)[j := ?p\<lparr>d_pc := DCarry (Suc k)\<rparr>]\<rparr>"
    have t: "t = check_and_notify_all_delivered ?u" using deliver(1) by (simp add: deliver_order_def Let_def)
    with assms(3,4) have full: "delivered_count s + 1 = order_count s"
      by (auto simp: check_and_notify_all_delivered_def split: if_splits)
    have "?i \<in># pending ?p" using deliver by (simp add: pending_def Cons_nth_drop_Suc [symmetric])
    then have "?i < order_count s" "on_the_way (orders s ! ?i)"
      using person_in_table deliver(2) inv by (auto simp: shop_inv_def)
    then have "sel (order_count s) is_delivered (orders ?u) =
        insert ?i (sel (order_count s) is_delivered (orders s))" "?i \<notin> sel (order_count s) is_delivered (orders s)"
      using inv by (auto simp: shop_inv_def table_ok_def sel_update sel_def on_the_way_def nth_list_update)
    then have "card (sel (order_count s) is_delivered (orders ?u)) = card {..<order_count s}"
      using inv full by (simp add: shop_inv_def table_ok_def)
    then have "sel (order_count s) is_delivered (orders ?u) = {..<order_count s}"
      by (intro card_subset_eq) (auto simp: sel_def)
    with full show ?thesis by (auto simp: t check_and_notify_all_delivered_def sel_def)
  qed (use assms(3,4) in \<open>simp_all add: cook_lock_def cook_done_def delivery_lock_def delivery_return_def
      split: option.splits prod.splits\<close>)
  ultimately show ?thesis using idle(2) by blast
qed

subsection \<open>Two runs of a shop with one cook and one delivery person\<close>

definition one_one :: "order list \<Rightarrow> nat \<Rightarrow> nat \<Rightarrow> cook_pc \<Rightarrow> nat list \<Rightarrow> delivery_pc \<Rightarrow> int \<Rightarrow> int list \<Rightarrow>
    int list \<Rightarrow> shop" where
  "one_one xs n dc cpc ds dpc sock hs ns =
     \<lparr>orders = xs @ replicate (MAX_ORDERS - length xs) blank_order, order_count = n, delivered_count = dc,
      cooks = [\<lparr>c_busy = (\<exists>i. cpc = CWork i), c_pc = cpc\<rparr>],
      delivery_persons = [\<lparr>d_busy = (ds \<noteq> []), deliveries = ds, d_pc = dpc\<rparr>],
      client_gen_socket = sock, handlers = hs, notices = ns\<rparr>"

text \<open>The stages of the one order, at its location.\<close>

abbreviation "fresh loc \<equiv> new_order 0 loc"
abbreviation "cooking loc \<equiv> (fresh loc)\<lparr>is_being_prepared := True\<rparr>"
abbreviation "cooked loc \<equiv> (cooking loc)\<lparr>is_ready := True\<rparr>"
abbreviation "carried loc \<equiv> (cooked loc)\<lparr>delivery_person_id := 0\<rparr>"
abbreviation "brought loc \<equiv> (carried loc)\<lparr>is_delivered := True\<rparr>"

lemmas run_defs = one_one_def new_order_def broadcast_def wake_cook.simps wake_person.simps
  MAX_ORDERS_def MAX_DELIVERY_CAPACITY_def

lemma run_init: "shop_start 1 1 (one_one [] 0 0 CHead [] DHead 0 [] [])"
  by (simp add: shop_start_def shop_init_def MAX_COOKS_def MAX_DELIVERIES_def one_one_def)

lemma run_thread: "shop_thread s t \<Longrightarrow> t = u \<Longrightarrow> shop_step s u"
  by (simp add: shop_step_def)

lemma run_outside: "shop_outside s t \<Longrightarrow> t = u \<Longrightarrow> shop_step s u"
  by (simp add: shop_step_def)

lemma run_accept:
  "shop_step (one_one xs n dc cpc ds dpc sock hs ns)
     (one_one xs n dc cpc ds dpc (if sock = 0 then fd else sock) (hs @ [fd]) ns)"
  by (rule run_outside [OF shop_outside.accept]) (simp add: accept_client_def one_one_def)

text \<open>A message that arrives when nobody waits, and one whose signal goes to the delivery person.\<close>

lemma run_receive:
  assumes "fd \<in> set hs" "length xs \<le> 1"
  shows "shop_step (one_one xs 0 dc CHead ds DHead sock hs ns)
    (one_one [fresh (parse_order buffer)] 1 dc CHead ds DHead sock (remove1 fd hs) ns)"
proof -
  obtain x where "xs = [] \<or> xs = [x]" using assms(2) by (cases xs) auto
  then show ?thesis using assms(1)
    by (intro run_outside [OF shop_outside.receive [of fd _ _ buffer]])
      (auto simp: handle_client_def signal_choices_def one_one_def MAX_ORDERS_def numeral_eq_Suc)
qed

lemma run_receive_person:
  assumes "fd \<in> set hs"
  shows "shop_step (one_one [] 0 dc CWait ds DWait sock hs ns)
    (one_one [fresh (parse_order buffer)] 1 dc CWait ds DHead sock (remove1 fd hs) ns)"
  using assms
  by (intro run_outside [OF shop_outside.receive [of fd _ _ buffer]])
    (auto simp: handle_client_def signal_choices_def one_one_def MAX_ORDERS_def numeral_eq_Suc)

lemma run_cook_lock:
  "shop_step (one_one [fresh loc] 1 dc CHead ds dpc sock hs ns)
     (one_one [cooking loc] 1 dc (CWork 0) ds dpc sock hs ns)"
  by (rule run_thread [OF shop_thread.cook_lock [of 0]])
    (simp_all add: cook_lock_def run_defs wants_cook_def)

lemma run_cook_wait:
  "shop_step (one_one [] 0 dc CHead ds dpc sock hs ns) (one_one [] 0 dc CWait ds dpc sock hs ns)"
  by (rule run_thread [OF shop_thread.cook_lock [of 0]]) (simp_all add: cook_lock_def run_defs)

lemma run_cook_done:
  "shop_step (one_one [cooking loc] 1 dc (CWork 0) ds DHead sock hs ns)
     (one_one [cooked loc] 1 dc CHead ds DHead sock hs ns)"
  by (rule run_thread [OF shop_thread.cook_done [of 0 _ 0]]) (simp_all add: cook_done_def run_defs)

lemma run_delivery_wait:
  "xs = [] \<and> n = 0 \<or> xs = [fresh loc] \<and> n = 1 \<Longrightarrow>
   shop_step (one_one xs n dc cpc [] DHead sock hs ns) (one_one xs n dc cpc [] DWait sock hs ns)"
  by (rule run_thread [OF shop_thread.delivery_lock [of 0]])
    (auto simp: delivery_lock_def run_defs wants_delivery_def)

lemma run_delivery_lock:
  "shop_step (one_one [cooked loc] 1 dc cpc [] DHead sock hs ns)
     (one_one [carried loc] 1 dc cpc [0] (DCarry 0) sock hs ns)"
  by (rule run_thread [OF shop_thread.delivery_lock [of 0]])
    (simp_all add: delivery_lock_def run_defs wants_delivery_def)

lemma run_deliver:
  "shop_thread (one_one [carried loc] 1 0 cpc [0] (DCarry 0) sock hs ns)
     (one_one [brought loc] 0 0 cpc [0] (DCarry 1) 0 hs (ns @ [sock]))"
proof -
  let ?s = "one_one [carried loc] 1 0 cpc [0] (DCarry 0) sock hs ns"
  have "shop_thread ?s (deliver_order 0 0 ?s)"
    by (rule shop_thread.deliver) (simp_all add: one_one_def)
  moreover have "deliver_order 0 0 ?s = one_one [brought loc] 0 0 cpc [0] (DCarry 1) 0 hs (ns @ [sock])"
    by (simp add: deliver_order_def check_and_notify_all_delivered_def run_defs)
  ultimately show ?thesis by simp
qed

lemma run_return:
  "shop_step (one_one xs n dc CHead [0] (DCarry 1) sock hs ns) (one_one xs n dc CHead [] DHead sock hs ns)"
  by (rule run_thread [OF shop_thread.return [of 0 _ 1]]) (simp_all add: delivery_return_def run_defs)

abbreviation "shop11 \<equiv> reachable (shop_start 1 1) shop_step"

lemma shop11_step: "shop11 s \<Longrightarrow> shop_step s t \<Longrightarrow> shop11 t"
  by (rule reachable.reach_step)

lemma shop11_init: "shop11 (one_one [] 0 0 CHead [] DHead 0 [] [])"
  using run_init by (rule reachable.reach_init)

text \<open>One order from its arrival to the moment before it is handed over.\<close>

lemma run_order:
  assumes "shop11 (one_one xs 0 0 CHead [] DHead sock hs ns)" "fd \<in> set hs" "length xs \<le> 1"
  shows "shop11 (one_one [carried (parse_order buffer)] 1 0 CHead [0] (DCarry 0) sock (remove1 fd hs) ns)"
  using assms(1) run_receive [OF assms(2,3)] run_cook_lock run_cook_done run_delivery_lock
  by (meson shop11_step)

lemma run_session:
  assumes "shop11 (one_one xs 0 0 CHead [] DHead sock hs ns)" "fd \<in> set hs" "length xs \<le> 1"
  shows "shop11 (one_one [brought (parse_order buffer)] 0 0 CHead [] DHead 0 (remove1 fd hs) (ns @ [sock]))"
proof -
  have "shop_step (one_one [carried loc] 1 0 CHead [0] (DCarry 0) sock hs' ns)
      (one_one [brought loc] 0 0 CHead [0] (DCarry 1) 0 hs' (ns @ [sock]))" for loc hs'
    using run_deliver by (simp add: shop_step_def)
  with run_order [OF assms] run_return show ?thesis by (meson shop11_step)
qed

lemma run_two_clients: "shop11 (one_one [] 0 0 CHead [] DHead 5 [5, 6] [])"
proof -
  have "shop11 (one_one [] 0 0 CHead [] DHead 0 [] [])" by (rule shop11_init)
  from shop11_step [OF this run_accept [of _ _ _ _ _ _ _ _ _ 5]]
  have "shop11 (one_one [] 0 0 CHead [] DHead 5 [5] [])" by simp
  from shop11_step [OF this run_accept [of _ _ _ _ _ _ _ _ _ 6]] show ?thesis by simp
qed

theorem orders_exclusive_witness:
  "length (deliveries (delivery_persons (one_one [] 0 0 CHead [] DHead 5 [5, 6] []) ! 0)) \<le> 3"
proof -
  let ?s = "one_one [] 0 0 CHead [] DHead 5 [5, 6] []"
  have "delivery_persons ?s ! 0 \<in> set (delivery_persons ?s)"
    by (simp add: one_one_def)
  then show ?thesis using orders_exclusive [OF run_two_clients] by blast
qed

theorem order_stage_monotone_witness:
  "stage_of (cooked (0, 0)) \<le> stage_of (carried (0, 0))"
proof -
  have "parse_order '''' = (0, 0)"
    by (simp add: parse_order_def order_format_def text_format_def)
  then have "shop_step (one_one [] 0 0 CHead [] DHead 5 [5, 6] [])
      (one_one [fresh (0, 0)] 1 0 CHead [] DHead 5 [5] [])"
    using run_receive [of 6 "[5, 6]" "[]" 0 "[]" 5 "[]" "''''"] by simp
  from shop11_step [OF shop11_step [OF shop11_step [OF run_two_clients this] run_cook_lock] run_cook_done]
  have "shop11 (one_one [cooked (0, 0)] 1 0 CHead [] DHead 5 [5] [])" .
  from order_stage_monotone [OF this run_delivery_lock, of 0] show ?thesis
    by (simp add: one_one_def)
qed

theorem session_end_witness:
  "\<exists>s t. shop11 s \<and> shop_thread s t \<and> order_count s = 1 \<and> order_count t = 0 \<and> notices t = [5] \<and>
     is_delivered (orders t ! 0)"
proof -
  let ?s = "one_one [carried (parse_order '''')] 1 0 CHead [0] (DCarry 0) 5 [5] []"
  let ?t = "one_one [brought (parse_order '''')] 0 0 CHead [0] (DCarry 1) 0 [5] ([] @ [5])"
  have s: "shop11 ?s" using run_order [OF run_two_clients, of 6 "''''"] by simp
  have f: "order_count ?s = 1" "order_count ?t = 0" "notices ?s = []" "client_gen_socket ?s = 5"
    by (simp_all add: one_one_def)
  have "is_delivered (orders ?t ! 0)" "notices ?t = [5]"
    using session_end [OF s run_deliver] f by simp_all
  with s run_deliver f(1,2) show ?thesis by blast
qed

text \<open>The signal of a new order can be lost: all threads wait on one condition variable and the
  signal wakes one of them, so it may wake a delivery person, who finds nothing ready and waits
  again. From then on an order waits in the table and no thread of the shop can move.\<close>

theorem lost_signal:
  "\<exists>s. reachable (shop_start 1 1) shop_step s \<and> order_count s = 1 \<and> wants_cook (orders s ! 0) \<and>
     (\<nexists>t. shop_thread s t)"
proof -
  let ?s = "one_one [fresh (parse_order '''')] 1 0 CWait [] DWait 5 [] []"
  have "shop11 (one_one [] 0 0 CHead [] DHead 0 [] [])" by (rule shop11_init)
  from shop11_step [OF shop11_step [OF this run_cook_wait] run_delivery_wait]
  have "shop11 (one_one [] 0 0 CWait [] DWait 0 [] [])" by simp
  from shop11_step [OF this run_accept [of _ _ _ _ _ _ _ _ _ 5]]
  have "shop11 (one_one [] 0 0 CWait [] DWait 5 [5] [])" by simp
  from shop11_step [OF this run_receive_person [of 5 _ _ _ _ _ "''''"]]
  have "shop11 (one_one [fresh (parse_order '''')] 1 0 CWait [] DHead 5 [] [])" by simp
  from shop11_step [OF this run_delivery_wait] have "shop11 ?s" by simp
  moreover have "\<not> shop_thread ?s t" for t
    by (auto simp: one_one_def elim!: shop_thread.cases)
  moreover have "order_count ?s = 1" "wants_cook (orders ?s ! 0)"
    by (simp_all add: one_one_def wants_cook_def new_order_def)
  ultimately show ?thesis by blast
qed

text \<open>The connection of the client generator becomes an order itself: after a complete session of one
  customer, its end of file is read as a message, an order at (0, 0) is cooked and delivered, and
  the message \<open>All orders delivered\<close> is written to descriptor 0, which is then closed.\<close>

theorem phantom_order:
  "\<exists>s. reachable (shop_start 1 1) shop_step s \<and> notices s = [5, 0] \<and> location (orders s ! 0) = (0, 0)"
proof -
  have "shop11 (one_one [brought (parse_order '''')] 0 0 CHead [] DHead 0 [5] [5])"
    using run_session [OF run_two_clients, of 6 "''''"] by simp
  from run_session [OF this, of 5 "''''"]
  have "shop11 (one_one [brought (parse_order '''')] 0 0 CHead [] DHead 0 [] [5, 0])" by simp
  moreover have "parse_order '''' = (0, 0)"
    by (simp add: parse_order_def order_format_def text_format_def)
  ultimately show ?thesis by (auto simp: one_one_def new_order_def)
qed

end
