(* ===== verification/Pide_Client.thy ===== *)
theory Pide_Client
  imports Pide_Shop
begin

text \<open>
  The client generator of the pide shop (sys07, \<open>client.c\<close>): one connection for itself, one for each
  customer with its order, and the wait for the shop's last message. Whether a socket can be made and a
  connection succeeds, the numbers \<open>rand\<close> gives and what each \<open>read\<close> stores are arguments; a \<open>read\<close>
  for which nothing ever arrives is the end \<open>Hangs\<close>. \<open>SIGINT\<close> can end the program at any point.
\<close>

datatype generator_end = Exits int | Hangs | Crashes

record generator =
  sent :: "string list"
  printed :: "string list"

definition tell :: "string \<Rightarrow> generator \<Rightarrow> generator" where
  "tell s g = g\<lparr>printed := printed g @ [s]\<rparr>"

text \<open>\<open>rand() % p\<close>, which C rounds towards zero.\<close>

definition c_rem :: "int \<Rightarrow> int \<Rightarrow> int" where
  "c_rem a b = (if a < 0 then - (\<bar>a\<bar> mod \<bar>b\<bar>) else \<bar>a\<bar> mod \<bar>b\<bar>)"

definition client_sigint :: "generator \<Rightarrow> generator_end \<times> generator" where
  "client_sigint g = (Exits 0, tell ''Order cancelled.\<newline>'' g)"

text \<open>The loop over the customers: \<open>None\<close> when it is left early, with the end of the program.\<close>

fun order_loop ::
  "(nat \<Rightarrow> bool) \<Rightarrow> (nat \<Rightarrow> bool) \<Rightarrow> (nat \<Rightarrow> int) \<Rightarrow> int \<Rightarrow> int \<Rightarrow> nat list \<Rightarrow> generator \<Rightarrow> generator_end option \<times> generator" where
  "order_loop creates connects rnd p q [] g = (None, g)"
| "order_loop creates connects rnd p q (i # is) g =
     (if \<not> creates (Suc i) then (Some (Exits 1), tell ''Error creating socket'' g)
      else if \<not> connects (Suc i) then (Some (Exits 1), tell ''Error connecting to server'' g)
      else if p = 0 \<or> q = 0 then (Some Crashes, g)
      else (let x = c_rem (rnd (2 * i)) p; y = c_rem (rnd (2 * i + 1)) q
            in order_loop creates connects rnd p q is (g\<lparr>sent := sent g @ [order_message (int i) x y]\<rparr>)))"

text \<open>The loop that waits, over what the reads store; an empty string is the end of the connection.\<close>

fun listen_loop :: "string list \<Rightarrow> generator \<Rightarrow> generator_end \<times> generator" where
  "listen_loop [] g = (Hangs, g)"
| "listen_loop (buffer # reads) g =
     (if buffer = [] then (Exits 0, g)
      else if c_strcmp (c_str buffer) ''All orders delivered'' = 0
      then (Exits 0, tell (''All customers served\<newline>Log file is written...\<newline>'') g)
      else listen_loop reads g)"

definition pide_client_main ::
  "string list \<Rightarrow> int \<Rightarrow> (nat \<Rightarrow> bool) \<Rightarrow> (nat \<Rightarrow> bool) \<Rightarrow> (nat \<Rightarrow> int) \<Rightarrow> string list \<Rightarrow> generator_end \<times> generator" where
  "pide_client_main argv pid creates connects rnd reads =
     (let g = \<lparr>sent = [], printed = []\<rparr> in
      if length argv \<noteq> 6
      then (Exits 1, tell (''Usage: '' @ (if argv = [] then [] else argv ! 0) @
              '' [ipAddress] [portnumber] [numberOfClients] [p] [q]\<newline>'') g)
      else
        (let number_of_clients = c_atoi (argv ! 3); p = c_atoi (argv ! 4); q = c_atoi (argv ! 5);
             g' = tell (''PID '' @ c_show_int pid @ ''...\<newline>'') g
         in if \<not> creates 0 then (Exits 1, tell ''Error creating socket'' g)
            else if \<not> connects 0 then (Exits 1, tell ''Error connecting to server'' g')
            else
              (case order_loop creates connects rnd p q [0..<nat number_of_clients] g' of
                 (Some e, g) \<Rightarrow> (e, g)
               | (None, g) \<Rightarrow> listen_loop reads (tell ''...\<newline>'' g))))"

subsection \<open>The customers and the shop\<close>

text \<open>What a customer draws, and the shop reading the messages of all customers in turn.\<close>

definition drawn :: "(nat \<Rightarrow> int) \<Rightarrow> int \<Rightarrow> int \<Rightarrow> nat \<Rightarrow> int \<times> int" where
  "drawn rnd p q i = (c_rem (rnd (2 * i)) p, c_rem (rnd (2 * i + 1)) q)"

inductive served :: "string list \<Rightarrow> shop \<Rightarrow> shop \<Rightarrow> bool" where
  none: "served [] s s"
| one: "t \<in> set (handle_client m s) \<Longrightarrow> served ms t u \<Longrightarrow> served (m # ms) s u"

inductive_cases served_ConsE: "served (m # ms) s u"
inductive_cases served_NilE: "served [] s u"

lemma c_rem_int: "is_int a \<Longrightarrow> b \<noteq> 0 \<Longrightarrow> is_int (c_rem a b)"
proof -
  assume a: "is_int a" and "b \<noteq> 0"
  then have "\<bar>a\<bar> mod \<bar>b\<bar> \<le> \<bar>a\<bar>" "0 \<le> \<bar>a\<bar> mod \<bar>b\<bar>" by (simp_all add: zmod_le_nonneg_dividend)
  with a show ?thesis by (auto simp: c_rem_def is_int_def)
qed

lemma order_loop_all:
  assumes "\<forall>i \<in> set is. creates (Suc i) \<and> connects (Suc i)" and "p \<noteq> 0" and "q \<noteq> 0"
  shows "order_loop creates connects rnd p q is g =
    (None, g\<lparr>sent := sent g @ map (\<lambda>i. case drawn rnd p q i of (x, y) \<Rightarrow> order_message (int i) x y) is\<rparr>)"
  using assms by (induction "is" arbitrary: g) (simp_all add: Let_def drawn_def)

lemma handle_client_orders:
  assumes "t \<in> set (handle_client m s)" and "order_count s < MAX_ORDERS"
  shows "orders t = (orders s)[order_count s := new_order (order_count s) (parse_order m)]"
    and "order_count t = Suc (order_count s)"
  using assms by (auto simp: handle_client_def signal_choices_def Let_def split: if_splits)

lemma served_orders:
  assumes "served ms s u" and "length (orders s) = MAX_ORDERS" and "order_count s + length ms \<le> MAX_ORDERS"
  shows "length (orders u) = MAX_ORDERS \<and> order_count u = order_count s + length ms \<and>
    (\<forall>i < order_count s. orders u ! i = orders s ! i) \<and>
    (\<forall>k < length ms. location (orders u ! (order_count s + k)) = parse_order (ms ! k))"
  using assms
proof (induction rule: served.induct)
  case (one t m s ms u)
  note t = handle_client_orders [OF one.hyps(1)]
  have "order_count s < MAX_ORDERS" using one.prems(2) by simp
  note t = t [OF this]
  with one.prems have IH: "length (orders u) = MAX_ORDERS" "order_count u = Suc (order_count s) + length ms"
    "\<forall>i < Suc (order_count s). orders u ! i = orders t ! i"
    "\<forall>k < length ms. location (orders u ! (Suc (order_count s) + k)) = parse_order (ms ! k)"
    using one.IH by simp_all
  have "location (orders u ! (order_count s + k)) = parse_order ((m # ms) ! k)" if "k < length (m # ms)" for k
  proof (cases k)
    case 0
    then show ?thesis using IH(3) t(1) one.prems by (simp add: new_order_def)
  next
    case (Suc j)
    then show ?thesis using IH(4) that by simp
  qed
  then show ?case using IH t(1) by simp
qed simp

end
