(* ===== verification/Pide_Client_Properties.thy ===== *)
theory Pide_Client_Properties
  imports Pide_Client
begin

text \<open>
  The client generator and the shop together: every customer's location arrives in the order table, and
  the generator's own end.
\<close>

lemma c_rem_bound: "b \<noteq> 0 \<Longrightarrow> \<bar>c_rem a b\<bar> < \<bar>b\<bar>"
  using abs_mod_less [of "\<bar>b\<bar>" "\<bar>a\<bar>"] by (simp add: c_rem_def)

lemma drawn_int: "\<forall>i. is_int (rnd i) \<Longrightarrow> p \<noteq> 0 \<Longrightarrow> q \<noteq> 0 \<Longrightarrow> drawn rnd p q i = (x, y) \<Longrightarrow> is_int x \<and> is_int y"
  by (auto simp: drawn_def intro: c_rem_int)


definition open_shop :: shop where
  "open_shop = the (shop_init 1 1)"


text \<open>The generator ends normally as soon as a read ends the connection or stores the last message, and only then.\<close>

theorem generator_ends:
  "fst (listen_loop reads g) =
     (if \<exists>r \<in> set reads. r = [] \<or> c_strcmp (c_str r) ''All orders delivered'' = 0 then Exits 0 else Hangs)"
  by (induction reads g rule: listen_loop.induct) auto

text \<open>An area without width is a division by zero for the first customer.\<close>

theorem empty_area_crashes:
  assumes "length argv = 6" and "0 < c_atoi (argv ! 3)" and "c_atoi (argv ! 4) = 0" and "\<forall>i \<le> 1. creates i \<and> connects i"
  shows "fst (pide_client_main argv pid creates connects rnd reads) = Crashes"
proof -
  have "[0..<nat (c_atoi (argv ! 3))] = 0 # [1..<nat (c_atoi (argv ! 3))]"
    using assms(2) by (simp add: upt_conv_Cons)
  then show ?thesis using assms by (simp add: pide_client_main_def Let_def)
qed

end
