(* ===== verification/Pide_Server.thy ===== *)
theory Pide_Server
  imports Pide_Shop
begin

text \<open>
  How the server of the pide shop starts and ends (sys07, \<open>server.c\<close>): \<open>main\<close> up to the loop that
  accepts connections, with the system calls that may fail in between, the log and \<open>SIGINT\<close>. Which of
  the calls succeed and what \<open>strftime\<close> stores are arguments; the port and the speed of the delivery
  persons only go to \<open>bind\<close> and \<open>usleep\<close>.
\<close>

datatype start_call = Sigaction | Socket | Bind | Listen | OpenLog

datatype shop_main = Ends int | Overruns | Serves shop

text \<open>The result, and what was printed; \<open>perror\<close> stands for its argument.\<close>

definition pide_shop_main :: "string list \<Rightarrow> (start_call \<Rightarrow> bool) \<Rightarrow> shop_main \<times> string list" where
  "pide_shop_main argv succeeds =
     (if length argv \<noteq> 5
      then (Ends 1, [''Usage: '' @ (if argv = [] then [] else argv ! 0) @
              '' [portnumber] [CookthreadPoolSize] [DeliveryPoolSize] [k]\<newline>''])
      else
        (let cook_pool_size = c_atoi (argv ! 2); delivery_pool_size = c_atoi (argv ! 3) in
         if \<not> succeeds Sigaction then (Ends 1, [''Failed to set SIGINT signal handler''])
         else if \<not> succeeds Socket then (Ends 1, [''Error creating socket''])
         else
           (let out = [''PideShop active, waiting for connection...\<newline>''] in
            if \<not> succeeds Bind then (Ends 1, out @ [''Error binding socket''])
            else if \<not> succeeds Listen then (Ends 1, out @ [''Error listening on socket''])
            else if \<not> succeeds OpenLog then (Ends 1, out @ [''Error opening log file''])
            else
              (case shop_init (nat cook_pool_size) (nat delivery_pool_size) of
                 None \<Rightarrow> (Overruns, out)
               | Some s \<Rightarrow> (Serves s, out)))))"

definition log_event :: "string \<Rightarrow> string \<Rightarrow> string list \<Rightarrow> string list" where
  "log_event time_buffer event log_file = log_file @ [''['' @ time_buffer @ ''] '' @ event @ ''\<newline>'']"

text \<open>The exit status, the text on the terminal and the log.\<close>

definition handle_sigint :: "string \<Rightarrow> string list \<Rightarrow> int \<times> string \<times> string list" where
  "handle_sigint time_buffer log_file =
     (0, ''Pide shop is shutting down...\<newline>'',
      log_event time_buffer ''Pide shop is shutting down'' log_file)"

text \<open>
  The shop opens exactly when it was called with four arguments, no system call failed and both pools
  fit their arrays; then it starts in the state the machine of its threads starts in.
\<close>

theorem shop_opens:
  "(\<exists>s. fst (pide_shop_main argv succeeds) = Serves s \<and>
      shop_start (nat (c_atoi (argv ! 2))) (nat (c_atoi (argv ! 3))) s) \<longleftrightarrow>
   length argv = 5 \<and> (\<forall>c. succeeds c) \<and> c_atoi (argv ! 2) \<le> 10 \<and> c_atoi (argv ! 3) \<le> 10"
proof -
  have "(\<forall>c. succeeds c) \<longleftrightarrow>
      succeeds Sigaction \<and> succeeds Socket \<and> succeeds Bind \<and> succeeds Listen \<and> succeeds OpenLog"
    by (metis start_call.exhaust)
  then show ?thesis
    by (auto simp: pide_shop_main_def shop_start_def shop_init_def MAX_COOKS_def MAX_DELIVERIES_def Let_def)
qed

end
