(* ===== verification/Grades.thy ===== *)
theory Grades
  imports C_Library
begin

text \<open>
  The student grade management program (sys01). Every command runs in a forked child for which
  the parent waits, so a command is a function of the world: the files, the log and what has been
  printed. A null pointer handed to \<open>strcmp\<close>, \<open>strcpy\<close> or \<open>atoi\<close> ends the process that does it:
  \<open>Crashed\<close> for a child (the program goes on), \<open>Segv\<close> for the parent.

  Creating a process and opening and writing \<open>log.log\<close> are taken to succeed; a file opens if it
  exists.
\<close>

subsection \<open>The world\<close>

definition MAX_LEN :: nat where "MAX_LEN = 50"

record world =
  files :: "string \<Rightarrow> string option"
  log :: "string list"
  out :: "string list"

datatype status = Exited | Crashed

definition newline :: string where
  "newline = [CHR 0x0A]"

definition saveToLog :: "string \<Rightarrow> world \<Rightarrow> world" where
  "saveToLog event w = w\<lparr>log := log w @ [event]\<rparr>"

definition say :: "string \<Rightarrow> world \<Rightarrow> world" where
  "say s w = w\<lparr>out := out w @ [s]\<rparr>"

text \<open>\<open>printf\<close> of a null pointer, and \<open>open\<close> of one.\<close>

definition text_of :: "string option \<Rightarrow> string" where
  "text_of t = (case t of None \<Rightarrow> ''(null)'' | Some s \<Rightarrow> s)"

definition open_file :: "world \<Rightarrow> string option \<Rightarrow> string option" where
  "open_file w path = (case path of None \<Rightarrow> None | Some p \<Rightarrow> files w p)"

definition strcmp_ptr :: "string option \<Rightarrow> string option \<Rightarrow> int option" where
  "strcmp_ptr s t = (case (s, t) of (Some a, Some b) \<Rightarrow> Some (c_strcmp a b) | _ \<Rightarrow> None)"

subsection \<open>createFile, addStudentGrade\<close>

definition createFile :: "string \<Rightarrow> world \<Rightarrow> world \<times> status" where
  "createFile buf w =
     (case c_tokens 2 '' '' buf of
        [arg0, Some path] \<Rightarrow>
          let w1 = (if files w path = None then w\<lparr>files := (files w)(path := Some [])\<rparr> else w) in
          (say ''Operation finished successfully.'' (saveToLog (''- Child process completed file creation'' @ newline) w1),
           Exited)
      | _ \<Rightarrow> (saveToLog (''- Failed to create file'' @ newline) w, Exited))"

definition record_line :: "string option \<Rightarrow> string option \<Rightarrow> string option \<Rightarrow> string" where
  "record_line name surname grade =
     c_snprintf MAX_LEN (text_of name @ '' '' @ text_of surname @ '', '' @ text_of grade @ newline)"

definition addStudentGrade :: "string \<Rightarrow> world \<Rightarrow> world \<times> status" where
  "addStudentGrade buf w =
     (case c_tokens 5 '' '' buf of
        [arg0, arg1, arg2, arg3, arg4] \<Rightarrow>
          (case open_file w arg4 of
             None \<Rightarrow> (saveToLog (''- Failed to open file for adding student grade'' @ newline) w, Exited)
           | Some contents \<Rightarrow>
               let w1 = w\<lparr>files := (files w)(the arg4 := Some (contents @ record_line arg1 arg2 arg3))\<rparr> in
               (say ''Operation finished successfully.''
                  (saveToLog (''- Child process completed adding student grade'' @ newline) w1), Exited))
      | _ \<Rightarrow> (w, Exited))"

subsection \<open>Reading a file line by line\<close>

text \<open>
  The loop shared by the readers: a line ends at a newline or when 49 characters are stored, and
  in both cases the character just read is dropped; what follows the last line end is ignored.
\<close>

fun read_lines :: "string \<Rightarrow> string \<Rightarrow> string list" where
  "read_lines line [] = []"
| "read_lines line (ch # cs) =
     (if ch = CHR 0x0A \<or> MAX_LEN - 1 \<le> length line then line # read_lines [] cs
      else read_lines (line @ [ch]) cs)"

subsection \<open>searchStudentGrade\<close>

definition split_record :: "string \<Rightarrow> string option \<times> string option \<times> string option" where
  "split_record line =
     (let (name, r1) = c_strtok '' '' line; (surname, r2) = c_strtok '','' r1;
          (grade, r3) = c_strtok '' '' r2
      in (name, surname, grade))"

text \<open>\<open>name\<close> and \<open>surname\<close> are compared in this order; \<open>None\<close> is the crash.\<close>

definition matches :: "string option \<Rightarrow> string option \<Rightarrow> string \<Rightarrow> bool option" where
  "matches arg1 arg2 line =
     (case split_record line of (name, surname, grade) \<Rightarrow>
        (case strcmp_ptr name arg1 of
           None \<Rightarrow> None
         | Some c \<Rightarrow> if c \<noteq> 0 then Some False
                     else map_option (\<lambda>d. d = 0) (strcmp_ptr surname arg2)))"

definition found_text :: "string \<Rightarrow> string" where
  "found_text line =
     (case split_record line of (name, surname, grade) \<Rightarrow>
        text_of name @ '' '' @ text_of surname @ '' '' @ text_of grade)"

fun search_lines :: "string option \<Rightarrow> string option \<Rightarrow> string list \<Rightarrow> string option option" where
  "search_lines arg1 arg2 [] = Some None"
| "search_lines arg1 arg2 (line # ls) =
     (case matches arg1 arg2 line of
        None \<Rightarrow> None
      | Some True \<Rightarrow> Some (Some (found_text line))
      | Some False \<Rightarrow> search_lines arg1 arg2 ls)"

definition searchStudentGrade :: "string \<Rightarrow> world \<Rightarrow> world \<times> status" where
  "searchStudentGrade buf w =
     (case c_tokens 4 '' '' buf of
        [arg0, arg1, arg2, arg3] \<Rightarrow>
          (case open_file w arg3 of
             None \<Rightarrow> (saveToLog (''- Failed to open file for searching student grade'' @ newline) w, Exited)
           | Some contents \<Rightarrow>
               (case search_lines arg1 arg2 (read_lines [] contents) of
                  None \<Rightarrow> (w, Crashed)
                | Some r \<Rightarrow>
                    (say ''Operation finished successfully.''
                       (saveToLog (''- Child process completed searching student grade'' @ newline)
                          (say (case r of None \<Rightarrow> ''Student not found in the file.'' | Some s \<Rightarrow> s) w)),
                     Exited)))
      | _ \<Rightarrow> (w, Exited))"

subsection \<open>sortStudentGrades\<close>

definition name_of :: "string \<Rightarrow> string option" where
  "name_of line = fst (c_strtok '' '' line)"

definition compare_swap :: "nat \<Rightarrow> nat \<Rightarrow> string list \<Rightarrow> string list option" where
  "compare_swap i j ls =
     (case strcmp_ptr (name_of (ls ! i)) (name_of (ls ! j)) of
        None \<Rightarrow> None
      | Some c \<Rightarrow> Some (if 0 < c then ls[i := ls ! j, j := ls ! i] else ls))"

fun sort_inner :: "nat \<Rightarrow> nat list \<Rightarrow> string list \<Rightarrow> string list option" where
  "sort_inner i [] ls = Some ls"
| "sort_inner i (j # js) ls = Option.bind (compare_swap i j ls) (sort_inner i js)"

fun sort_outer :: "nat \<Rightarrow> nat list \<Rightarrow> string list \<Rightarrow> string list option" where
  "sort_outer n [] ls = Some ls"
| "sort_outer n (i # is) ls = Option.bind (sort_inner i [i + 1..<n] ls) (sort_outer n is)"

text \<open>\<open>lines\<close> is an array of 100 lines: \<open>None\<close> is a crash or a store beyond it.\<close>

definition sort_lines :: "string list \<Rightarrow> string list option" where
  "sort_lines ls =
     (if 100 < length ls then None else sort_outer (length ls) [0..<length ls - 1] ls)"

definition sortStudentGrades :: "string \<Rightarrow> world \<Rightarrow> world \<times> status" where
  "sortStudentGrades buf w =
     (case c_tokens 2 '' '' buf of
        [arg0, arg1] \<Rightarrow>
          (case open_file w arg1 of
             None \<Rightarrow> (saveToLog (''- Failed to open file for sorting student grades'' @ newline) w, Exited)
           | Some contents \<Rightarrow>
               (case sort_lines (read_lines [] contents) of
                  None \<Rightarrow> (w, Crashed)
                | Some ls \<Rightarrow>
                    (say ''Operation finished successfully.''
                       (saveToLog (''- Child process completed sorting student grades'' @ newline)
                          (foldl (\<lambda>v l. say l v) (say ''Sorted Student List: '' w) ls)), Exited)))
      | _ \<Rightarrow> (w, Exited))"

subsection \<open>showAllStudents, listSomeStudents\<close>

definition row_text :: "string \<Rightarrow> string" where
  "row_text line =
     (let (name, r1) = c_strtok '' '' line; (surname, r2) = c_strtok '' '' r1;
          (grade, r3) = c_strtok '' '' r2
      in text_of name @ '' '' @ text_of surname @ '' '' @ text_of grade)"

fun show_rows :: "bool \<Rightarrow> bool \<Rightarrow> int \<Rightarrow> int \<Rightarrow> int \<Rightarrow> string list \<Rightarrow> string list" where
  "show_rows listGrades listSome startEntry endEntry cnt [] = []"
| "show_rows listGrades listSome startEntry endEntry cnt (line # ls) =
     (let all_row = (if \<not> listGrades \<and> \<not> listSome then [row_text line] else []);
          cnt' = cnt + 1;
          first_row = (if listGrades \<and> cnt' \<le> 5 then [row_text line] else []);
          some_row = (if listSome \<and> startEntry \<le> cnt' \<and> cnt' \<le> endEntry
                      then [row_text line] else [])
      in if listGrades \<and> 5 < cnt' then all_row
         else all_row @ first_row @ some_row @
              show_rows listGrades listSome startEntry endEntry cnt' ls)"

definition heading :: "bool \<Rightarrow> bool \<Rightarrow> string" where
  "heading listGrades listSome =
     (if listGrades then ''*** Showing first 5 entries ***''
      else if listSome then ''*** Showing the students in the given range ***''
      else ''*** Showing all students ***'')"

definition showAllStudents ::
  "string \<Rightarrow> bool \<Rightarrow> bool \<Rightarrow> int \<Rightarrow> int \<Rightarrow> string option \<Rightarrow> world \<Rightarrow> world \<times> status" where
  "showAllStudents buf listGrades listSome startEntry endEntry file w0 =
     (let w = say (heading listGrades listSome) w0;
          path = (if listSome then file else c_tokens 2 '' '' buf ! 1)
      in if path = None then (w, Crashed)
         else case open_file w path of
           None \<Rightarrow> (saveToLog (''- Failed to open file for displaying student grades'' @ newline) w, Exited)
         | Some contents \<Rightarrow>
             (say ''Operation finished successfully.''
                (saveToLog (''- Child process completed displaying student grades'' @ newline)
                   (foldl (\<lambda>v l. say l v) w
                      (show_rows listGrades listSome startEntry endEntry 0 (read_lines [] contents)))),
              Exited))"

text \<open>The \<open>int\<close> products of \<open>listSomeStudents\<close>, wrapped to 32 bits.\<close>

definition wrap_int :: "int \<Rightarrow> int" where
  "wrap_int v = signed_take_bit 31 v"

definition page_start :: "int \<Rightarrow> int \<Rightarrow> int" where
  "page_start numofEntries pageNumber = wrap_int ((pageNumber - 1) * numofEntries + 1)"

definition page_end :: "int \<Rightarrow> int \<Rightarrow> int" where
  "page_end numofEntries pageNumber = wrap_int (pageNumber * numofEntries)"

subsection \<open>main\<close>

datatype verdict = Continue | Quit | Failure | Segv

definition listSomeStudents :: "string \<Rightarrow> world \<Rightarrow> world \<times> verdict" where
  "listSomeStudents buf w =
     (case c_tokens 4 '' '' buf of
        [arg0, Some arg1, Some arg2, arg3] \<Rightarrow>
          let m = c_atoi arg1; p = c_atoi arg2 in
          (fst (showAllStudents (text_of arg0) False True (page_start m p) (page_end m p) arg3 w), Continue)
      | _ \<Rightarrow> (w, Segv))"

definition dispatch :: "string \<Rightarrow> world \<Rightarrow> world \<times> verdict" where
  "dispatch buf w =
     (let missing = (say ''Please provide argument!'' w, Failure) in
      case c_tokens 2 '' '' buf of
        [Some command, arg2] \<Rightarrow>
          if command = ''q'' then (say ''*** Exiting the program ***'' w, Quit)
          else if command = ''gtuStudentGrades'' then
            (if arg2 \<noteq> None then (fst (createFile buf w), Continue) else (say ''# NAME'' w, Continue))
          else if command = ''addStudentGrade'' then
            (if arg2 = None then missing else (fst (addStudentGrade buf w), Continue))
          else if command = ''searchStudent'' then
            (if arg2 = None then missing else (fst (searchStudentGrade buf w), Continue))
          else if command = ''sortAll'' then
            (if arg2 = None then missing else (fst (sortStudentGrades buf w), Continue))
          else if command = ''showAll'' then
            (if arg2 = None then missing
             else (fst (showAllStudents buf False False 0 0 (Some []) w), Continue))
          else if command = ''listGrades'' then
            (if arg2 = None then missing
             else (fst (showAllStudents buf True False 0 0 (Some []) w), Continue))
          else if command = ''listSome'' then
            (if arg2 = None then missing else listSomeStudents buf w)
          else (w, Continue)
      | _ \<Rightarrow> (w, Segv))"

text \<open>The loop over \<open>read\<close>: up to 49 characters, the newline consumed but not stored.\<close>

fun read_command :: "nat \<Rightarrow> string \<Rightarrow> string \<times> string" where
  "read_command 0 s = ([], s)"
| "read_command (Suc n) [] = ([], [])"
| "read_command (Suc n) (c # s) =
     (if c = CHR 0x0A then ([], s) else (let (b, r) = read_command n s in (c # b, r)))"

lemma read_command_rest: "length (snd (read_command n s)) \<le> length s"
  by (induction n s rule: read_command.induct) (auto split: prod.splits)

lemma read_command_shorter:
  "0 < n \<Longrightarrow> s \<noteq> [] \<Longrightarrow> read_command n s = (b, r) \<Longrightarrow> length r < length s"
  using read_command_rest [of "n - 1" "tl s"]
  by (cases n; cases s) (auto split: prod.splits if_splits)

function grades_main :: "string \<Rightarrow> world \<Rightarrow> world \<times> verdict" where
  "grades_main stdin w =
     (let (buf, rest) = read_command (MAX_LEN - 1) stdin; (w', v) = dispatch buf w in
      if v = Continue \<and> stdin \<noteq> [] then grades_main rest w' else (w', v))"
  by pat_completeness auto
termination
proof (relation "measure (\<lambda>(s, w). length s)")
  fix stdin :: string and w x buf rest y w' v
  assume "x = read_command (MAX_LEN - 1) stdin" "(buf, rest) = x" "v = Continue \<and> stdin \<noteq> []"
  then show "((rest, w'), stdin, w) \<in> measure (\<lambda>(s, w). length s)"
    using read_command_shorter [of "MAX_LEN - 1" stdin buf rest] by (auto simp: MAX_LEN_def)
qed simp

declare grades_main.simps [simp del]

end
