(* ===== verification/Grades_Properties.thy ===== *)
theory Grades_Properties
  imports Grades
begin

text \<open>
  What the grade management program does: the exchange sort sorts, an added record is found again,
  the pages of \<open>listSome\<close> partition the file, and a blank input line ends the program.
\<close>

subsection \<open>Sorting\<close>

definition named :: "string list \<Rightarrow> bool" where
  "named ls = (\<forall>l \<in> set ls. name_of l \<noteq> None \<and> nul_free l)"

definition name_le :: "string \<Rightarrow> string \<Rightarrow> bool" where
  "name_le a b = (c_strcmp (the (name_of a)) (the (name_of b)) \<le> 0)"

lemma c_strtok_subset: "c_strtok d s = (Some t, r) \<Longrightarrow> set t \<subseteq> set s"
  by (auto simp: c_strtok_def Let_def split: if_splits dest!: set_takeWhileD set_dropWhileD)

lemma name_nul_free:
  assumes "nul_free l" "name_of l \<noteq> None"
  shows "nul_free (the (name_of l))"
proof -
  obtain t r where "c_strtok '' '' l = (Some t, r)" "name_of l = Some t"
    using assms(2) by (cases "c_strtok '' '' l") (auto simp: name_of_def)
  with assms(1) c_strtok_subset show ?thesis by (fastforce simp: nul_free_def)
qed

lemma name_le_refl: "name_le a a"
  by (simp add: name_le_def)

lemma name_le_trans:
  "named ls \<Longrightarrow> a \<in> set ls \<Longrightarrow> b \<in> set ls \<Longrightarrow> name_le a b \<Longrightarrow> name_le b c \<Longrightarrow> name_le a c"
  unfolding name_le_def named_def by (metis c_strcmp_trans name_nul_free)

lemma name_le_cases: "\<not> name_le a b \<Longrightarrow> name_le b a"
  unfolding name_le_def using c_strcmp_total by blast

lemma compare_swap_named:
  assumes "named ls" "i < length ls" "j < length ls"
  shows "compare_swap i j ls =
    Some (if name_le (ls ! i) (ls ! j) then ls else ls[i := ls ! j, j := ls ! i])"
proof -
  from assms obtain a b where "name_of (ls ! i) = Some a" "name_of (ls ! j) = Some b"
    unfolding named_def by (meson nth_mem option.exhaust)
  then show ?thesis by (auto simp: compare_swap_def strcmp_ptr_def name_le_def)
qed

lemma named_mset: "mset xs = mset ys \<Longrightarrow> named xs = named ys"
  unfolding named_def by (metis set_mset_mset)

text \<open>The inner loop brings the least of the entries from \<open>i\<close> on to the front.\<close>

lemma sort_inner_min:
  assumes "named ls" "i < j" "j \<le> length ls"
    and "\<And>k. i < k \<Longrightarrow> k < j \<Longrightarrow> name_le (ls ! i) (ls ! k)"
  shows "\<exists>ls'. sort_inner i [j..<length ls] ls = Some ls' \<and> mset ls' = mset ls \<and>
    take i ls' = take i ls \<and> (\<forall>k. i < k \<and> k < length ls \<longrightarrow> name_le (ls' ! i) (ls' ! k))"
  using assms
proof (induction "length ls - j" arbitrary: j ls)
  case 0
  then show ?case by (intro exI [of _ ls]) simp
next
  case (Suc n)
  then have j: "j < length ls" "i < length ls" by simp_all
  define ls1 where "ls1 = (if name_le (ls ! i) (ls ! j) then ls else ls[i := ls ! j, j := ls ! i])"
  have len: "length ls1 = length ls" by (simp add: ls1_def)
  have m1: "mset ls1 = mset ls"
    using j mset_swap [of j ls i] by (simp add: ls1_def list_update_swap)
  with Suc.prems(1) have nm: "named ls1" using named_mset by blast
  have t1: "take i ls1 = take i ls" using Suc.prems(2) by (simp add: ls1_def)
  have le: "name_le (ls1 ! i) (ls1 ! k)" if k: "i < k" "k < Suc j" for k
  proof (cases "name_le (ls ! i) (ls ! j)")
    case True
    then show ?thesis using Suc.prems(4) [of k] k by (cases "k = j") (simp_all add: ls1_def)
  next
    case False
    then have ji: "name_le (ls ! j) (ls ! i)" by (rule name_le_cases)
    show ?thesis
    proof (cases "k = j")
      case True
      with False ji j k show ?thesis by (simp add: ls1_def)
    next
      case other: False
      with k have "name_le (ls ! i) (ls ! k)" using Suc.prems(4) by simp
      with ji have "name_le (ls ! j) (ls ! k)"
        using name_le_trans [OF Suc.prems(1)] j nth_mem by blast
      with False other j k show ?thesis by (simp add: ls1_def)
    qed
  qed
  have "\<exists>ls'. sort_inner i [Suc j..<length ls1] ls1 = Some ls' \<and> mset ls' = mset ls1 \<and>
    take i ls' = take i ls1 \<and> (\<forall>k. i < k \<and> k < length ls1 \<longrightarrow> name_le (ls' ! i) (ls' ! k))"
    by (rule Suc.hyps(1)) (use Suc.hyps(2) Suc.prems nm le len in auto)
  then obtain ls' where ls': "sort_inner i [Suc j..<length ls] ls1 = Some ls'" "mset ls' = mset ls"
    "take i ls' = take i ls" "\<forall>k. i < k \<and> k < length ls \<longrightarrow> name_le (ls' ! i) (ls' ! k)"
    using m1 t1 len by auto
  have "sort_inner i [j..<length ls] ls = Some ls'"
    using j compare_swap_named [OF Suc.prems(1) j(2,1)] ls'(1)
    by (simp add: upt_conv_Cons ls1_def)
  with ls' show ?case by blast
qed

text \<open>The entries before \<open>i\<close> are final: each is at most everything behind it.\<close>

definition sorted_upto :: "nat \<Rightarrow> string list \<Rightarrow> bool" where
  "sorted_upto i ls = (\<forall>a < i. \<forall>b. a < b \<and> b < length ls \<longrightarrow> name_le (ls ! a) (ls ! b))"

lemma sorted_upto_inner:
  assumes "sorted_upto i ls" "mset ls' = mset ls" "take i ls' = take i ls"
    and "\<forall>k. i < k \<and> k < length ls \<longrightarrow> name_le (ls' ! i) (ls' ! k)"
  shows "sorted_upto (Suc i) ls'"
  unfolding sorted_upto_def
proof (intro allI impI)
  fix a b assume a: "a < Suc i" and b: "a < b \<and> b < length ls'"
  have len: "length ls' = length ls" using assms(2) by (rule mset_eq_length)
  show "name_le (ls' ! a) (ls' ! b)"
  proof (cases "a = i")
    case True
    with b assms(4) len show ?thesis by simp
  next
    case False
    with a have ai: "a < i" by simp
    then have same: "ls' ! a = ls ! a" using assms(3) by (metis nth_take)
    obtain c where c: "a < c" "c < length ls" "ls' ! b = ls ! c"
    proof (cases "b < i")
      case True
      then have "ls' ! b = ls ! b" using assms(3) by (metis nth_take)
      with b len that show ?thesis by auto
    next
      case False
      have "mset (drop i ls') = mset (drop i ls)"
        using assms(2,3) by (metis append_take_drop_id mset_append add_left_cancel)
      moreover have "ls' ! b \<in> set (drop i ls')"
        using False b by (auto simp: in_set_conv_nth intro!: exI [of _ "b - i"])
      ultimately have "ls' ! b \<in> set (drop i ls)" by (metis set_mset_mset)
      then obtain k where "k < length ls - i" "ls' ! b = ls ! (i + k)"
        by (auto simp: in_set_conv_nth)
      with ai that [of "i + k"] show ?thesis by simp
    qed
    with assms(1) ai same show ?thesis by (auto simp: sorted_upto_def)
  qed
qed

lemma sort_outer_sorted:
  assumes "named ls" "i \<le> length ls - 1" "sorted_upto i ls"
  shows "\<exists>ls'. sort_outer (length ls) [i..<length ls - 1] ls = Some ls' \<and> mset ls' = mset ls \<and>
    sorted_upto (length ls - 1) ls'"
  using assms
proof (induction "length ls - 1 - i" arbitrary: i ls)
  case 0
  then have "i = length ls - 1" by simp
  with 0 show ?case by (intro exI [of _ ls]) simp
next
  case (Suc n)
  then have i: "i < length ls - 1" by simp
  then have "Suc i \<le> length ls" by simp
  from sort_inner_min [OF Suc.prems(1), of i "Suc i", OF _ this] obtain ls1 where
    ls1: "sort_inner i [Suc i..<length ls] ls = Some ls1" "mset ls1 = mset ls" "take i ls1 = take i ls"
      "\<forall>k. i < k \<and> k < length ls \<longrightarrow> name_le (ls1 ! i) (ls1 ! k)"
    by auto
  have len: "length ls1 = length ls" using ls1(2) by (rule mset_eq_length)
  have "\<exists>ls'. sort_outer (length ls1) [Suc i..<length ls1 - 1] ls1 = Some ls' \<and> mset ls' = mset ls1 \<and>
    sorted_upto (length ls1 - 1) ls'"
    by (rule Suc.hyps(1))
      (use Suc.hyps(2) Suc.prems i len named_mset [OF ls1(2)] sorted_upto_inner [OF Suc.prems(3) ls1(2-4)] in auto)
  with ls1 len i show ?case by (simp add: upt_conv_Cons)
qed

lemma sorted_upto_wrt: "sorted_upto (length ls - 1) ls \<Longrightarrow> sorted_wrt name_le ls"
  by (auto simp: sorted_upto_def sorted_wrt_iff_nth_less)

text \<open>C14. The exchange sort of \<open>sortAll\<close> is correct: for at most 100 lines, each with a name, it ends
  without a crash, prints a permutation of the lines, and the names ascend in the order of
  \<open>strcmp\<close>.\<close>

theorem sort_correct:
  assumes "length ls \<le> 100" "\<And>l. l \<in> set ls \<Longrightarrow> name_of l \<noteq> None \<and> nul_free l"
  shows "\<exists>ls'. sort_lines ls = Some ls' \<and> mset ls' = mset ls \<and>
    sorted_wrt (\<lambda>a b. c_strcmp (the (name_of a)) (the (name_of b)) \<le> 0) ls'"
proof -
  have "named ls" using assms(2) by (simp add: named_def)
  from sort_outer_sorted [OF this, of 0] obtain ls' where
    ls': "sort_outer (length ls) [0..<length ls - 1] ls = Some ls'" "mset ls' = mset ls"
      "sorted_upto (length ls - 1) ls'"
    by (auto simp: sorted_upto_def)
  have "length ls' = length ls" using ls'(2) by (rule mset_eq_length)
  with ls'(3) have "sorted_wrt name_le ls'" using sorted_upto_wrt by metis
  moreover have "name_le = (\<lambda>a b. c_strcmp (the (name_of a)) (the (name_of b)) \<le> 0)"
    by (intro ext) (simp add: name_le_def)
  ultimately show ?thesis using ls' assms(1) by (simp add: sort_lines_def)
qed

theorem sort_correct_witness:
  "\<exists>ls'. sort_lines [''Veli Can, BB'', ''Ali Kaya, AA''] = Some ls' \<and>
     mset ls' = {#''Veli Can, BB'', ''Ali Kaya, AA''#} \<and>
     sorted_wrt (\<lambda>a b. c_strcmp (the (name_of a)) (the (name_of b)) \<le> 0) ls'"
proof -
  have "name_of ''Veli Can, BB'' = Some ''Veli''" "name_of ''Ali Kaya, AA'' = Some ''Ali''"
    by (simp_all add: name_of_def c_strtok_def)
  then have "name_of l \<noteq> None \<and> nul_free l" if "l \<in> set [''Veli Can, BB'', ''Ali Kaya, AA'']" for l
    using that by auto
  from sort_correct [of "[''Veli Can, BB'', ''Ali Kaya, AA'']", OF _ this] show ?thesis by simp
qed

subsection \<open>Adding and searching\<close>

definition word_ok :: "string \<Rightarrow> bool" where
  "word_ok t = (t \<noteq> [] \<and> set t \<inter> {CHR '' '', CHR '','', CHR 0x0A, CHR 0x00} = {})"

fun unwords :: "string list \<Rightarrow> string" where
  "unwords [] = []"
| "unwords [t] = t"
| "unwords (t # ts) = t @ '' '' @ unwords ts"

lemma tokens_unwords:
  "(\<And>t. t \<in> set ts \<Longrightarrow> t \<noteq> [] \<and> CHR '' '' \<notin> set t) \<Longrightarrow>
   c_tokens (length ts) '' '' (unwords ts) = map Some ts"
proof (induction ts rule: unwords.induct)
  case (2 t)
  then show ?case using c_strtok_last [of t "'' ''"] by simp
next
  case (3 t u ts)
  then have "c_strtok '' '' (t @ CHR '' '' # unwords (u # ts)) = (Some t, unwords (u # ts))"
    by (intro c_strtok_token) auto
  with 3 show ?case by simp
qed simp

lemma tokens_of_words:
  "length ts = k \<Longrightarrow> (\<And>t. t \<in> set ts \<Longrightarrow> t \<noteq> [] \<and> CHR '' '' \<notin> set t) \<Longrightarrow>
   c_tokens k '' '' (unwords ts) = map Some ts"
  using tokens_unwords [of ts] by auto

declare unwords.simps [simp del] c_tokens.simps [simp del]

lemma word_token: "word_ok t \<Longrightarrow> t \<noteq> [] \<and> CHR '' '' \<notin> set t"
  by (auto simp: word_ok_def)

text \<open>Whole lines are read as they were written, if they have at most 49 characters.\<close>

lemma read_line:
  "CHR 0x0A \<notin> set l \<Longrightarrow> length (line @ l) \<le> 49 \<Longrightarrow>
   read_lines line (l @ CHR 0x0A # rest) = (line @ l) # read_lines [] rest"
  by (induction l arbitrary: line) (auto simp: MAX_LEN_def)

definition file_of :: "string list \<Rightarrow> string" where
  "file_of ls = concat (map (\<lambda>l. l @ newline) ls)"

lemma read_file:
  "(\<And>l. l \<in> set ls \<Longrightarrow> CHR 0x0A \<notin> set l \<and> length l \<le> 49) \<Longrightarrow>
   read_lines [] (file_of ls @ rest) = ls @ read_lines [] rest"
  by (induction ls) (auto simp: file_of_def newline_def read_line)

definition record_text :: "string \<Rightarrow> string \<Rightarrow> string \<Rightarrow> string" where
  "record_text n s g = n @ '' '' @ s @ '', '' @ g"

lemma record_line_full:
  assumes "length n + length s + length g \<le> 45"
  shows "record_line (Some n) (Some s) (Some g) = record_text n s g @ newline"
  using assms c_snprintf_short [of "record_text n s g @ newline" MAX_LEN]
  by (simp add: record_line_def text_of_def record_text_def newline_def MAX_LEN_def)

lemma split_record_text:
  assumes "word_ok n" "word_ok s" "word_ok g"
  shows "split_record (record_text n s g) = (Some n, Some s, Some g)"
proof -
  have "c_strtok '' '' (n @ CHR '' '' # (s @ CHR '','' # CHR '' '' # g)) = (Some n, s @ CHR '','' # CHR '' '' # g)"
    using assms(1) by (intro c_strtok_token) (auto simp: word_ok_def)
  moreover have "c_strtok '','' (s @ CHR '','' # (CHR '' '' # g)) = (Some s, CHR '' '' # g)"
    using assms(2) by (intro c_strtok_token) (auto simp: word_ok_def)
  moreover have "c_strtok '' '' (CHR '' '' # g) = (Some g, [])"
    using assms(3) c_strtok_last [of g "'' ''"] by (auto simp: c_strtok_skip word_ok_def)
  ultimately show ?thesis by (simp add: split_record_def record_text_def)
qed

lemma search_skip:
  "(\<And>l. l \<in> set ls \<Longrightarrow> matches a b l = Some False) \<Longrightarrow>
   search_lines a b (ls @ ms) = search_lines a b ms"
  by (induction ls) auto

text \<open>A record that \<open>addStudentGrade\<close> appended is found by \<open>searchStudent\<close>: if the file consists of
  whole lines that the search passes over, adding name, surname and grade and then searching for
  the name prints them, and the rest of the file is as it was.\<close>

theorem search_finds_added:
  assumes "files w f = Some (file_of ls)" "word_ok n" "word_ok s" "word_ok g" "word_ok f"
    and "length n + length s + length g \<le> 45"
    and "\<And>l. l \<in> set ls \<Longrightarrow> CHR 0x0A \<notin> set l \<and> length l \<le> 49 \<and> matches (Some n) (Some s) l = Some False"
    and "w1 = fst (addStudentGrade (unwords [''addStudentGrade'', n, s, g, f]) w)"
  shows "files w1 = (files w)(f \<mapsto> file_of (ls @ [record_text n s g])) \<and>
    out (fst (searchStudentGrade (unwords [''searchStudent'', n, s, f]) w1)) =
      out w1 @ [n @ '' '' @ s @ '' '' @ g, ''Operation finished successfully.'']"
proof -
  have "c_tokens 5 '' '' (unwords [''addStudentGrade'', n, s, g, f]) =
      [Some ''addStudentGrade'', Some n, Some s, Some g, Some f]"
    by (subst tokens_of_words) (use assms(2-5) word_token in auto)
  then have w1: "files w1 = (files w)(f \<mapsto> file_of (ls @ [record_text n s g]))"
    using assms(1,6,8) record_line_full [OF assms(6)]
    by (simp add: addStudentGrade_def open_file_def say_def saveToLog_def file_of_def)
  have "c_tokens 4 '' '' (unwords [''searchStudent'', n, s, f]) =
      [Some ''searchStudent'', Some n, Some s, Some f]"
    by (subst tokens_of_words) (use assms(2-5) word_token in auto)
  moreover have new: "CHR 0x0A \<notin> set (record_text n s g)" "length (record_text n s g) \<le> 49"
    using assms(2-4,6) by (auto simp: record_text_def word_ok_def)
  have "read_lines [] (file_of (ls @ [record_text n s g]) @ []) = (ls @ [record_text n s g]) @ read_lines [] []"
    by (rule read_file) (use assms(7) new in auto)
  then have "read_lines [] (file_of (ls @ [record_text n s g])) = ls @ [record_text n s g]" by simp
  moreover have "matches (Some n) (Some s) (record_text n s g) = Some True"
    "found_text (record_text n s g) = n @ '' '' @ s @ '' '' @ g"
    by (simp_all add: matches_def found_text_def split_record_text assms(2-4) strcmp_ptr_def text_of_def)
  ultimately show ?thesis using w1 assms(7)
    by (simp add: searchStudentGrade_def open_file_def search_skip say_def saveToLog_def)
qed

theorem search_finds_added_witness:
  "out (fst (searchStudentGrade ''searchStudent Ali Kaya f''
     (fst (addStudentGrade ''addStudentGrade Ali Kaya AA f''
        \<lparr>files = [''f'' \<mapsto> ''Veli Can, BB'' @ newline], log = [], out = []\<rparr>)))) =
   [''Operation finished successfully.'', ''Ali Kaya AA'', ''Operation finished successfully.'']"
proof -
  let ?w = "\<lparr>files = [''f'' \<mapsto> ''Veli Can, BB'' @ newline], log = [], out = []\<rparr>"
  let ?w1 = "fst (addStudentGrade (unwords [''addStudentGrade'', ''Ali'', ''Kaya'', ''AA'', ''f'']) ?w)"
  have "split_record ''Veli Can, BB'' = (Some ''Veli'', Some ''Can'', Some ''BB'')"
    by (simp add: split_record_def c_strtok_def)
  then have "matches (Some ''Ali'') (Some ''Kaya'') ''Veli Can, BB'' = Some False"
    by (simp add: matches_def strcmp_ptr_def)
  then have "out (fst (searchStudentGrade (unwords [''searchStudent'', ''Ali'', ''Kaya'', ''f'']) ?w1)) =
      out ?w1 @ [''Ali Kaya AA'', ''Operation finished successfully.'']"
    using search_finds_added [of ?w "''f''" "[''Veli Can, BB'']" "''Ali''" "''Kaya''" "''AA''" ?w1]
    by (simp add: word_ok_def file_of_def)
  moreover have "out ?w1 = [''Operation finished successfully.'']"
    by (simp add: addStudentGrade_def numeral_eq_Suc c_strtok_def open_file_def say_def saveToLog_def
      c_tokens.simps unwords.simps)
  ultimately show ?thesis by (simp add: unwords.simps)
qed

subsection \<open>Pages\<close>

lemma show_some_rows:
  "show_rows False True (int a) (int b) (int c) ls =
   map row_text (take (b - max (a - 1) c) (drop (a - 1 - c) ls))"
proof (induction ls arbitrary: c)
  case (Cons l ls)
  have IH: "show_rows False True (int a) (int b) (int c + 1) ls =
      map row_text (take (b - max (a - 1) (Suc c)) (drop (a - 1 - Suc c) ls))"
    using Cons.IH [of "Suc c"] by (simp add: add.commute)
  show ?case
  proof (cases "a \<le> Suc c")
    case True
    then have "max (a - 1) c = c" "max (a - 1) (Suc c) = Suc c" "a - 1 - c = 0" "a - 1 - Suc c = 0"
      by auto
    with True IH show ?thesis by (cases "Suc c \<le> b") (auto simp: take_Cons' Suc_diff_le)
  next
    case False
    then have "a - 1 - c = Suc (a - 1 - Suc c)" "max (a - 1) c = max (a - 1) (Suc c)" by auto
    with False IH show ?thesis by simp
  qed
qed simp

lemma page_rows:
  assumes "p * m < 2 ^ 31" "0 < p"
  shows "show_rows False True (page_start (int m) (int p)) (page_end (int m) (int p)) 0 ls =
    map row_text (take m (drop ((p - 1) * m) ls))"
proof -
  have split: "p * m = (p - 1) * m + m" using assms(2) by (cases p) auto
  have "(int p - 1) * int m + 1 = int ((p - 1) * m + 1)" using assms(2) by (cases p) auto
  moreover have "(p - 1) * m + 1 < 2 ^ 31"
  proof (cases m)
    case (Suc j)
    with assms(1) show ?thesis unfolding split by linarith
  qed simp
  then have "int ((p - 1) * m + 1) < 2 ^ 31" by (metis of_nat_less_iff of_nat_numeral of_nat_power)
  then have "wrap_int (int ((p - 1) * m + 1)) = int ((p - 1) * m + 1)"
    unfolding wrap_int_def by (intro signed_take_bit_int_eq_self) simp_all
  ultimately have start: "page_start (int m) (int p) = int ((p - 1) * m + 1)"
    unfolding page_start_def by argo
  have finish: "page_end (int m) (int p) = int (p * m)"
    using assms(1) by (simp add: page_end_def wrap_int_def signed_take_bit_int_eq_self flip: of_nat_mult)
  have "show_rows False True (int ((p - 1) * m + 1)) (int (p * m)) (int 0) ls =
      map row_text (take (p * m - max ((p - 1) * m + 1 - 1) 0) (drop ((p - 1) * m + 1 - 1 - 0) ls))"
    by (rule show_some_rows)
  then show ?thesis unfolding start finish using split by simp
qed

text \<open>The pages of \<open>listSome\<close> partition the file: the pages 1 to \<open>k\<close> of \<open>m\<close> entries, one after the
  other, show exactly the first \<open>k * m\<close> rows, each once and in order. In particular page 2 of 5
  shows the rows 6 to 10, not the rows 5 to 10 the printed manual promises.\<close>

theorem pages_partition:
  assumes "k * m < 2 ^ 31"
  shows "concat (map (\<lambda>p. show_rows False True (page_start (int m) (int p)) (page_end (int m) (int p)) 0 ls)
      [1..<Suc k]) = map row_text (take (k * m) ls)"
  using assms
proof (induction k)
  case (Suc k)
  have "show_rows False True (page_start (int m) (int (Suc k))) (page_end (int m) (int (Suc k))) 0 ls =
      map row_text (take m (drop (k * m) ls))"
    using page_rows [OF Suc.prems, of ls] by simp
  moreover have "take (Suc k * m) ls = take (k * m) ls @ take m (drop (k * m) ls)"
    using take_add [of "k * m" m ls] by (simp add: add.commute)
  moreover have "k * m < 2 ^ 31" using Suc.prems by (rule le_less_trans [rotated]) simp
  ultimately show ?case using Suc.IH by simp
qed simp

theorem pages_partition_witness:
  "concat (map (\<lambda>p. show_rows False True (page_start (int 2) (int p)) (page_end (int 2) (int p)) 0
     [''A B, AA'', ''C D, BB'', ''E F, CC'']) [1..<Suc 2]) = map row_text [''A B, AA'', ''C D, BB'', ''E F, CC'']"
  using pages_partition [of 2 2 "[''A B, AA'', ''C D, BB'', ''E F, CC'']"] by simp

subsection \<open>Blank input\<close>

lemma read_blank:
  "length b < n \<Longrightarrow> CHR 0x0A \<notin> set b \<Longrightarrow> read_command n (b @ CHR 0x0A # rest) = (b, rest)"
proof (induction b arbitrary: n)
  case Nil
  then show ?case by (cases n) simp_all
next
  case (Cons c b)
  then obtain m where "n = Suc m" by (cases n) auto
  with Cons show ?case by auto
qed

lemma dispatch_blank: "set b \<subseteq> {CHR '' ''} \<Longrightarrow> dispatch b w = (w, Segv)"
proof -
  assume "set b \<subseteq> {CHR '' ''}"
  then have "c_strtok '' '' b = (None, [])" by (auto simp: c_strtok_def Let_def)
  then show ?thesis by (simp add: dispatch_def numeral_2_eq_2 c_tokens.simps)
qed

text \<open>An input line that is empty or holds only spaces ends the program with a null pointer in
  \<open>strcmp\<close>, whatever follows, and so does the end of the input: only \<open>q\<close> ends it regularly.\<close>

theorem blank_line_crashes:
  assumes "set b \<subseteq> {CHR '' ''}" "length b < 49"
  shows "grades_main (b @ CHR 0x0A # rest) w = (w, Segv) \<and> grades_main [] w = (w, Segv)"
proof (rule conjI)
  have "CHR 0x0A \<notin> set b" using assms(1) by auto
  then have "read_command (MAX_LEN - 1) (b @ CHR 0x0A # rest) = (b, rest)"
    using assms(2) by (intro read_blank) (simp_all add: MAX_LEN_def)
  then show "grades_main (b @ CHR 0x0A # rest) w = (w, Segv)"
    using dispatch_blank [OF assms(1)] by (subst grades_main.simps) simp
  have "read_command (MAX_LEN - 1) [] = ([], [])" by (simp add: MAX_LEN_def numeral_eq_Suc)
  then show "grades_main [] w = (w, Segv)"
    using dispatch_blank [of "[]"] by (subst grades_main.simps) simp
qed

theorem blank_line_crashes_witness:
  "grades_main (''  '' @ newline @ ''showAll f'') \<lparr>files = Map.empty, log = [], out = []\<rparr> =
     (\<lparr>files = Map.empty, log = [], out = []\<rparr>, Segv)"
  using blank_line_crashes [of "''  ''"] by (simp add: newline_def)

end
