(* ===== verification/Parking.thy ===== *)
theory Parking
  imports Transition_Systems
begin

text \<open>
  The parking lot with two kinds of vehicles (sys04): for each kind a counter of free temporary
  spots, two semaphores and a valet, and the main thread of \<open>simulateNoTemporarySpots\<close>. The code
  for the two kinds is the same with other variables, so one record describes both. A step is a
  critical section, a semaphore operation, or an action of the main thread.
\<close>

subsection \<open>One kind of vehicle\<close>

definition MAX_PICKUPS :: nat where "MAX_PICKUPS = 4"
definition MAX_AUTOMOBILES :: nat where "MAX_AUTOMOBILES = 8"

datatype owner_pc =
    OStart      \<comment> \<open>about to lock\<close>
  | OPosting    \<comment> \<open>parked and unlocked, about to post \<open>newPickup\<close> (\<open>newAutomobile\<close>)\<close>
  | OWaiting    \<comment> \<open>in \<open>sem_wait\<close> on \<open>inChargeforPickup\<close> (\<open>inChargeforAutomobile\<close>)\<close>
  | OServed
  | ORefused    \<comment> \<open>left, no spot was free\<close>

datatype valet_pc =
    VIdle       \<comment> \<open>in \<open>sem_wait\<close> on \<open>newPickup\<close> (\<open>newAutomobile\<close>)\<close>
  | VTaking     \<comment> \<open>about to lock and free the spot\<close>
  | VPosting    \<comment> \<open>about to post \<open>inChargeforPickup\<close> (\<open>inChargeforAutomobile\<close>)\<close>

record lot =
  mFree :: int
  newVehicle :: nat
  inCharge :: nat
  owners :: "owner_pc list"
  valet :: valet_pc

definition lot_init :: "nat \<Rightarrow> lot" where
  "lot_init cap = \<lparr>mFree = int cap, newVehicle = 0, inCharge = 0, owners = [], valet = VIdle\<rparr>"

definition new_owner :: "lot \<Rightarrow> lot" where
  "new_owner l = l\<lparr>owners := owners l @ [OStart]\<rparr>"

definition owner_arrives :: "nat \<Rightarrow> lot \<Rightarrow> lot" where
  "owner_arrives i l =
     (if 0 < mFree l then l\<lparr>mFree := mFree l - 1, owners := (owners l)[i := OPosting]\<rparr>
      else l\<lparr>owners := (owners l)[i := ORefused]\<rparr>)"

definition owner_posts :: "nat \<Rightarrow> lot \<Rightarrow> lot" where
  "owner_posts i l = l\<lparr>newVehicle := newVehicle l + 1, owners := (owners l)[i := OWaiting]\<rparr>"

definition owner_leaves :: "nat \<Rightarrow> lot \<Rightarrow> lot" where
  "owner_leaves i l = l\<lparr>inCharge := inCharge l - 1, owners := (owners l)[i := OServed]\<rparr>"

definition valet_takes :: "lot \<Rightarrow> lot" where
  "valet_takes l = l\<lparr>newVehicle := newVehicle l - 1, valet := VTaking\<rparr>"

definition valet_frees :: "lot \<Rightarrow> lot" where
  "valet_frees l = l\<lparr>mFree := mFree l + 1, valet := VPosting\<rparr>"

definition valet_posts :: "lot \<Rightarrow> lot" where
  "valet_posts l = l\<lparr>inCharge := inCharge l + 1, valet := VIdle\<rparr>"

lemmas lot_defs [state_simps] = new_owner_def owner_arrives_def owner_posts_def owner_leaves_def
  valet_takes_def valet_frees_def valet_posts_def

text \<open>\<open>carOwner\<close> and \<open>carAttendant\<close>.\<close>

inductive lot_step :: "lot \<Rightarrow> lot \<Rightarrow> bool" where
  arrive: "i < length (owners l) \<Longrightarrow> owners l ! i = OStart \<Longrightarrow> lot_step l (owner_arrives i l)"
| post_new: "i < length (owners l) \<Longrightarrow> owners l ! i = OPosting \<Longrightarrow> lot_step l (owner_posts i l)"
| leave: "i < length (owners l) \<Longrightarrow> owners l ! i = OWaiting \<Longrightarrow> 0 < inCharge l \<Longrightarrow>
    lot_step l (owner_leaves i l)"
| take_new: "valet l = VIdle \<Longrightarrow> 0 < newVehicle l \<Longrightarrow> lot_step l (valet_takes l)"
| free_spot: "valet l = VTaking \<Longrightarrow> lot_step l (valet_frees l)"
| post_charge: "valet l = VPosting \<Longrightarrow> lot_step l (valet_posts l)"

subsection \<open>The program\<close>

text \<open>
  The main thread: \<open>MCreate i\<close> is about to create the \<open>i\<close>-th of the 12 owners, \<open>MJoin j\<close> has \<open>j\<close>
  of them still to join (from the last), then come the two extra vehicles.
\<close>

datatype main_pc =
    MCreate nat | MJoin nat | MExtraPickup | MJoinPickup | MExtraAutomobile | MJoinAutomobile | MEnd

record parking =
  pickup :: lot
  automobile :: lot
  main_thread :: main_pc

definition TOTAL :: nat where "TOTAL = MAX_PICKUPS + MAX_AUTOMOBILES"

definition parking_init :: parking where
  "parking_init = \<lparr>pickup = lot_init MAX_PICKUPS, automobile = lot_init MAX_AUTOMOBILES,
                   main_thread = MCreate 0\<rparr>"

fun finished :: "owner_pc \<Rightarrow> bool" where
  "finished OServed = True"
| "finished ORefused = True"
| "finished _ = False"

text \<open>The owner thread number \<open>j\<close>: the pickups first.\<close>

definition owner_at :: "parking \<Rightarrow> nat \<Rightarrow> owner_pc" where
  "owner_at s j = (if j < MAX_PICKUPS then owners (pickup s) ! j
                   else owners (automobile s) ! (j - MAX_PICKUPS))"

definition create_owner :: "nat \<Rightarrow> parking \<Rightarrow> parking" where
  "create_owner i s =
     (let s' = (if i < MAX_PICKUPS then s\<lparr>pickup := new_owner (pickup s)\<rparr>
                else s\<lparr>automobile := new_owner (automobile s)\<rparr>)
      in s'\<lparr>main_thread := (if Suc i < TOTAL then MCreate (Suc i) else MJoin TOTAL)\<rparr>)"

inductive parking_step :: "parking \<Rightarrow> parking \<Rightarrow> bool" where
  pickups: "lot_step (pickup s) l \<Longrightarrow> parking_step s (s\<lparr>pickup := l\<rparr>)"
| automobiles: "lot_step (automobile s) l \<Longrightarrow> parking_step s (s\<lparr>automobile := l\<rparr>)"
| create: "main_thread s = MCreate i \<Longrightarrow> parking_step s (create_owner i s)"
| join: "main_thread s = MJoin (Suc j) \<Longrightarrow> finished (owner_at s j) \<Longrightarrow>
    parking_step s (s\<lparr>main_thread := (if j = 0 then MExtraPickup else MJoin j)\<rparr>)"
| extra_pickup: "main_thread s = MExtraPickup \<Longrightarrow>
    parking_step s (s\<lparr>pickup := new_owner (pickup s), main_thread := MJoinPickup\<rparr>)"
| join_pickup: "main_thread s = MJoinPickup \<Longrightarrow> finished (last (owners (pickup s))) \<Longrightarrow>
    parking_step s (s\<lparr>main_thread := MExtraAutomobile\<rparr>)"
| extra_automobile: "main_thread s = MExtraAutomobile \<Longrightarrow>
    parking_step s (s\<lparr>automobile := new_owner (automobile s), main_thread := MJoinAutomobile\<rparr>)"
| join_automobile: "main_thread s = MJoinAutomobile \<Longrightarrow> finished (last (owners (automobile s))) \<Longrightarrow>
    parking_step s (s\<lparr>main_thread := MEnd\<rparr>)"

subsection \<open>The invariant of a lot\<close>

definition lot_inv :: "nat \<Rightarrow> lot \<Rightarrow> bool" where
  "lot_inv cap l =
     (mFree l + int (count_if (\<lambda>w. w = OPosting) (owners l)) + int (newVehicle l) +
        (if valet l = VTaking then 1 else 0) = int cap \<and>
      count_if (\<lambda>w. w = OWaiting) (owners l) =
        newVehicle l + inCharge l + (if valet l = VIdle then 0 else 1) \<and>
      0 \<le> mFree l)"

lemma lot_init_inv: "lot_inv cap (lot_init cap)"
  by (simp add: lot_inv_def lot_init_def)

lemma new_owner_inv: "lot_inv cap l \<Longrightarrow> lot_inv cap (new_owner l)"
  by (simp add: lot_inv_def new_owner_def)

lemma lot_step_inv: "lot_step l l' \<Longrightarrow> lot_inv cap l \<Longrightarrow> lot_inv cap l'"
proof (induction rule: lot_step.induct)
  case (arrive i l)
  from arrive count_if_update [OF arrive(1), of "\<lambda>w. w = OPosting"]
    count_if_update [OF arrive(1), of "\<lambda>w. w = OWaiting"]
  show ?case by (auto simp: lot_inv_def owner_arrives_def split: if_splits)
next
  case (post_new i l)
  from post_new count_if_update [OF post_new(1), of "\<lambda>w. w = OPosting" OWaiting]
    count_if_update [OF post_new(1), of "\<lambda>w. w = OWaiting" OWaiting]
  show ?case by (auto simp: lot_inv_def owner_posts_def split: if_splits)
next
  case (leave i l)
  from leave count_if_update [OF leave(1), of "\<lambda>w. w = OPosting" OServed]
    count_if_update [OF leave(1), of "\<lambda>w. w = OWaiting" OServed]
  show ?case by (auto simp: lot_inv_def owner_leaves_def split: if_splits)
qed (auto simp: lot_inv_def state_simps split: if_splits)

end
