(* ===== verification/Parking_Properties.thy ===== *)
theory Parking_Properties
  imports Parking
begin

text \<open>
  The whole run of the parking program: no spot is lost or granted twice, the program ends with
  every spot free again, and no owner is ever turned away.
\<close>

subsection \<open>Owners of one lot\<close>

definition waits_for :: "owner_pc list \<Rightarrow> nat" where
  "waits_for ps = count_if (\<lambda>p. \<not> finished p) ps"

lemma lot_step_owners:
  "lot_step l l' \<Longrightarrow> length (owners l') = length (owners l) \<and>
     (\<forall>k < length (owners l). finished (owners l ! k) \<longrightarrow> owners l' ! k = owners l ! k)"
  by (induction rule: lot_step.induct) (auto simp: state_simps nth_list_update)

text \<open>A full lot has as many owners under way as it has spots, besides the one who arrives.\<close>

lemma waits_for_split:
  "waits_for ps = count_if (\<lambda>w. w = OStart) ps + count_if (\<lambda>w. w = OPosting) ps + count_if (\<lambda>w. w = OWaiting) ps"
proof (induction ps)
  case (Cons p ps)
  then show ?case by (cases p) (simp_all add: waits_for_def)
qed (simp add: waits_for_def)

lemma spot_free:
  assumes "lot_inv cap l" "waits_for (owners l) \<le> cap" "i < length (owners l)" "owners l ! i = OStart"
  shows "0 < mFree l"
proof (rule ccontr)
  assume "\<not> 0 < mFree l"
  with assms(1) have "cap \<le> count_if (\<lambda>w. w = OPosting) (owners l) + count_if (\<lambda>w. w = OWaiting) (owners l)"
    by (auto simp: lot_inv_def split: if_splits)
  moreover have "0 < count_if (\<lambda>w. w = OStart) (owners l)"
    using assms(3,4) count_if_pos [of i "owners l" "\<lambda>w. w = OStart"] by simp
  ultimately show False using assms(2) by (simp add: waits_for_split)
qed

lemma lot_step_served:
  assumes "lot_step l l'" "lot_inv cap l" "waits_for (owners l) \<le> cap" "ORefused \<notin> set (owners l)"
  shows "ORefused \<notin> set (owners l')"
  using assms
proof (induction rule: lot_step.induct)
  case (arrive i l)
  then have "0 < mFree l" using spot_free by blast
  with arrive show ?case by (auto simp: owner_arrives_def dest: in_update_D)
qed (auto simp: state_simps dest: in_update_D)

lemma lot_progress:
  assumes "lot_inv cap l" "i < length (owners l)" "\<not> finished (owners l ! i)"
  shows "\<exists>l'. lot_step l l'"
proof (cases "owners l ! i")
  case OWaiting
  then have "0 < count_if (\<lambda>w. w = OWaiting) (owners l)"
    using assms(2) count_if_pos [of i "owners l" "\<lambda>w. w = OWaiting"] by simp
  with assms(1) have "0 < newVehicle l + inCharge l + (if valet l = VIdle then 0 else 1)"
    by (simp add: lot_inv_def)
  then consider "valet l = VTaking" | "valet l = VPosting" | "valet l = VIdle" "0 < newVehicle l" | "0 < inCharge l"
    by (cases "valet l") auto
  then show ?thesis using OWaiting assms(2) by cases (blast intro: lot_step.intros)+
qed (use assms in \<open>auto intro: lot_step.intros\<close>)

text \<open>When every owner has finished, every spot is free again.\<close>

lemma all_finished_free:
  assumes "lot_inv cap l" "\<forall>p \<in> set (owners l). finished p"
  shows "mFree l = int cap"
proof -
  have "count_if (\<lambda>w. w = OPosting) (owners l) = 0" "count_if (\<lambda>w. w = OWaiting) (owners l) = 0"
    using assms(2) by (auto simp: count_if_eq_0)
  with assms(1) show ?thesis by (auto simp: lot_inv_def split: if_splits)
qed

subsection \<open>The phases of the main thread\<close>

definition done_upto :: "nat \<Rightarrow> nat \<Rightarrow> owner_pc list \<Rightarrow> bool" where
  "done_upto n k ps = (length ps = n \<and> (\<forall>i < k. finished (ps ! i)))"

fun phase :: "main_pc \<Rightarrow> owner_pc list \<Rightarrow> owner_pc list \<Rightarrow> bool" where
  "phase (MCreate i) ps as = (i < 12 \<and> length ps = min i 4 \<and> length as = i - 4)"
| "phase (MJoin j) ps as =
     (0 < j \<and> j \<le> 12 \<and> length ps = 4 \<and> length as = 8 \<and>
      (\<forall>k. j \<le> k \<and> k < 12 \<longrightarrow> finished (if k < 4 then ps ! k else as ! (k - 4))))"
| "phase MExtraPickup ps as = (done_upto 4 4 ps \<and> done_upto 8 8 as)"
| "phase MJoinPickup ps as = (done_upto 5 4 ps \<and> done_upto 8 8 as)"
| "phase MExtraAutomobile ps as = (done_upto 5 5 ps \<and> done_upto 8 8 as)"
| "phase MJoinAutomobile ps as = (done_upto 5 5 ps \<and> done_upto 9 8 as)"
| "phase MEnd ps as = (done_upto 5 5 ps \<and> done_upto 9 9 as)"

lemma done_upto_waits: "done_upto n k ps \<Longrightarrow> waits_for ps \<le> n - k"
proof -
  assume *: "done_upto n k ps"
  have "waits_for (take k ps) = 0"
    using * by (auto simp: waits_for_def count_if_eq_0 done_upto_def in_set_conv_nth)
  moreover have "waits_for ps = waits_for (take k ps) + waits_for (drop k ps)"
    unfolding waits_for_def by (metis append_take_drop_id count_if_append)
  moreover have "waits_for (drop k ps) \<le> n - k"
    using * count_if_le_length [of _ "drop k ps"] by (simp add: waits_for_def done_upto_def)
  ultimately show ?thesis by simp
qed

lemma phase_waits: "phase m ps as \<Longrightarrow> waits_for ps \<le> 4 \<and> waits_for as \<le> 8"
  using count_if_le_length [of "\<lambda>p. \<not> finished p" ps] count_if_le_length [of "\<lambda>p. \<not> finished p" as]
    done_upto_waits [of _ _ ps] done_upto_waits [of _ _ as]
  by (cases m) (fastforce simp: waits_for_def)+

definition parking_inv :: "parking \<Rightarrow> bool" where
  "parking_inv s =
     (lot_inv 4 (pickup s) \<and> lot_inv 8 (automobile s) \<and>
      ORefused \<notin> set (owners (pickup s)) \<and> ORefused \<notin> set (owners (automobile s)) \<and>
      phase (main_thread s) (owners (pickup s)) (owners (automobile s)))"

lemma capacities: "MAX_PICKUPS = 4" "MAX_AUTOMOBILES = 8" "TOTAL = 12"
  by (simp_all add: MAX_PICKUPS_def MAX_AUTOMOBILES_def TOTAL_def)

lemma phase_grows:
  assumes "phase m ps as" "length ps' = length ps" "length as' = length as"
    and "\<forall>k < length ps. finished (ps ! k) \<longrightarrow> ps' ! k = ps ! k"
    and "\<forall>k < length as. finished (as ! k) \<longrightarrow> as' ! k = as ! k"
  shows "phase m ps' as'"
  using assms by (cases m) (auto simp: done_upto_def)

lemma done_upto_new: "done_upto n n ps \<Longrightarrow> done_upto (Suc n) n (ps @ [p])"
  by (auto simp: done_upto_def nth_append)

lemma done_upto_last: "done_upto (Suc n) n ps \<Longrightarrow> finished (last ps) \<Longrightarrow> done_upto (Suc n) (Suc n) ps"
  by (cases "ps = []") (auto simp: done_upto_def less_Suc_eq last_conv_nth)

lemma parking_step_inv: "parking_step s t \<Longrightarrow> parking_inv s \<Longrightarrow> parking_inv t"
proof (induction rule: parking_step.induct)
  case (pickups s l)
  then have "waits_for (owners (pickup s)) \<le> 4" using phase_waits by (auto simp: parking_inv_def)
  with pickups lot_step_inv lot_step_served lot_step_owners [OF pickups(1)] show ?case
    by (auto simp: parking_inv_def intro: phase_grows)
next
  case (automobiles s l)
  then have "waits_for (owners (automobile s)) \<le> 8" using phase_waits by (auto simp: parking_inv_def)
  with automobiles lot_step_inv lot_step_served lot_step_owners [OF automobiles(1)] show ?case
    by (auto simp: parking_inv_def intro: phase_grows)
next
  case (create s i)
  then show ?case
    by (auto simp: parking_inv_def create_owner_def Let_def capacities new_owner_inv)
      (auto simp: new_owner_def)
next
  case (join s j)
  let ?ps = "owners (pickup s)" and ?as = "owners (automobile s)"
  from join have ph: "Suc j \<le> 12" "length ?ps = 4" "length ?as = 8"
    "\<forall>k. Suc j \<le> k \<and> k < 12 \<longrightarrow> finished (if k < 4 then ?ps ! k else ?as ! (k - 4))"
    "finished (if j < 4 then ?ps ! j else ?as ! (j - 4))"
    by (auto simp: parking_inv_def owner_at_def capacities)
  have fin: "finished (if k < 4 then ?ps ! k else ?as ! (k - 4))" if "j \<le> k" "k < 12" for k
    using ph(4,5) that by (cases "k = j") auto
  have "phase (if j = 0 then MExtraPickup else MJoin j) ?ps ?as"
  proof (cases "j = 0")
    case True
    have "finished (?ps ! i)" if "i < 4" for i using fin [of i] that True by simp
    moreover have "finished (?as ! i)" if "i < 8" for i using fin [of "i + 4"] that True by simp
    ultimately show ?thesis using True ph(2,3) by (simp add: done_upto_def)
  next
    case False
    with ph(1-3) fin show ?thesis by simp
  qed
  with join.prems show ?case by (simp add: parking_inv_def)
next
  case (extra_pickup s)
  then show ?case
    by (auto simp: parking_inv_def new_owner_inv) (auto simp: new_owner_def dest: done_upto_new)
next
  case (join_pickup s)
  then show ?case by (auto simp: parking_inv_def eval_nat_numeral intro: done_upto_last)
next
  case (extra_automobile s)
  then show ?case
    by (auto simp: parking_inv_def new_owner_inv) (auto simp: new_owner_def dest: done_upto_new)
next
  case (join_automobile s)
  then show ?case by (auto simp: parking_inv_def eval_nat_numeral intro: done_upto_last)
qed

lemma parking_init_inv: "parking_inv parking_init"
  using lot_init_inv by (auto simp: parking_inv_def parking_init_def capacities) (simp_all add: lot_init_def)

subsection \<open>Progress and termination\<close>

fun owner_work :: "owner_pc \<Rightarrow> nat" where
  "owner_work OStart = 6"
| "owner_work OPosting = 5"
| "owner_work OWaiting = 1"
| "owner_work _ = 0"

fun valet_work :: "valet_pc \<Rightarrow> nat" where
  "valet_work VIdle = 0"
| "valet_work VTaking = 2"
| "valet_work VPosting = 1"

definition lot_work :: "lot \<Rightarrow> nat" where
  "lot_work l = sum_list (map owner_work (owners l)) + 3 * newVehicle l + valet_work (valet l)"

fun main_work :: "main_pc \<Rightarrow> nat" where
  "main_work (MCreate i) = 7 * (12 - i) + 40"
| "main_work (MJoin j) = 20 + j"
| "main_work MExtraPickup = 20"
| "main_work MJoinPickup = 12"
| "main_work MExtraAutomobile = 11"
| "main_work MJoinAutomobile = 1"
| "main_work MEnd = 0"

definition parking_work :: "parking \<Rightarrow> nat" where
  "parking_work s = lot_work (pickup s) + lot_work (automobile s) + main_work (main_thread s)"

lemma lot_step_work: "lot_step l l' \<Longrightarrow> lot_work l' < lot_work l"
proof (induction rule: lot_step.induct)
  case (arrive i l)
  from arrive sum_map_update [OF arrive(1), of owner_work OPosting]
    sum_map_update [OF arrive(1), of owner_work ORefused]
  show ?case by (auto simp: lot_work_def owner_arrives_def)
next
  case (post_new i l)
  from post_new sum_map_update [OF post_new(1), of owner_work OWaiting]
  show ?case by (simp add: lot_work_def owner_posts_def)
next
  case (leave i l)
  from leave sum_map_update [OF leave(1), of owner_work OServed]
  show ?case by (simp add: lot_work_def owner_leaves_def)
qed (auto simp: lot_work_def state_simps)

lemma new_owner_work: "lot_work (new_owner l) = lot_work l + 6"
  by (simp add: lot_work_def new_owner_def)

lemma parking_step_work: "parking_step s t \<Longrightarrow> parking_inv s \<Longrightarrow> parking_work t < parking_work s"
proof (induction rule: parking_step.induct)
  case (create s i)
  then have "i < 12" by (simp add: parking_inv_def)
  with create show ?case
    by (auto simp: parking_work_def create_owner_def Let_def new_owner_work capacities)
qed (auto simp: parking_work_def new_owner_work lot_step_work)

lemma unfinished_progress:
  assumes "parking_inv s" "j < 12" "length (owners (pickup s)) = 4" "length (owners (automobile s)) = 8"
    and "\<not> finished (owner_at s j)"
  shows "\<exists>t. parking_step s t"
proof (cases "j < 4")
  case True
  with assms obtain l where "lot_step (pickup s) l"
    using lot_progress [of 4 "pickup s" j] by (auto simp: parking_inv_def owner_at_def capacities)
  then show ?thesis by (blast intro: parking_step.pickups)
next
  case False
  then have "j - 4 < 8" using assms(2) by linarith
  with False assms obtain l where "lot_step (automobile s) l"
    using lot_progress [of 8 "automobile s" "j - 4"] by (auto simp: parking_inv_def owner_at_def capacities)
  then show ?thesis by (blast intro: parking_step.automobiles)
qed

lemma last_progress:
  assumes "lot_inv cap l" "owners l \<noteq> []" "\<not> finished (last (owners l))"
  shows "\<exists>l'. lot_step l l'"
  using assms lot_progress [of cap l "length (owners l) - 1"] by (simp add: last_conv_nth)

lemma parking_progress:
  assumes inv: "parking_inv s" and "main_thread s \<noteq> MEnd"
  shows "\<exists>t. parking_step s t"
proof (cases "main_thread s")
  case (MJoin j)
  then obtain i where "j = Suc i" "i < 12" "length (owners (pickup s)) = 4" "length (owners (automobile s)) = 8"
    using inv by (cases j) (auto simp: parking_inv_def)
  then show ?thesis
    using unfinished_progress [OF inv, of i] parking_step.join [of s i] MJoin by blast
next
  case MJoinPickup
  then have "owners (pickup s) \<noteq> []" "lot_inv 4 (pickup s)"
    using inv by (auto simp: parking_inv_def done_upto_def)
  then show ?thesis
    using last_progress parking_step.join_pickup [OF MJoinPickup] parking_step.pickups by meson
next
  case MJoinAutomobile
  then have "owners (automobile s) \<noteq> []" "lot_inv 8 (automobile s)"
    using inv by (auto simp: parking_inv_def done_upto_def)
  then show ?thesis
    using last_progress parking_step.join_automobile [OF MJoinAutomobile] parking_step.automobiles by meson
qed (use assms(2) in \<open>blast intro: parking_step.intros\<close>)+

interpretation parking: terminating "\<lambda>s. s = parking_init" parking_step parking_inv
    "\<lambda>s. main_thread s = MEnd" parking_work
  by unfold_locales
    (auto simp: parking_init_inv parking_progress parking_step_work intro: parking_step_inv)

subsection \<open>Properties\<close>

abbreviation "parking_run \<equiv> reachable (\<lambda>s. s = parking_init) parking_step"

text \<open>C15. No spot is lost and none is granted twice: in every reachable state the counter of free spots
  lies between 0 and the capacity, and free spots plus parked vehicles (announced, about to be
  announced, or being taken by the valet) make the capacity, for both kinds of vehicle.\<close>

theorem parking_conserves_spots:
  assumes "reachable (\<lambda>s. s = parking_init) parking_step s" "(l, cap) = (pickup s, 4) \<or> (l, cap) = (automobile s, 8)"
  shows "0 \<le> mFree l \<and> mFree l \<le> cap \<and>
    mFree l + int (count_if (\<lambda>w. w = OPosting) (owners l)) + int (newVehicle l) +
      (if valet l = VTaking then 1 else 0) = cap"
  using parking.reachable_inv [OF assms(1)] assms(2) by (auto simp: parking_inv_def lot_inv_def)

lemma parking_start: "parking_run parking_init"
  by (rule reachable.reach_init) simp

theorem parking_conserves_spots_witness: "mFree (pickup parking_init) \<le> 4"
  using parking_conserves_spots [OF parking_start, of "pickup parking_init" 4] by simp

text \<open>The program ends under every schedule: from every reachable state only a bounded number of
  steps is possible, and the main thread gets past all its joins; then all 14 owners have been
  served and every spot is free again.\<close>

theorem parking_completes:
  assumes "reachable (\<lambda>s. s = parking_init) parking_step s"
  shows "(\<forall>n t. steps parking_step n s t \<longrightarrow> n \<le> parking_work s) \<and>
    (\<exists>n t. steps parking_step n s t \<and> main_thread t = MEnd \<and>
       owners (pickup t) = replicate 5 OServed \<and> owners (automobile t) = replicate 9 OServed \<and>
       mFree (pickup t) = 4 \<and> mFree (automobile t) = 8)"
proof (rule conjI)
  have inv: "parking_inv s" by (rule parking.reachable_inv [OF assms])
  show "\<forall>n t. steps parking_step n s t \<longrightarrow> n \<le> parking_work s"
    using parking.steps_bound inv by fastforce
  from parking.reaches_final [OF inv] obtain n t where t: "steps parking_step n s t" "main_thread t = MEnd"
    by blast
  from parking.steps_inv [OF t(1) inv] have "parking_inv t" .
  with t(2) have fin: "length (owners (pickup t)) = 5" "length (owners (automobile t)) = 9"
    "\<forall>p \<in> set (owners (pickup t)). finished p \<and> p \<noteq> ORefused"
    "\<forall>p \<in> set (owners (automobile t)). finished p \<and> p \<noteq> ORefused"
    "lot_inv 4 (pickup t)" "lot_inv 8 (automobile t)"
    by (auto simp: parking_inv_def done_upto_def in_set_conv_nth)
  have "p = OServed" if "finished p \<and> p \<noteq> ORefused" for p using that by (cases p) auto
  with fin have "owners (pickup t) = replicate 5 OServed" "owners (automobile t) = replicate 9 OServed"
    by (metis replicate_length_same)+
  moreover have "mFree (pickup t) = 4" "mFree (automobile t) = 8"
    using all_finished_free [OF fin(5)] all_finished_free [OF fin(6)] fin(3,4) by auto
  ultimately show "\<exists>n t. steps parking_step n s t \<and> main_thread t = MEnd \<and>
       owners (pickup t) = replicate 5 OServed \<and> owners (automobile t) = replicate 9 OServed \<and>
       mFree (pickup t) = 4 \<and> mFree (automobile t) = 8"
    using t by blast
qed

theorem parking_completes_witness:
  "\<exists>n t. steps parking_step n parking_init t \<and> main_thread t = MEnd \<and> mFree (pickup t) = 4"
  using parking_completes [OF parking_start] by blast

text \<open>The run that is meant to show what happens without a temporary spot never does: no owner is
  turned away in any reachable state, because the 12 owners that fill the lots are joined, and so
  have given their spots back, before the two extra owners arrive.\<close>

theorem parking_never_refuses:
  assumes "reachable (\<lambda>s. s = parking_init) parking_step s"
  shows "ORefused \<notin> set (owners (pickup s)) \<and> ORefused \<notin> set (owners (automobile s)) \<and>
    (main_thread s = MExtraPickup \<longrightarrow> mFree (pickup s) = int MAX_PICKUPS)"
proof -
  have inv: "parking_inv s" by (rule parking.reachable_inv [OF assms])
  have "mFree (pickup s) = int MAX_PICKUPS" if "main_thread s = MExtraPickup"
  proof -
    have "\<forall>p \<in> set (owners (pickup s)). finished p"
      using inv that by (auto simp: parking_inv_def done_upto_def in_set_conv_nth)
    moreover have "lot_inv 4 (pickup s)" using inv by (simp add: parking_inv_def)
    ultimately show ?thesis using all_finished_free [of 4 "pickup s"] by (simp add: capacities)
  qed
  with inv show ?thesis by (simp add: parking_inv_def)
qed

theorem parking_never_refuses_witness: "ORefused \<notin> set (owners (pickup parking_init))"
  using parking_never_refuses [OF parking_start] by blast

end
