(* ===== verification/File_Server.thy ===== *)
theory File_Server
  imports C_Library Transition_Systems
begin

text \<open>
  The concurrent file access server (sys03): the operations a child process runs for the commands
  of its client, and the parent's admission of clients.

  A path is the text the program builds, and the disk maps the paths of regular files to their
  contents; a command that names a directory is outside the model. What belongs to the system and
  not to the program is a record \<open>env\<close> the operations take: whether a file opens, what
  \<open>readdir\<close> lists, what \<open>kill\<close> answers, what \<open>tar\<close> does, and the text that the uninitialised
  memory of a response holds before its first NUL. A write beyond the end of an array is
  \<open>None\<close>, or \<open>Undefined\<close> for a whole command. \<open>flock\<close> and \<open>fork\<close> are taken to succeed.
\<close>

subsection \<open>Constants, requests and responses\<close>

definition MAX_RESPONSE_SIZE :: nat where "MAX_RESPONSE_SIZE = 1024"
definition PATH_SIZE :: nat where "PATH_SIZE = 50"

datatype status_code = OK | WAIT | FAIL

record request =
  command :: string
  cl_pid :: int

type_synonym disk = "string \<Rightarrow> string option"

record env =
  can_read :: "string \<Rightarrow> bool"
  can_write :: "string \<Rightarrow> bool"
  readdir :: "disk \<Rightarrow> string \<Rightarrow> (string \<times> bool) list option"
  kill_ok :: "int \<Rightarrow> bool"
  tar :: "disk \<Rightarrow> string \<Rightarrow> string \<Rightarrow> disk \<times> bool"
  stale :: string

definition nl :: string where "nl = [CHR 0x0A]"

text \<open>\<open>strcat\<close> onto and \<open>sprintf\<close> into the message of a response.\<close>

definition message_append :: "string \<Rightarrow> string \<Rightarrow> string option" where
  "message_append s message =
     (if length (message @ s) < MAX_RESPONSE_SIZE then Some (message @ s) else None)"

definition message_set :: "string \<Rightarrow> string option" where
  "message_set s = (if length s < MAX_RESPONSE_SIZE then Some s else None)"

definition path_in :: "string \<Rightarrow> string \<Rightarrow> string option" where
  "path_in dir name =
     (if length (dir @ ''/'' @ name) < PATH_SIZE then Some (dir @ ''/'' @ name) else None)"

subsection \<open>fgets\<close>

text \<open>
  The strings a loop over \<open>fgets(line, size, file)\<close> stores: each ends after a newline or when it
  has \<open>size - 1\<close> characters. What \<open>fprintf\<close> and \<open>strcat\<close> then take of it ends at the first NUL.
\<close>

fun fgets_pieces :: "nat \<Rightarrow> string \<Rightarrow> string \<Rightarrow> string list" where
  "fgets_pieces bound line [] = (if line = [] then [] else [line])"
| "fgets_pieces bound line (c # cs) =
     (if c = CHR 0x0A \<or> bound - 1 \<le> length line + 1 then (line @ [c]) # fgets_pieces bound [] cs
      else fgets_pieces bound (line @ [c]) cs)"

definition copy_text :: "nat \<Rightarrow> string \<Rightarrow> string" where
  "copy_text bound contents = concat (map c_str (fgets_pieces bound [] contents))"

subsection \<open>list, readF\<close>

fun list_loop :: "(string \<times> bool) list \<Rightarrow> string \<Rightarrow> string option" where
  "list_loop [] message = Some message"
| "list_loop ((name, regular) # es) message =
     (if regular
      then Option.bind (message_append name message)
             (\<lambda>m. Option.bind (message_append nl m) (list_loop es))
      else list_loop es message)"

definition list_server_files :: "env \<Rightarrow> string \<Rightarrow> disk \<Rightarrow> string \<Rightarrow> string option" where
  "list_server_files env dir d message =
     (case readdir env d dir of None \<Rightarrow> Some message | Some es \<Rightarrow> list_loop es message)"

fun append_loop :: "string list \<Rightarrow> string \<Rightarrow> string option" where
  "append_loop [] message = Some message"
| "append_loop (line # ls) message =
     Option.bind (message_append (c_str line) message) (append_loop ls)"

fun line_loop :: "int \<Rightarrow> int \<Rightarrow> string list \<Rightarrow> string \<Rightarrow> string option" where
  "line_loop i lineNum [] message = Some message"
| "line_loop i lineNum (line # ls) message =
     (if i < lineNum
      then Option.bind (if i = lineNum - 1 then message_append (c_str line) message else Some message)
             (line_loop (i + 1) lineNum ls)
      else Some message)"

definition open_read :: "env \<Rightarrow> disk \<Rightarrow> string \<Rightarrow> string option" where
  "open_read env d path = (if can_read env path then d path else None)"

definition read_server_file :: "env \<Rightarrow> string \<Rightarrow> int \<Rightarrow> disk \<Rightarrow> string \<Rightarrow> string option" where
  "read_server_file env path lineNum d message =
     (case open_read env d path of
        None \<Rightarrow> Some message
      | Some contents \<Rightarrow>
          if lineNum = 0 then append_loop (fgets_pieces 100 [] contents) message
          else line_loop 0 lineNum (fgets_pieces 100 [] contents) message)"

subsection \<open>writeT\<close>

text \<open>
  The loop that copies the file to a temporary one, with \<open>line_count\<close>, \<open>line_written\<close> and
  what has been written so far.
\<close>

fun rewrite_loop :: "int \<Rightarrow> string \<Rightarrow> int \<times> bool \<times> string \<Rightarrow> string list \<Rightarrow> int \<times> bool \<times> string" where
  "rewrite_loop lineNum s (line_count, line_written, temp) [] = (line_count, line_written, temp)"
| "rewrite_loop lineNum s (line_count, line_written, temp) (line # ls) =
     (if line_count + 1 = lineNum
      then rewrite_loop lineNum s (line_count + 1, True, temp @ s @ nl) ls
      else rewrite_loop lineNum s (line_count + 1, line_written, temp @ c_str line) ls)"

definition write_temp :: "int \<Rightarrow> string \<Rightarrow> string \<Rightarrow> bool \<times> string" where
  "write_temp lineNum s contents =
     (case rewrite_loop lineNum s (0, False, []) (fgets_pieces 256 [] contents) of
        (line_count, line_written, temp) \<Rightarrow>
          (line_written, if lineNum \<le> 0 \<or> line_count < lineNum then temp @ s @ nl else temp))"

definition write_back :: "string \<Rightarrow> string \<Rightarrow> disk \<Rightarrow> disk" where
  "write_back path temp d = d(path := Some (copy_text 256 temp))"

definition write_message :: "int \<Rightarrow> bool \<Rightarrow> string \<Rightarrow> string" where
  "write_message lineNum line_written s =
     (if lineNum = 0 then ''Successfully written '' @ s @ '' at the end of the file''
      else if line_written then ''Successfully written '' @ s @ '' at line '' @ c_show_int lineNum
      else ''Line '' @ c_show_int lineNum @ '' does not exist in the file'')"

definition write_server_file ::
  "env \<Rightarrow> string \<Rightarrow> int \<Rightarrow> string \<Rightarrow> disk \<Rightarrow> string option \<times> disk" where
  "write_server_file env path lineNum s d =
     (case open_read env d path of
        None \<Rightarrow>
          if can_write env path
          then (message_set (write_message lineNum False s), d(path := Some []))
          else (message_set ''Error creating file'', d)
      | Some contents \<Rightarrow>
          (case write_temp lineNum s contents of
             (line_written, temp) \<Rightarrow>
               if can_write env path
               then (message_set (write_message lineNum line_written s), write_back path temp d)
               else (message_set ''Error opening file'', d)))"

subsection \<open>upload, download, archServer\<close>

definition upload_file_to_server ::
  "env \<Rightarrow> string \<Rightarrow> string \<Rightarrow> disk \<Rightarrow> string option \<times> disk" where
  "upload_file_to_server env filename dir d =
     (case (path_in ''.'' filename, path_in dir filename) of
        (Some client_path, Some server_path) \<Rightarrow>
          if d client_path = None
          then (message_set (''Error: No file in client's directory with the given filename!'' @ nl), d)
          else (case open_read env d client_path of
             None \<Rightarrow> (message_set ''Error opening client file'', d)
           | Some contents \<Rightarrow>
               if d server_path \<noteq> None
               then (message_set (''Error: File already exists on the server!'' @ nl), d)
               else if can_write env server_path
               then (message_set ''File uploaded successfully'',
                     d(server_path := Some (copy_text 256 contents)))
               else (message_set ''Error opening server file'', d))
      | _ \<Rightarrow> (None, d))"

definition download_file_from_server ::
  "env \<Rightarrow> string \<Rightarrow> string \<Rightarrow> disk \<Rightarrow> string option \<times> disk" where
  "download_file_from_server env filename dir d =
     (case (path_in ''.'' filename, path_in dir filename) of
        (Some client_path, Some server_path) \<Rightarrow>
          if d client_path \<noteq> None
          then (message_set (''Error: File already exists on the client!'' @ nl), d)
          else if d server_path = None
          then (message_set (''Error: No file in server's directory with the given filename!'' @ nl), d)
          else if \<not> can_write env client_path
          then (message_set ''Error opening client file'', d)
          else (case open_read env (d(client_path := Some [])) server_path of
             None \<Rightarrow> (message_set ''Error opening server file'', d(client_path := Some []))
           | Some contents \<Rightarrow>
               (message_set ''File downloaded successfully'',
                d(client_path := Some (copy_text 256 contents))))
      | _ \<Rightarrow> (None, d))"

definition arch_server_files ::
  "env \<Rightarrow> string \<Rightarrow> string \<Rightarrow> disk \<Rightarrow> string option \<times> disk" where
  "arch_server_files env filename dir d =
     (case tar env d filename dir of
        (d', True) \<Rightarrow> (message_set ''Files archived successfully'', d')
      | (d', False) \<Rightarrow> (message_set ''Error: Archiving failed'', d'))"

subsection \<open>killServer\<close>

text \<open>
  The globals of a process: a child has its own copy, made by \<open>fork\<close>. What \<open>kill_server\<close> signals
  are the entries the child's copy held, then the parent; the FIFO it unlinks carries the child's
  own process id.
\<close>

record globals =
  active_clients :: int
  client_pids :: "int list"

definition server_fifo :: "int \<Rightarrow> string" where
  "server_fifo pid = ''server_fifo_'' @ c_show_int pid"

fun kill_loop :: "(int \<Rightarrow> bool) \<Rightarrow> int list \<Rightarrow> string \<Rightarrow> string" where
  "kill_loop ok [] message = message"
| "kill_loop ok (p # ps) message =
     kill_loop ok ps
       (if ok p then ''bye''
        else ''Error sending kill signal to client '' @ c_show_int p)"

definition kill_server ::
  "env \<Rightarrow> int \<Rightarrow> int \<Rightarrow> globals \<Rightarrow> string \<Rightarrow> string option \<times> globals \<times> int list \<times> string" where
  "kill_server env self parent g message =
     (let targets = take (nat (active_clients g)) (client_pids g);
          m = kill_loop (kill_ok env) targets message;
          m' = (if kill_ok env parent
                then ''Kill server signal received. Server shutting down...'' @ nl
                else ''Error sending kill signal to the server'')
      in (message_set m', g\<lparr>active_clients := 0, client_pids := []\<rparr>, targets @ [parent],
          server_fifo self))"

subsection \<open>handleClient\<close>

text \<open>
  What one turn of the loop ends in: a response and another turn, no response because \<open>quit\<close>
  leaves the loop before the call that sends it, a response that is the last one, or undefined
  behaviour (a null pointer handed to \<open>strcmp\<close>, an array overrun).
\<close>

datatype outcome = Reply string | NoReply | LastReply string | Undefined

definition answer_of :: "string option \<Rightarrow> outcome" where
  "answer_of m = (case m of None \<Rightarrow> Undefined | Some s \<Rightarrow> Reply s)"

record child =
  self_pid :: int
  parent_pid :: int
  child_globals :: globals
  done_flag :: bool
  targets :: "int list"
  removed :: "string list"

definition help_text :: string where
  "help_text = ''Available commands are :'' @ nl @
     ''help, list, readF, writeT, upload, download, archServer, quit, killServer'' @ nl"

definition invalid :: outcome where
  "invalid = answer_of (message_set ''Invalid command'')"

definition read_request :: "env \<Rightarrow> string \<Rightarrow> string \<Rightarrow> disk \<Rightarrow> outcome" where
  "read_request env dir args d =
     (case c_strtok '' '' args of
        (None, _) \<Rightarrow> invalid
      | (Some file_name, r) \<Rightarrow>
          (case path_in dir file_name of
             None \<Rightarrow> Undefined
           | Some path_name \<Rightarrow>
               let lineNum = (case fst (c_strtok '' '' r) of None \<Rightarrow> 0 | Some t \<Rightarrow> c_atoi t)
               in answer_of (read_server_file env path_name lineNum d (stale env))))"

definition write_request :: "env \<Rightarrow> string \<Rightarrow> string \<Rightarrow> disk \<Rightarrow> outcome \<times> disk" where
  "write_request env dir args d =
     (case c_strtok '' '' args of
        (None, _) \<Rightarrow> (invalid, d)
      | (Some file_name, r) \<Rightarrow>
          (case path_in dir file_name of
             None \<Rightarrow> (Undefined, d)
           | Some path_name \<Rightarrow>
               (case c_strtok '' '' r of
                  (temp, r') \<Rightarrow>
                    let lineNum = (case temp of None \<Rightarrow> 0 | Some t \<Rightarrow> c_atoi t) in
                    (case fst (c_strtok '' '' r') of
                       None \<Rightarrow> (invalid, d)
                     | Some s \<Rightarrow>
                         (case write_server_file env path_name lineNum s d of
                            (m, d') \<Rightarrow> (answer_of m, d'))))))"

definition file_request ::
  "(string \<Rightarrow> string \<Rightarrow> disk \<Rightarrow> string option \<times> disk) \<Rightarrow> string \<Rightarrow> string \<Rightarrow> disk \<Rightarrow> outcome \<times> disk" where
  "file_request operation dir args d =
     (case fst (c_strtok '' '' args) of
        None \<Rightarrow> (invalid, d)
      | Some filename \<Rightarrow> (case operation filename dir d of (m, d') \<Rightarrow> (answer_of m, d')))"

definition kill_request :: "env \<Rightarrow> child \<Rightarrow> outcome \<times> child" where
  "kill_request env c =
     (case kill_server env (self_pid c) (parent_pid c) (child_globals c) (stale env) of
        (m, g, ps, path) \<Rightarrow>
          ((case m of None \<Rightarrow> Undefined | Some s \<Rightarrow> LastReply s),
           c\<lparr>child_globals := g\<lparr>active_clients := active_clients g - 1\<rparr>, done_flag := True,
             targets := targets c @ ps, removed := removed c @ [path]\<rparr>))"

text \<open>\<open>is_word\<close> is the test \<open>strcmp(request_word, ...) == 0\<close>.\<close>

definition is_word :: "string \<Rightarrow> string \<Rightarrow> bool" where
  "is_word w s = (c_strcmp w s = 0)"

definition handle_request ::
  "env \<Rightarrow> string \<Rightarrow> string \<Rightarrow> child \<Rightarrow> disk \<Rightarrow> outcome \<times> child \<times> disk" where
  "handle_request env dir cmd c d =
     (case c_strtok '' '' cmd of
        (None, _) \<Rightarrow> (Undefined, c\<lparr>done_flag := True\<rparr>, d)
      | (Some request_word, args) \<Rightarrow>
          if is_word request_word ''help'' then (answer_of (message_set help_text), c, d)
          else if is_word request_word ''quit'' then (NoReply, c\<lparr>done_flag := True\<rparr>, d)
          else if is_word request_word ''list''
          then (answer_of (list_server_files env dir d (stale env)), c, d)
          else if is_word request_word ''readF'' then (read_request env dir args d, c, d)
          else if is_word request_word ''writeT''
          then (case write_request env dir args d of (r, d') \<Rightarrow> (r, c, d'))
          else if is_word request_word ''upload''
          then (case file_request (upload_file_to_server env) dir args d of (r, d') \<Rightarrow> (r, c, d'))
          else if is_word request_word ''download''
          then (case file_request (download_file_from_server env) dir args d of (r, d') \<Rightarrow> (r, c, d'))
          else if is_word request_word ''archServer''
          then (case file_request (arch_server_files env) dir args d of (r, d') \<Rightarrow> (r, c, d'))
          else if is_word request_word ''killServer''
          then (case kill_request env c of (r, c') \<Rightarrow> (r, c', d))
          else (invalid, c, d))"

subsection \<open>main: the parent and its children\<close>

text \<open>
  The parent answers connection requests; each accepted client gets a child with a copy of the
  parent's globals, found here by the client's process id. \<open>sent\<close> holds the codes the parent
  answered with, \<open>outcomes\<close> how the commands ended. A signal that reaches the parent ends it.
\<close>

record server =
  server_pid :: int
  max_client_count :: int
  running :: bool
  main_globals :: globals
  children :: "int \<Rightarrow> child option"
  files_on :: disk
  sent :: "(int \<times> status_code) list"
  outcomes :: "(int \<times> outcome) list"
  signalled :: "int list"
  unlinked :: "string list"

definition server_init :: "int \<Rightarrow> int \<Rightarrow> disk \<Rightarrow> server option" where
  "server_init pid max_count d =
     (if max_count \<le> 0 then None
      else Some \<lparr>server_pid = pid, max_client_count = max_count, running = True,
                 main_globals = \<lparr>active_clients = 0, client_pids = []\<rparr>,
                 children = (\<lambda>_. None), files_on = d, sent = [], outcomes = [],
                 signalled = [], unlinked = []\<rparr>)"

text \<open>A connection request, with the process id \<open>fork\<close> gives the child.\<close>

definition connection_request :: "request \<Rightarrow> int \<Rightarrow> server \<Rightarrow> server" where
  "connection_request req pid s =
     (let g = main_globals s in
      if max_client_count s \<le> active_clients g
      then s\<lparr>sent := sent s @ [(cl_pid req, if is_word (command req) ''connect'' then WAIT else FAIL)]\<rparr>
      else
        (let g' = \<lparr>active_clients = active_clients g + 1,
                   client_pids = client_pids g @ [cl_pid req]\<rparr>
         in s\<lparr>sent := sent s @ [(cl_pid req, OK)], main_globals := g',
              children := (children s)(cl_pid req \<mapsto>
                \<lparr>self_pid = pid, parent_pid = server_pid s, child_globals = g', done_flag = False,
                 targets = [], removed = []\<rparr>)\<rparr>))"

definition client_command :: "env \<Rightarrow> string \<Rightarrow> int \<Rightarrow> string \<Rightarrow> server \<Rightarrow> server" where
  "client_command env dir client cmd s =
     (case children s client of
        None \<Rightarrow> s
      | Some c \<Rightarrow>
          if done_flag c then s
          else (case handle_request env dir cmd c (files_on s) of
             (r, c', d') \<Rightarrow>
               let ps = filter (kill_ok env) (drop (length (targets c)) (targets c')) in
               s\<lparr>children := (children s)(client \<mapsto> c'), files_on := d',
                 outcomes := outcomes s @ [(client, r)], signalled := signalled s @ ps,
                 unlinked := unlinked s @ drop (length (removed c)) (removed c') @
                   (if server_pid s \<in> set ps then [server_fifo (server_pid s)] else []),
                 running := (running s \<and> server_pid s \<notin> set ps)\<rparr>))"

datatype event = Connection request int | Command int string

fun server_event :: "env \<Rightarrow> string \<Rightarrow> event \<Rightarrow> server \<Rightarrow> server" where
  "server_event env dir (Connection req pid) s =
     (if running s then connection_request req pid s else s)"
| "server_event env dir (Command client cmd) s = client_command env dir client cmd s"

definition server_run :: "env \<Rightarrow> string \<Rightarrow> event list \<Rightarrow> server \<Rightarrow> server" where
  "server_run env dir es s = fold (server_event env dir) es s"

subsection \<open>Two writers\<close>

text \<open>
  \<open>write_server_file\<close> on a file that exists, by several children at once: the lock covers the
  copying to the temporary file and is lost when that handle is closed, the file is rewritten
  through another one. Each of the two parts is one step here.
\<close>

datatype writer = Ready | Copied string | Written

record writers =
  contents_of :: string
  progress :: "writer list"

definition writer_copies :: "(int \<times> string) list \<Rightarrow> nat \<Rightarrow> writers \<Rightarrow> writers" where
  "writer_copies jobs i w =
     w\<lparr>progress := (progress w)[i := Copied (snd (write_temp (fst (jobs ! i)) (snd (jobs ! i)) (contents_of w)))]\<rparr>"

definition writer_rewrites :: "nat \<Rightarrow> string \<Rightarrow> writers \<Rightarrow> writers" where
  "writer_rewrites i temp w =
     w\<lparr>contents_of := copy_text 256 temp, progress := (progress w)[i := Written]\<rparr>"

inductive writer_step :: "(int \<times> string) list \<Rightarrow> writers \<Rightarrow> writers \<Rightarrow> bool"
  for jobs :: "(int \<times> string) list" where
  copying: "i < length (progress w) \<Longrightarrow> progress w ! i = Ready \<Longrightarrow> writer_step jobs w (writer_copies jobs i w)"
| rewriting: "i < length (progress w) \<Longrightarrow> progress w ! i = Copied temp \<Longrightarrow>
    writer_step jobs w (writer_rewrites i temp w)"

definition writers_init :: "string \<Rightarrow> (int \<times> string) list \<Rightarrow> writers \<Rightarrow> bool" where
  "writers_init contents jobs w =
     (w = \<lparr>contents_of = contents, progress = map (\<lambda>_. Ready) jobs\<rparr>)"

end
