(* ===== verification/File_Client.thy ===== *)
theory File_Client
  imports File_Server
begin

text \<open>
  The client of the file access server (sys03, \<open>client.c\<close>), together with the server it talks to.
  What the client reads is the sequence of strings its \<open>fgets\<close> stores; what it writes is a list of
  strings; the FIFOs that exist are a list of names. Creating, opening and writing a FIFO succeeds; an
  \<open>open\<close> for which the other side never comes is the end \<open>Hangs\<close>.
\<close>

datatype client_end =
    Exits int
  | Killed        \<comment> \<open>by the \<open>SIGKILL\<close> its own handler sends\<close>
  | Hangs
  | Crashes       \<comment> \<open>undefined behaviour, here or in the child of the server\<close>

record session =
  server_of :: server
  fifos :: "string list"
  printed :: "string list"

definition req_fifo :: "int \<Rightarrow> string" where "req_fifo pid = ''client_fifo_req_'' @ c_show_int pid"
definition res_fifo :: "int \<Rightarrow> string" where "res_fifo pid = ''client_fifo_res_'' @ c_show_int pid"

definition emit :: "string \<Rightarrow> session \<Rightarrow> session" where
  "emit s w = w\<lparr>printed := printed w @ [s]\<rparr>"

definition unlink_fifos :: "int \<Rightarrow> session \<Rightarrow> session" where
  "unlink_fifos me w = w\<lparr>fifos := filter (\<lambda>f. f \<notin> {req_fifo me, res_fifo me}) (fifos w)\<rparr>"

text \<open>The signal handler.\<close>

definition sigint_handler :: "int \<Rightarrow> session \<Rightarrow> client_end \<times> session" where
  "sigint_handler me w = (Killed, unlink_fifos me w)"

definition chomp :: "string \<Rightarrow> string" where
  "chomp line = takeWhile (\<lambda>c. c \<noteq> CHR 0x0A) (c_str line)"

definition prompt :: string where "prompt = ''>> Enter command: ''"
definition input_error :: string where "input_error = ''Error reading command: ''"
definition goodbye :: string where "goodbye = ''Goodbye!''"

text \<open>
  The loop. A child that has left its own loop never opens the request FIFO again, and a signal the
  command sent to the client reaches it before the response does.
\<close>

fun client_loop :: "env \<Rightarrow> string \<Rightarrow> int \<Rightarrow> string list \<Rightarrow> session \<Rightarrow> client_end \<times> session" where
  "client_loop env dir me [] w = (Exits 1, unlink_fifos me (emit input_error (emit prompt w)))"
| "client_loop env dir me (line # ls) w =
     (let w = emit prompt w; s = server_of w in
      case children s me of
        None \<Rightarrow> (Hangs, w)
      | Some c \<Rightarrow>
          if done_flag c then (Hangs, w)
          else (let s' = client_command env dir me (chomp line) s;
                    w = w\<lparr>server_of := s'\<rparr>;
                    r = snd (last (outcomes s'))
                in if me \<in> set (drop (length (signalled s)) (signalled s')) then sigint_handler me w
                   else (case r of
                      Undefined \<Rightarrow> (Crashes, w)
                    | NoReply \<Rightarrow> (Hangs, w)
                    | Reply m \<Rightarrow>
                        if m = goodbye then (Exits 0, unlink_fifos me (emit (m @ nl) w))
                        else client_loop env dir me ls (emit (m @ nl) w)
                    | LastReply m \<Rightarrow>
                        if m = goodbye then (Exits 0, unlink_fifos me (emit (m @ nl) w))
                        else client_loop env dir me ls (emit (m @ nl) w))))"

subsection \<open>main\<close>

text \<open>
  \<open>argv\<close> as a list, the name of the program first. The arguments are used before their number is
  tested. \<open>me\<close> is the process id of the client and \<open>child\<close> the one that \<open>fork\<close> will give in the server.
\<close>

definition client_main ::
  "env \<Rightarrow> string \<Rightarrow> string list \<Rightarrow> int \<Rightarrow> int \<Rightarrow> string \<Rightarrow> session \<Rightarrow> client_end \<times> session" where
  "client_main env dir argv me child stdin w =
     (if length argv < 3 then (Crashes, w)
      else if length argv \<noteq> 3
      then (Exits 1, emit (''Usage: '' @ argv ! 0 @ '' <connection_type> <serverPID>'' @ nl) w)
      else
        (let connection_type = argv ! 1; serverPID = c_atoi (argv ! 2) in
         if server_fifo serverPID \<notin> set (fifos w) \<or> server_fifo serverPID \<in> set (unlinked (server_of w))
         then (Exits 1, emit ''Server access error: '' w)
         else
           (let w = w\<lparr>fifos := fifos w @ filter (\<lambda>f. f \<notin> set (fifos w)) [req_fifo me, res_fifo me]\<rparr> in
            if 50 \<le> length connection_type then (Crashes, w)
            else if \<not> (running (server_of w) \<and> serverPID = server_pid (server_of w)) then (Hangs, w)
            else
              (let w = w\<lparr>server_of := connection_request \<lparr>command = connection_type, cl_pid = me\<rparr> child (server_of w)\<rparr>;
                   w = emit (stale env @ nl) w
               in case snd (last (sent (server_of w))) of
                    OK \<Rightarrow> client_loop env dir me (fgets_pieces 50 [] stdin) (emit (''Connection established: '' @ nl) w)
                  | WAIT \<Rightarrow> (Exits 0, unlink_fifos me (emit (''>> Waiting for Queue...'' @ nl) w))
                  | FAIL \<Rightarrow> (Exits 0, unlink_fifos me (emit (''Connection failed'' @ nl) w))))))"

end
