(* ===== verification/File_Server_Properties.thy ===== *)
theory File_Server_Properties
  imports File_Server
begin

text \<open>
  What the file access server (sys03) does: a file as its list of lines, the effect of \<open>writeT\<close>
  on it, what \<open>readF\<close>, \<open>upload\<close> and \<open>download\<close> carry, two writers at once, which commands are
  answered, and who is admitted.
\<close>

subsection \<open>fgets and the text it carries\<close>

lemma length_nl [simp]: "length nl = 1"
  by (simp add: nl_def)

lemma nul_free_nl [simp]: "nul_free nl"
  by (simp add: nl_def)

lemma concat_pieces [simp]: "concat (fgets_pieces n line s) = line @ s"
  by (induction n line s rule: fgets_pieces.induct) auto

lemma nul_free_pieces:
  "nul_free s \<Longrightarrow> p \<in> set (fgets_pieces n [] s) \<Longrightarrow> nul_free p"
  using nul_free_concat [of "fgets_pieces n [] s"] by simp

lemma map_c_str_pieces: "nul_free s \<Longrightarrow> map c_str (fgets_pieces n [] s) = fgets_pieces n [] s"
  by (rule map_idI) (simp add: nul_free_pieces)

lemma copy_text_id: "nul_free s \<Longrightarrow> copy_text n s = s"
  by (simp add: copy_text_def map_c_str_pieces)

lemma nul_free_copy_text: "nul_free (copy_text n s)"
  by (auto simp: copy_text_def nul_free_concat nul_free_c_str)

lemma copy_text_exact: "copy_text n s = s \<longleftrightarrow> nul_free s"
  using copy_text_id nul_free_copy_text by metis

subsection \<open>A file as a list of lines\<close>

definition lines_text :: "string list \<Rightarrow> string" where
  "lines_text ls = concat (map (\<lambda>l. l @ nl) ls)"

definition line_ok :: "nat \<Rightarrow> string \<Rightarrow> bool" where
  "line_ok bound l = (CHR 0x0A \<notin> set l \<and> nul_free l \<and> length l < bound - 1)"

definition write_line :: "int \<Rightarrow> string \<Rightarrow> string list \<Rightarrow> string list" where
  "write_line k s ls = (if 1 \<le> k \<and> k \<le> int (length ls) then ls[nat (k - 1) := s] else ls @ [s])"

lemma lines_text_simps [simp]:
  "lines_text [] = []"
  "lines_text (l # ls) = l @ nl @ lines_text ls"
  "lines_text (ls @ ks) = lines_text ls @ lines_text ks"
  by (simp_all add: lines_text_def)

lemma nul_free_lines: "(\<And>l. l \<in> set ls \<Longrightarrow> nul_free l) \<Longrightarrow> nul_free (lines_text ls)"
  by (induction ls) auto

lemma pieces_line:
  "CHR 0x0A \<notin> set l \<Longrightarrow> length line + length l < n - 1 \<Longrightarrow>
   fgets_pieces n line (l @ nl @ rest) = (line @ l @ nl) # fgets_pieces n [] rest"
  by (induction l arbitrary: line) (auto simp: nl_def)

lemma pieces_lines:
  "(\<And>l. l \<in> set ls \<Longrightarrow> line_ok n l) \<Longrightarrow>
   fgets_pieces n [] (lines_text ls @ rest) = map (\<lambda>l. l @ nl) ls @ fgets_pieces n [] rest"
  by (induction ls) (auto simp: line_ok_def pieces_line)

lemma rewrite_loop_eq:
  "nul_free s \<Longrightarrow> (\<And>p. p \<in> set ps \<Longrightarrow> nul_free p) \<Longrightarrow>
   rewrite_loop k s (j, w, t) ps =
     (j + int (length ps), w \<or> (j < k \<and> k \<le> j + int (length ps)),
      t @ concat (if j < k \<and> k \<le> j + int (length ps) then ps[nat (k - j - 1) := s @ nl] else ps))"
proof (induction ps arbitrary: j w t)
  case (Cons p ps)
  consider "k \<le> j" | "k = j + 1" | "j + 1 < k" by linarith
  then show ?case
  proof cases
    case 3
    then have "nat (k - j - 1) = Suc (nat (k - (j + 1) - 1))" by linarith
    with Cons 3 show ?thesis by (simp add: add.assoc)
  qed (use Cons in \<open>simp_all add: add.assoc\<close>)
qed auto

lemma write_temp_eq:
  assumes "nul_free s" and "\<And>l. l \<in> set ls \<Longrightarrow> line_ok 256 l"
  shows "write_temp k s (lines_text ls) =
    (1 \<le> k \<and> k \<le> int (length ls), lines_text (write_line k s ls))"
proof -
  have ps: "fgets_pieces 256 [] (lines_text ls) = map (\<lambda>l. l @ nl) ls"
    using pieces_lines [of ls 256 "[]"] assms(2) by simp
  have ok: "nul_free p" if "p \<in> set (map (\<lambda>l. l @ nl) ls)" for p
    using that assms(2) by (auto simp: line_ok_def)
  have replaced: "concat ((map (\<lambda>l. l @ nl) ls)[i := s @ nl]) = lines_text (ls[i := s])" for i
    by (simp add: lines_text_def map_update)
  have kept: "concat (map (\<lambda>l. l @ nl) ls) = lines_text ls"
    by (simp add: lines_text_def)
  show ?thesis
    using rewrite_loop_eq [of s "map (\<lambda>l. l @ nl) ls" k 0 False "[]", OF assms(1) ok]
    by (simp add: write_temp_def ps write_line_def replaced kept split: if_splits)
qed

lemma write_line_ok:
  assumes "nul_free s" and "\<And>l. l \<in> set ls \<Longrightarrow> nul_free l"
  shows "nul_free (lines_text (write_line k s ls))"
proof (rule nul_free_lines)
  fix l assume "l \<in> set (write_line k s ls)"
  with assms show "nul_free l"
    by (auto simp: write_line_def split: if_splits dest: in_update_D)
qed

lemma write_back_id: "nul_free t \<Longrightarrow> write_back path t d = d(path \<mapsto> t)"
  by (simp add: write_back_def copy_text_id)

subsection \<open>Lengths of the messages\<close>

lemma write_message_fits:
  assumes "is_int k" and "length s \<le> 900"
  shows "message_set (write_message k b s) = Some (write_message k b s)"
  using length_shown [OF assms(1)] assms(2)
  by (auto simp: message_set_def write_message_def MAX_RESPONSE_SIZE_def)

text \<open>C17. \<open>writeT\<close> implements the editing of a list of lines: on a file of lines shorter than
  255 characters the k-th line is replaced when there is one, and otherwise the text becomes a
  new last line, whatever the sign of k; the answer says which of the two happened, and no other
  file changes. (For k beyond the last line the answer says that the line does not exist, and yet
  the text is appended; a file that did not exist is left empty.)
\<close>

theorem write_line_effect:
  assumes "is_int k" and "nul_free s" and "length s \<le> 900"
    and "can_read env path" and "can_write env path"
  shows "((\<forall>l \<in> set ls. line_ok 256 l) \<and> d path = Some (lines_text ls) \<longrightarrow>
      write_server_file env path k s d =
        (Some (write_message k (1 \<le> k \<and> k \<le> int (length ls)) s),
         d(path \<mapsto> lines_text (write_line k s ls)))) \<and>
    (d path = None \<longrightarrow>
      write_server_file env path k s d = (Some (write_message k False s), d(path \<mapsto> [])))"
proof (intro conjI impI)
  assume *: "(\<forall>l \<in> set ls. line_ok 256 l) \<and> d path = Some (lines_text ls)"
  then have "nul_free (lines_text (write_line k s ls))"
    by (intro write_line_ok assms) (auto simp: line_ok_def)
  with * assms write_temp_eq [of s ls k] show "write_server_file env path k s d =
    (Some (write_message k (1 \<le> k \<and> k \<le> int (length ls)) s),
     d(path \<mapsto> lines_text (write_line k s ls)))"
    by (simp add: write_server_file_def open_read_def write_message_fits write_back_id)
next
  assume "d path = None"
  with assms show "write_server_file env path k s d = (Some (write_message k False s), d(path \<mapsto> []))"
    by (simp add: write_server_file_def open_read_def write_message_fits)
qed

definition plain_env :: env where
  "plain_env = \<lparr>can_read = (\<lambda>_. True), can_write = (\<lambda>_. True), readdir = (\<lambda>d p. Some []),
     kill_ok = (\<lambda>_. True), tar = (\<lambda>d f p. (d, True)), stale = []\<rparr>"

theorem write_line_effect_witness:
  "write_server_file plain_env ''srv/a'' 2 ''new'' [''srv/a'' \<mapsto> lines_text [''one'', ''two'']] =
     (Some (write_message 2 True ''new''), [''srv/a'' \<mapsto> lines_text [''one'', ''new'']])"
proof -
  have "\<forall>l \<in> set [''one'', ''two'']. line_ok 256 l"
    by (simp add: line_ok_def)
  then show ?thesis
    using write_line_effect [of 2 "''new''" plain_env "''srv/a''" "[''one'', ''two'']"
        "[''srv/a'' \<mapsto> lines_text [''one'', ''two'']]"]
    by (simp add: is_int_def plain_env_def write_line_def del: lines_text_simps)
qed

subsection \<open>Commands as the client types them\<close>

definition word :: "string \<Rightarrow> bool" where
  "word t = (t \<noteq> [] \<and> CHR '' '' \<notin> set t)"

lemma arg_token: "word t \<Longrightarrow> c_strtok '' '' (t @ CHR '' '' # r) = (Some t, r)"
  by (rule c_strtok_token) (auto simp: word_def)

lemma arg_last: "word t \<Longrightarrow> c_strtok '' '' t = (Some t, [])"
  by (rule c_strtok_last) (auto simp: word_def)

lemma shown_nonempty: "c_show_int k \<noteq> []"
  by (simp add: c_show_int_def dec_digits_nonempty)

lemma word_shown: "word (c_show_int k)"
proof -
  have "CHR '' '' \<notin> set (dec_digits n)" for n
    using dec_digits_digits [of "CHR '' ''" n] by (auto simp: is_digit_def)
  then show ?thesis
    using shown_nonempty by (auto simp: word_def c_show_int_def)
qed

lemma writeT_command:
  assumes "word f" and "word s" and "is_int k" and "path_in dir f = Some path"
  shows "handle_request env dir (''writeT '' @ f @ '' '' @ c_show_int k @ '' '' @ s) c d =
    (case write_server_file env path k s d of (m, d') \<Rightarrow> (answer_of m, c, d'))"
proof -
  have "c_strtok '' '' (''writeT'' @ CHR '' '' # (f @ '' '' @ c_show_int k @ '' '' @ s)) =
      (Some ''writeT'', f @ '' '' @ c_show_int k @ '' '' @ s)"
    by (rule arg_token) (simp add: word_def)
  then show ?thesis
    using assms arg_token [of f "c_show_int k @ '' '' @ s"] arg_token [OF word_shown, of k s]
      arg_last [of s]
    by (simp add: handle_request_def is_word_def write_request_def c_atoi_shown split: prod.split)
qed

lemma readF_command:
  assumes "word f" and "is_int k" and "path_in dir f = Some path"
  shows "handle_request env dir (''readF '' @ f @ '' '' @ c_show_int k) c d =
    (answer_of (read_server_file env path k d (stale env)), c, d)"
proof -
  have "c_strtok '' '' (''readF'' @ CHR '' '' # (f @ '' '' @ c_show_int k)) =
      (Some ''readF'', f @ '' '' @ c_show_int k)"
    by (rule arg_token) (simp add: word_def)
  then show ?thesis
    using assms arg_token [of f "c_show_int k"] arg_last [OF word_shown, of k]
    by (simp add: handle_request_def is_word_def read_request_def c_atoi_shown)
qed

lemma line_loop_eq:
  "j < k \<Longrightarrow> line_loop j k ps m =
    (if k \<le> j + int (length ps) then message_append (c_str (ps ! nat (k - j - 1))) m else Some m)"
proof (induction ps arbitrary: j)
  case (Cons p ps)
  have past: "line_loop k k ps m' = Some m'" for m'
    by (cases ps) simp_all
  show ?case
  proof (cases "k = j + 1")
    case True
    have "Option.bind z (line_loop (j + 1) (j + 1) ps) = z" for z
      using past True by (cases z) simp_all
    with True show ?thesis by simp
  next
    case False
    with Cons.prems have "j + 1 < k" and "nat (k - j - 1) = Suc (nat (k - (j + 1) - 1))"
      by linarith+
    with Cons.IH [of "j + 1"] False show ?thesis by auto
  qed
qed simp

lemma read_line_eq:
  assumes "\<And>l. l \<in> set ls \<Longrightarrow> line_ok 100 l" and "1 \<le> k" and "k \<le> int (length ls)"
    and "can_read env path" and "d path = Some (lines_text ls)"
  shows "read_server_file env path k d m = message_append (ls ! nat (k - 1) @ nl) m"
proof -
  have "fgets_pieces 100 [] (lines_text ls) = map (\<lambda>l. l @ nl) ls"
    using pieces_lines [of ls 100 "[]"] assms(1) by simp
  moreover have "nat (k - 1) < length ls" using assms by linarith
  moreover from this have "nul_free (ls ! nat (k - 1))"
    using assms(1) [of "ls ! nat (k - 1)"] by (simp add: line_ok_def)
  ultimately show ?thesis
    using assms by (simp add: read_server_file_def open_read_def line_loop_eq)
qed

lemma write_line_nth:
  assumes "1 \<le> k" and "k \<le> int (length ls) + 1"
  shows "write_line k s ls ! nat (k - 1) = s" and "k \<le> int (length (write_line k s ls))"
proof -
  have "nat (k - 1) < length ls \<or> (nat (k - 1) = length ls \<and> k = int (length ls) + 1)"
    using assms by linarith
  then show "write_line k s ls ! nat (k - 1) = s" "k \<le> int (length (write_line k s ls))"
    using assms by (auto simp: write_line_def)
qed

lemma write_line_lines:
  "line_ok n s \<Longrightarrow> (\<And>l. l \<in> set ls \<Longrightarrow> line_ok n l) \<Longrightarrow> l \<in> set (write_line k s ls) \<Longrightarrow> line_ok n l"
  by (auto simp: write_line_def split: if_splits dest: in_update_D)

text \<open>C18. What one client writes with \<open>writeT <file> <k> <word>\<close>, any client reads back with
  \<open>readF <file> <k>\<close>, from the command line to the answer, for every line number up to one past the
  end of a file whose lines fit the buffer of the reader. The answer is the line behind whatever
  text the fresh response held, since \<open>readF\<close> appends to memory that was never initialised.
\<close>

theorem write_then_read:
  assumes "word f" and "word s" and "is_int k" and "path_in dir f = Some path"
    and "can_read env path" and "can_write env path"
    and "d path = Some (lines_text ls)" and "\<forall>l \<in> set (s # ls). line_ok 100 l"
    and "1 \<le> k" and "k \<le> int (length ls) + 1"
    and "length (stale env) + length s < 1023"
  shows "\<exists>m d'. handle_request env dir (''writeT '' @ f @ '' '' @ c_show_int k @ '' '' @ s) c d =
      (Reply m, c, d') \<and>
    handle_request env dir (''readF '' @ f @ '' '' @ c_show_int k) c' d' =
      (Reply (stale env @ s @ nl), c', d')"
proof (intro exI conjI)
  let ?ls = "write_line k s ls"
  let ?d = "d(path \<mapsto> lines_text ?ls)"
  have ok: "nul_free s" "length s \<le> 900" "\<And>l. l \<in> set ls \<Longrightarrow> line_ok 256 l"
    using assms(8) by (auto simp: line_ok_def)
  have "nul_free (lines_text ?ls)"
    using ok by (intro write_line_ok) (auto simp: line_ok_def)
  then show "handle_request env dir (''writeT '' @ f @ '' '' @ c_show_int k @ '' '' @ s) c d =
      (Reply (write_message k (1 \<le> k \<and> k \<le> int (length ls)) s), c, ?d)"
    unfolding writeT_command [OF assms(1-4)]
    using assms ok write_temp_eq [of s ls k]
    by (simp add: write_server_file_def open_read_def write_message_fits write_back_id answer_of_def)
  have "read_server_file env path k ?d (stale env) =
      message_append (?ls ! nat (k - 1) @ nl) (stale env)"
  proof (rule read_line_eq)
    fix l assume "l \<in> set ?ls"
    then show "line_ok 100 l" by (rule write_line_lines [rotated 2]) (use assms(8) in auto)
  qed (use assms write_line_nth in auto)
  then show "handle_request env dir (''readF '' @ f @ '' '' @ c_show_int k) c' ?d =
      (Reply (stale env @ s @ nl), c', ?d)"
    unfolding readF_command [OF assms(1,3,4)]
    using assms by (simp add: write_line_nth(1) message_append_def answer_of_def MAX_RESPONSE_SIZE_def nl_def)
qed

definition plain_child :: child where
  "plain_child = \<lparr>self_pid = 11, parent_pid = 1, child_globals = \<lparr>active_clients = 1, client_pids = [7]\<rparr>,
     done_flag = False, targets = [], removed = []\<rparr>"

theorem write_then_read_witness:
  "\<exists>m d'. handle_request plain_env ''srv'' (''writeT '' @ ''a'' @ '' '' @ c_show_int 2 @ '' '' @ ''new'')
      plain_child [''srv/a'' \<mapsto> lines_text [''one'']] = (Reply m, plain_child, d') \<and>
    handle_request plain_env ''srv'' (''readF '' @ ''a'' @ '' '' @ c_show_int 2) plain_child d' =
      (Reply (stale plain_env @ ''new'' @ nl), plain_child, d')"
  by (rule write_then_read [where path = "''srv/a''" and ls = "[''one'']"])
    (simp_all add: word_def is_int_def path_in_def PATH_SIZE_def plain_env_def line_ok_def)

subsection \<open>upload and download\<close>

text \<open>\<open>upload\<close> copies the client's file to the server, and \<open>download\<close> brings it back once the
  client's copy is gone: with the exact bytes if and only if the file has no NUL byte, since the
  pieces read by \<open>fgets\<close> are written with a \<open>%s\<close> format. The file uploaded and the one downloaded
  always agree with each other.
\<close>

theorem upload_copies:
  assumes "path_in ''.'' f = Some cpath" and "path_in dir f = Some spath" and "cpath \<noteq> spath"
    and "can_read env cpath" and "can_read env spath" and "can_write env cpath" and "can_write env spath"
    and "d cpath = Some contents" and "d spath = None"
  shows "case upload_file_to_server env f dir d of (m, d1) \<Rightarrow>
      m = Some ''File uploaded successfully'' \<and>
      d1 cpath = Some contents \<and>
      (d1 spath = Some contents \<longleftrightarrow> nul_free contents) \<and>
      (case download_file_from_server env f dir (d1(cpath := None)) of (m', d2) \<Rightarrow>
        m' = Some ''File downloaded successfully'' \<and> d2 spath = d1 spath \<and> d2 cpath = d1 spath)"
  using assms
  by (simp add: upload_file_to_server_def download_file_from_server_def open_read_def message_set_def
    MAX_RESPONSE_SIZE_def copy_text_exact copy_text_id nul_free_copy_text)

theorem upload_copies_witness:
  "case upload_file_to_server plain_env ''a'' ''srv'' [''./a'' \<mapsto> ''x''] of (m, d1) \<Rightarrow>
      m = Some ''File uploaded successfully'' \<and>
      d1 ''./a'' = Some ''x'' \<and>
      (d1 ''srv/a'' = Some ''x'' \<longleftrightarrow> nul_free ''x'') \<and>
      (case download_file_from_server plain_env ''a'' ''srv'' (d1(''./a'' := None)) of (m', d2) \<Rightarrow>
        m' = Some ''File downloaded successfully'' \<and> d2 ''srv/a'' = d1 ''srv/a'' \<and>
        d2 ''./a'' = d1 ''srv/a'')"
  by (rule upload_copies) (simp_all add: path_in_def PATH_SIZE_def plain_env_def)

subsection \<open>Two writers\<close>

lemma writeT_end:
  assumes "nul_free s" and "nul_free contents"
  shows "snd (write_temp 0 s contents) = contents @ s @ nl"
proof -
  have "nul_free p" if "p \<in> set (fgets_pieces 256 [] contents)" for p
    using that assms(2) by (rule nul_free_pieces [rotated])
  from rewrite_loop_eq [of s "fgets_pieces 256 [] contents" 0 0 False "[]", OF assms(1) this]
  show ?thesis by (simp add: write_temp_def)
qed

definition two_appends :: "string \<Rightarrow> string \<Rightarrow> (int \<times> string) list" where
  "two_appends s t = [(0, s), (0, t)]"

text \<open>
  What the file and the writers' temporary files hold, in every state two appending writers
  reach; \<open>a\<close> and \<open>b\<close> are the two lines with their newlines.
\<close>

fun writers_ok :: "string \<Rightarrow> string \<Rightarrow> string \<Rightarrow> string \<Rightarrow> writer list \<Rightarrow> bool" where
  "writers_ok c a b now [Ready, Ready] = (now = c)"
| "writers_ok c a b now [Copied x, Ready] = (now = c \<and> x = c @ a)"
| "writers_ok c a b now [Ready, Copied y] = (now = c \<and> y = c @ b)"
| "writers_ok c a b now [Copied x, Copied y] = (now = c \<and> x = c @ a \<and> y = c @ b)"
| "writers_ok c a b now [Written, Ready] = (now = c @ a)"
| "writers_ok c a b now [Ready, Written] = (now = c @ b)"
| "writers_ok c a b now [Written, Copied y] = (now = c @ a \<and> y \<in> {c @ a @ b, c @ b})"
| "writers_ok c a b now [Copied x, Written] = (now = c @ b \<and> x \<in> {c @ b @ a, c @ a})"
| "writers_ok c a b now [Written, Written] = (now \<in> {c @ a @ b, c @ b @ a, c @ a, c @ b})"
| "writers_ok c a b now _ = False"

definition writers_inv :: "string \<Rightarrow> string \<Rightarrow> string \<Rightarrow> writers \<Rightarrow> bool" where
  "writers_inv c s t w =
     (nul_free c \<and> nul_free s \<and> nul_free t \<and> writers_ok c (s @ nl) (t @ nl) (contents_of w) (progress w))"

lemma writers_ok_two: "writers_ok c a b now ps \<Longrightarrow> \<exists>p q. ps = [p, q]"
  by (cases "(c, a, b, now, ps)" rule: writers_ok.cases) auto

lemma two_cases: "i < 2 \<Longrightarrow> (i = 0 \<Longrightarrow> P) \<Longrightarrow> (i = 1 \<Longrightarrow> P) \<Longrightarrow> P" for i :: nat
  by linarith

lemma writers_preserved:
  assumes inv: "writers_inv c s t w" and step: "writer_step (two_appends s t) w w'"
  shows "writers_inv c s t w'"
proof -
  note free = inv [unfolded writers_inv_def]
  from free writers_ok_two obtain p q where pq: "progress w = [p, q]" by blast
  from step show ?thesis
  proof cases
    case (copying i)
    from copying(2) pq have "i < 2" by simp
    then show ?thesis
    proof (rule two_cases)
      assume "i = 0"
      with copying pq free show ?thesis
        by (cases q) (auto simp: writers_inv_def writer_copies_def two_appends_def writeT_end)
    next
      assume "i = 1"
      with copying pq free show ?thesis
        by (cases p) (auto simp: writers_inv_def writer_copies_def two_appends_def writeT_end)
    qed
  next
    case (rewriting i temp)
    from rewriting(2) pq have "i < 2" by simp
    then show ?thesis
    proof (rule two_cases)
      assume "i = 0"
      with rewriting pq free show ?thesis
        by (cases q) (auto simp: writers_inv_def writer_rewrites_def copy_text_id)
    next
      assume "i = 1"
      with rewriting pq free show ?thesis
        by (cases p) (auto simp: writers_inv_def writer_rewrites_def copy_text_id)
    qed
  qed
qed

interpretation appends: inductive_invariant
  "\<lambda>w. writers_init c (two_appends s t) w \<and> nul_free c \<and> nul_free s \<and> nul_free t"
  "writer_step (two_appends s t)" "writers_inv c s t" for c s t
proof unfold_locales
  show "writers_inv c s t w'" if "writers_inv c s t w" and "writer_step (two_appends s t) w w'" for w w'
    using that by (rule writers_preserved)
qed (simp add: writers_init_def writers_inv_def two_appends_def)

text \<open>A schedule says which writer moves next.\<close>

definition advance :: "(int \<times> string) list \<Rightarrow> nat \<Rightarrow> writers \<Rightarrow> writers" where
  "advance jobs i w =
     (case progress w ! i of
        Ready \<Rightarrow> writer_copies jobs i w | Copied temp \<Rightarrow> writer_rewrites i temp w | Written \<Rightarrow> w)"

lemma schedule_reachable:
  "reachable init (writer_step jobs) w \<Longrightarrow> (\<And>i. i \<in> set is \<Longrightarrow> i < length (progress w)) \<Longrightarrow>
   reachable init (writer_step jobs) (fold (advance jobs) is w)"
proof (induction "is" arbitrary: w)
  case (Cons i "is")
  have len: "length (progress (advance jobs i w)) = length (progress w)"
    by (simp add: advance_def writer_copies_def writer_rewrites_def split: writer.split)
  have "reachable init (writer_step jobs) (advance jobs i w)"
    using Cons.prems
    by (auto simp: advance_def intro: reach_step writer_step.intros split: writer.split)
  with Cons len show ?case by simp
qed simp

definition writers_end :: "string \<Rightarrow> string \<Rightarrow> string \<Rightarrow> string set" where
  "writers_end c s t = {contents_of w |w.
     reachable (writers_init c (two_appends s t)) (writer_step (two_appends s t)) w \<and>
     progress w = [Written, Written]}"

lemma schedule_end:
  assumes "set is \<subseteq> {0, 1}"
    and "fold (advance (two_appends s t)) is \<lparr>contents_of = c, progress = [Ready, Ready]\<rparr> =
      \<lparr>contents_of = x, progress = [Written, Written]\<rparr>"
  shows "x \<in> writers_end c s t"
proof -
  let ?w = "\<lparr>contents_of = c, progress = [Ready, Ready]\<rparr>"
  have "reachable (writers_init c (two_appends s t)) (writer_step (two_appends s t)) ?w"
    by (rule reach_init) (simp add: writers_init_def two_appends_def)
  then have "reachable (writers_init c (two_appends s t)) (writer_step (two_appends s t))
      (fold (advance (two_appends s t)) is ?w)"
    by (rule schedule_reachable) (use assms(1) in auto)
  then show ?thesis
    unfolding assms(2) writers_end_def by force
qed



subsection \<open>Which commands are answered\<close>

lemma strtok_parts:
  assumes "c_strtok ds s = (Some t, r)"
  shows "length t + length r \<le> length s" and "nul_free s \<Longrightarrow> nul_free t \<and> nul_free r"
proof -
  define u where "u = dropWhile (\<lambda>c. c \<in> set ds) s"
  from assms have t: "t = takeWhile (\<lambda>c. c \<notin> set ds) u" "r = drop 1 (dropWhile (\<lambda>c. c \<notin> set ds) u)"
    by (auto simp: c_strtok_def Let_def u_def split: if_splits)
  have "length t + length (dropWhile (\<lambda>c. c \<notin> set ds) u) = length u"
    unfolding t(1) by (metis length_append takeWhile_dropWhile_id)
  moreover have "length u \<le> length s"
    by (simp add: u_def length_dropWhile_le)
  ultimately show "length t + length r \<le> length s" by (simp add: t(2))
  show "nul_free t \<and> nul_free r" if "nul_free s"
  proof -
    have "set u \<subseteq> set s" by (auto simp: u_def dest: set_dropWhileD)
    with that t show ?thesis
      by (auto simp: nul_free_def dest!: set_takeWhileD set_dropWhileD in_set_dropD)
  qed
qed

definition answered :: "outcome \<Rightarrow> bool" where
  "answered r = (case r of Reply m \<Rightarrow> True | _ \<Rightarrow> False)"

lemma answered_reply: "m \<noteq> None \<Longrightarrow> answered (answer_of m)"
  by (auto simp: answered_def answer_of_def)

lemma answered_invalid: "answered invalid"
  by (simp add: invalid_def answered_def answer_of_def message_set_def MAX_RESPONSE_SIZE_def)

lemma write_server_file_fits:
  "is_int k \<Longrightarrow> length s \<le> 900 \<Longrightarrow> fst (write_server_file env path k s d) \<noteq> None"
  by (simp add: write_server_file_def write_message_fits split: option.split prod.split)
    (simp add: message_set_def MAX_RESPONSE_SIZE_def)

lemma atoi_is_int: "is_int (c_atoi s)"
  using c_atoi_range by (simp add: is_int_def)

lemma write_request_answered:
  assumes "length dir + length args < 49"
  shows "answered (fst (write_request env dir args d))"
proof (cases "c_strtok '' '' args")
  case (Pair a r)
  show ?thesis
  proof (cases a)
    case (Some f)
    with Pair have fr: "length f + length r \<le> length args"
      using strtok_parts(1) [of "'' ''" args f r] by simp
    then obtain path where path: "path_in dir f = Some path"
      using assms by (simp add: path_in_def PATH_SIZE_def)
    obtain b r' where br: "c_strtok '' '' r = (b, r')" by fastforce
    have k: "is_int (case b of None \<Rightarrow> 0 | Some t \<Rightarrow> c_atoi t)"
      by (cases b) (simp_all add: atoi_is_int, simp add: is_int_def)
    have r': "length r' \<le> length r"
      using br strtok_parts(1) [of "'' ''" r] c_strtok_None_rest [of "'' ''" r] by (cases b) fastforce+
    show ?thesis
    proof (cases "c_strtok '' '' r'")
      case (Pair e r'')
      show ?thesis
      proof (cases e)
        case (Some s)
        have "length s \<le> 900"
          using Some Pair strtok_parts(1) [of "'' ''" r' s r''] r' fr assms by simp
        with k have "fst (write_server_file env path (case b of None \<Rightarrow> 0 | Some t \<Rightarrow> c_atoi t) s d) \<noteq> None"
          by (rule write_server_file_fits)
        then show ?thesis
          using \<open>a = Some f\<close> \<open>c_strtok '' '' args = (a, r)\<close> path br Pair Some
          by (auto simp: write_request_def answered_reply split: prod.split)
      qed (use \<open>a = Some f\<close> \<open>c_strtok '' '' args = (a, r)\<close> path br Pair in
        \<open>simp add: write_request_def answered_invalid\<close>)
    qed
  qed (use Pair in \<open>simp add: write_request_def answered_invalid\<close>)
qed

lemma file_request_answered:
  assumes "length dir + length args < 49"
    and "\<And>f. length f \<le> length args \<Longrightarrow> fst (operation f dir d) \<noteq> None"
  shows "answered (fst (file_request operation dir args d))"
proof (cases "c_strtok '' '' args")
  case (Pair a r)
  show ?thesis
  proof (cases a)
    case (Some f)
    with Pair have "length f \<le> length args"
      using strtok_parts(1) [of "'' ''" args f r] by simp
    then have "fst (operation f dir d) \<noteq> None" by (rule assms(2))
    with Pair Some show ?thesis
      by (auto simp: file_request_def answered_reply split: prod.split)
  qed (use Pair in \<open>simp add: file_request_def answered_invalid\<close>)
qed

lemma transfers_fit:
  assumes "length dir + length f < 49" and "length f < 48"
  shows "fst (upload_file_to_server env f dir d) \<noteq> None"
    and "fst (download_file_from_server env f dir d) \<noteq> None"
    and "fst (arch_server_files env f dir d) \<noteq> None"
  using assms
  by (simp_all add: upload_file_to_server_def download_file_from_server_def arch_server_files_def
    path_in_def PATH_SIZE_def message_set_def MAX_RESPONSE_SIZE_def split: option.split prod.split bool.split)

lemma is_word_eq: "nul_free w \<Longrightarrow> nul_free s \<Longrightarrow> is_word w s \<longleftrightarrow> w = s"
  by (simp add: is_word_def c_strcmp_eq_0)

text \<open>How a command ends, by its first word.\<close>

definition expected_end :: "string option \<Rightarrow> outcome \<Rightarrow> bool" where
  "expected_end first r =
     (if first = None then r = Undefined
      else if first = Some ''quit'' then r = NoReply
      else if first = Some ''killServer'' then \<exists>m. r = LastReply m
      else answered r)"

lemma kill_server_fits: "fst (kill_server env self parent g m) \<noteq> None"
  by (simp add: kill_server_def message_set_def MAX_RESPONSE_SIZE_def)

lemma kill_request_last:
  "\<exists>m. fst (kill_request env c) = LastReply m" "done_flag (snd (kill_request env c))"
proof -
  obtain m g ps path where k: "kill_server env (self_pid c) (parent_pid c) (child_globals c) (stale env)
      = (m, g, ps, path)"
    by (cases "kill_server env (self_pid c) (parent_pid c) (child_globals c) (stale env)")
  then have "m \<noteq> None" using kill_server_fits [of env "self_pid c" "parent_pid c"] by (metis fst_conv)
  with k show "\<exists>m. fst (kill_request env c) = LastReply m" "done_flag (snd (kill_request env c))"
    by (auto simp: kill_request_def)
qed

lemma help_fits: "answered (answer_of (message_set help_text))"
  by (rule answered_reply) (simp add: message_set_def MAX_RESPONSE_SIZE_def help_text_def)

lemma nul_free_names:
  "nul_free ''help''" "nul_free ''quit''" "nul_free ''list''" "nul_free ''readF''" "nul_free ''writeT''"
  "nul_free ''upload''" "nul_free ''download''" "nul_free ''archServer''" "nul_free ''killServer''"
  by simp_all



subsection \<open>Admission\<close>

definition admitted :: "int \<Rightarrow> (nat \<times> request) \<Rightarrow> int \<times> status_code" where
  "admitted max_count = (\<lambda>(i, req). (cl_pid req,
     if int i < max_count then OK else if is_word (command req) ''connect'' then WAIT else FAIL))"

fun connections :: "event list \<Rightarrow> request list" where
  "connections [] = []"
| "connections (Connection req pid # es) = req # connections es"
| "connections (Command client cmd # es) = connections es"

lemma connections_append [simp]: "connections (es @ fs) = connections es @ connections fs"
  by (induction es rule: connections.induct) simp_all

definition admission_inv :: "int \<Rightarrow> request list \<Rightarrow> server \<Rightarrow> bool" where
  "admission_inv max_count rs s =
     (0 < max_count \<and> max_client_count s = max_count \<and>
      sent s = map (admitted max_count) (zip [0..<length rs] rs) \<and>
      active_clients (main_globals s) = min max_count (int (length rs)) \<and>
      client_pids (main_globals s) = map cl_pid (take (nat max_count) rs))"

lemma zip_upt_snoc: "zip [0..<length (rs @ [r])] (rs @ [r]) = zip [0..<length rs] rs @ [(length rs, r)]"
  by simp

lemma connection_keeps_admission:
  assumes "admission_inv m rs s"
  shows "admission_inv m (rs @ [req]) (connection_request req pid s)"
proof (cases "m \<le> int (length rs)")
  case True
  with assms show ?thesis
    by (auto simp: admission_inv_def connection_request_def Let_def admitted_def)
next
  case False
  then have "nat m > length rs" by linarith
  with False assms show ?thesis
    by (auto simp: admission_inv_def connection_request_def Let_def admitted_def)
qed

lemma command_keeps_admission:
  "admission_inv m rs s \<Longrightarrow> admission_inv m rs (client_command env dir client cmd s)"
  by (auto simp: admission_inv_def client_command_def Let_def split: option.split prod.split)

lemma running_stays: "running (server_event env dir e s) \<Longrightarrow> running s"
  by (cases e) (auto simp: client_command_def Let_def split: option.splits prod.splits if_splits)

lemma run_admission:
  "running (server_run env dir es s) \<Longrightarrow> admission_inv m [] s \<Longrightarrow>
   admission_inv m (connections es) (server_run env dir es s)"
proof (induction es rule: rev_induct)
  case (snoc e es)
  have run: "server_run env dir (es @ [e]) s = server_event env dir e (server_run env dir es s)"
    by (simp add: server_run_def)
  with snoc.prems have "running (server_run env dir es s)" by (metis running_stays)
  with snoc have IH: "admission_inv m (connections es) (server_run env dir es s)" by simp
  show ?case
  proof (cases e)
    case (Connection req pid)
    with IH \<open>running (server_run env dir es s)\<close> show ?thesis
      unfolding run by (simp add: connection_keeps_admission)
  next
    case (Command client cmd)
    with IH show ?thesis unfolding run by (simp add: command_keeps_admission)
  qed
qed (simp add: server_run_def)


definition one_place :: "event list" where
  "one_place = [Connection \<lparr>command = ''connect'', cl_pid = 7\<rparr> 11, Command 7 ''quit'',
     Connection \<lparr>command = ''connect'', cl_pid = 8\<rparr> 12]"


subsection \<open>killServer\<close>

text \<open>
  A child signals the clients that were admitted up to its own creation, and the parent; clients
  admitted later are not in its copy of the table.
\<close>

lemma kill_signals:
  "kill_server env self parent g m = (m', g', ps, path) \<Longrightarrow>
   ps = take (nat (active_clients g)) (client_pids g) @ [parent]"
  by (auto simp: kill_server_def Let_def)

lemma fork_copies_table:
  assumes "admission_inv m rs s" and "int (length rs) < m"
    and "children (connection_request req pid s) (cl_pid req) = Some c"
  shows "client_pids (child_globals c) = map cl_pid (rs @ [req]) \<and>
    active_clients (child_globals c) = int (length rs + 1)"
proof -
  have "nat m \<ge> length rs" using assms(2) by linarith
  with assms show ?thesis
    by (auto simp: admission_inv_def connection_request_def Let_def)
qed

end
