(* ===== verification/File_Client_Properties.thy ===== *)
theory File_Client_Properties
  imports File_Client File_Server_Properties
begin

text \<open>
  Sessions of the file access client: the commands reach the server once and in order, what is printed
  are the replies, and how a session can end.
\<close>

subsection \<open>The child and its loop\<close>

lemma handle_request_goes_on:
  assumes "\<not> done_flag c"
  shows "fst (handle_request env dir cmd c d) = Reply m \<Longrightarrow> \<not> done_flag (fst (snd (handle_request env dir cmd c d)))"
    and "fst (handle_request env dir cmd c d) = LastReply m \<Longrightarrow> done_flag (fst (snd (handle_request env dir cmd c d)))"
proof -
  have a: "answer_of m = LastReply x \<longleftrightarrow> False" for m x by (simp add: answer_of_def split: option.split)
  have w: "fst (write_request env dir args d) \<noteq> LastReply x" for args x
    by (simp add: write_request_def invalid_def a split: option.split prod.split)
  have f: "fst (file_request operation dir args d) \<noteq> LastReply x" for operation args x
    by (simp add: file_request_def invalid_def a split: option.split prod.split)
  have r: "read_request env dir args d \<noteq> LastReply x" for args x
    by (simp add: read_request_def invalid_def a split: option.split prod.split)
  have k: "fst (kill_request env c) \<noteq> Reply x" "done_flag (snd (kill_request env c))" for x
    using kill_request_last [of env c] by auto
  show "\<not> done_flag (fst (snd (handle_request env dir cmd c d)))" if "fst (handle_request env dir cmd c d) = Reply m"
    using that assms k unfolding handle_request_def case_prod_beta
    by (auto split: option.splits if_splits)
  show "done_flag (fst (snd (handle_request env dir cmd c d)))" if "fst (handle_request env dir cmd c d) = LastReply m"
    using that w f r k unfolding handle_request_def case_prod_beta
    by (auto simp: invalid_def a split: option.splits if_splits)
qed

text \<open>One command of a client whose child still listens.\<close>

lemma client_command_step:
  assumes "children s me = Some c" and "\<not> done_flag c"
  shows "\<exists>r c'. outcomes (client_command env dir me cmd s) = outcomes s @ [(me, r)] \<and>
    children (client_command env dir me cmd s) me = Some c' \<and>
    (\<forall>m. r = Reply m \<longrightarrow> \<not> done_flag c') \<and> (\<forall>m. r = LastReply m \<longrightarrow> done_flag c')"
proof -
  obtain r c' d' where h: "handle_request env dir cmd c (files_on s) = (r, c', d')"
    by (cases "handle_request env dir cmd c (files_on s)")
  then show ?thesis
    using assms handle_request_goes_on [OF assms(2), of env dir cmd "files_on s"] h
    by (auto simp: client_command_def Let_def)
qed

subsection \<open>How a session ends\<close>

text \<open>The outcomes after the last ordinary answer, how the client ends, and what it still prints.\<close>

inductive closing :: "outcome list \<Rightarrow> client_end \<Rightarrow> string list \<Rightarrow> bool" where
  end_of_input: "closing [] (Exits 1) [prompt, input_error]"
| said_goodbye: "closing [Reply goodbye] (Exits 0) [prompt, goodbye @ nl]"
| quit: "closing [NoReply] Hangs [prompt]"
| signalled: "closing [r] Killed [prompt]"
| crashed: "closing [Undefined] Crashes [prompt]"
| server_gone: "closing [LastReply m] Hangs [prompt, m @ nl, prompt]"
| server_gone_eof: "closing [LastReply m] (Exits 1) [prompt, m @ nl, prompt, input_error]"
| last_goodbye: "closing [LastReply goodbye] (Exits 0) [prompt, goodbye @ nl]"

definition replies :: "string list \<Rightarrow> string list" where
  "replies ms = concat (map (\<lambda>m. [prompt, m @ nl]) ms)"

lemma replies_simps [simp]: "replies [] = []" "replies (m # ms) = prompt # (m @ nl) # replies ms"
  by (simp_all add: replies_def)

definition leaves :: "client_end \<Rightarrow> bool" where
  "leaves e = (e = Killed \<or> (\<exists>n. e = Exits n))"

definition session_run :: "env \<Rightarrow> string \<Rightarrow> int \<Rightarrow> string list \<Rightarrow> session \<Rightarrow> client_end \<Rightarrow> session \<Rightarrow> bool" where
  "session_run env dir me ls w e w' =
     (\<exists>n ms rest final. n \<le> length ls \<and>
        server_of w' = server_run env dir (map (\<lambda>l. Command me (chomp l)) (take n ls)) (server_of w) \<and>
        outcomes (server_of w') = outcomes (server_of w) @ map (Pair me) (map Reply ms @ rest) \<and>
        closing rest e final \<and> printed w' = printed w @ replies ms @ final \<and>
        length (map Reply ms @ rest) = n \<and>
        (e = Exits 1 \<longrightarrow> n = length ls \<or> (\<exists>m. rest = [LastReply m])) \<and>
        fifos w' = (if leaves e then fifos (unlink_fifos me w) else fifos w))"

lemma session_runI:
  assumes "server_of w' = server_run env dir (map (\<lambda>l. Command me (chomp l)) (take n ls)) (server_of w)"
    and "outcomes (server_of w') = outcomes (server_of w) @ map (Pair me) (map Reply ms @ rest)"
    and "closing rest e final" and "printed w' = printed w @ replies ms @ final"
    and "length ms + length rest = n" and "n \<le> length ls"
    and "e = Exits 1 \<Longrightarrow> n = length ls \<or> (\<exists>m. rest = [LastReply m])"
    and "fifos w' = (if leaves e then fifos (unlink_fifos me w) else fifos w)"
  shows "session_run env dir me ls w e w'"
  unfolding session_run_def using assms by (intro exI [of _ n] exI [of _ ms] exI [of _ rest] exI [of _ final]) auto

lemma emit_simps [simp]:
  "server_of (emit t w) = server_of w" "fifos (emit t w) = fifos w" "printed (emit t w) = printed w @ [t]"
  "server_of (unlink_fifos me w) = server_of w" "printed (unlink_fifos me w) = printed w"
  "fifos (unlink_fifos me (emit t w)) = fifos (unlink_fifos me w)"
  "fifos (unlink_fifos me (w\<lparr>server_of := sv\<rparr>)) = fifos (unlink_fifos me w)"
  by (simp_all add: emit_def unlink_fifos_def)

lemma unlink_cong: "fifos v = fifos w \<Longrightarrow> fifos (unlink_fifos me v) = fifos (unlink_fifos me w)"
  by (simp add: unlink_fifos_def)

lemmas leave_simps = sigint_handler_def leaves_def

text \<open>A session goes on after an ordinary answer.\<close>

lemma session_run_Cons:
  assumes "session_run env dir me ls v e w'" and "server_of v = client_command env dir me (chomp line) (server_of w)"
    and "outcomes (server_of v) = outcomes (server_of w) @ [(me, Reply m)]"
    and "printed v = printed w @ [prompt, m @ nl]" and "fifos v = fifos w"
  shows "session_run env dir me (line # ls) w e w'"
proof -
  obtain n ms rest final where
    "n \<le> length ls" "server_of w' = server_run env dir (map (\<lambda>l. Command me (chomp l)) (take n ls)) (server_of v)"
    "outcomes (server_of w') = outcomes (server_of v) @ map (Pair me) (map Reply ms @ rest)"
    "closing rest e final" "printed w' = printed v @ replies ms @ final" "length (map Reply ms @ rest) = n"
    "e = Exits 1 \<longrightarrow> n = length ls \<or> (\<exists>m. rest = [LastReply m])"
    "fifos w' = (if leaves e then fifos (unlink_fifos me v) else fifos v)"
    using assms(1) unfolding session_run_def by blast
  then show ?thesis
    using assms(2-5) unlink_cong [OF assms(5)]
    by (intro session_runI [of _ _ _ _ "Suc n" _ _ "m # ms" rest _ final]) (auto simp: server_run_def)
qed

lemma client_loop_done:
  assumes "children (server_of w) me = Some c" and "done_flag c"
  shows "client_loop env dir me ls w =
    (if ls = [] then (Exits 1, unlink_fifos me (emit input_error (emit prompt w))) else (Hangs, emit prompt w))"
  using assms by (cases ls) (simp_all add: Let_def)

lemma client_loop_run:
  assumes "children (server_of w) me = Some c" and "\<not> done_flag c" and "client_loop env dir me ls w = (e, w')"
  shows "session_run env dir me ls w e w'"
  using assms
proof (induction ls arbitrary: w c)
  case Nil
  then show ?case
    by (intro session_runI [of _ _ _ _ 0 _ _ "[]" "[]"]) (auto simp: leave_simps server_run_def intro: closing.intros)
next
  case (Cons line ls)
  let ?s = "server_of w"
  let ?s' = "client_command env dir me (chomp line) ?s"
  obtain r c' where step: "outcomes ?s' = outcomes ?s @ [(me, r)]" "children ?s' me = Some c'"
      "\<forall>m. r = Reply m \<longrightarrow> \<not> done_flag c'" "\<forall>m. r = LastReply m \<longrightarrow> done_flag c'"
    using client_command_step [OF Cons.prems(1,2)] by blast
  have run: "server_run env dir [Command me (chomp line)] ?s = ?s'" by (simp add: server_run_def)
  let ?w = "(emit prompt w)\<lparr>server_of := ?s'\<rparr>"
  have loop: "client_loop env dir me (line # ls) w =
      (if me \<in> set (drop (length (signalled ?s)) (signalled ?s')) then sigint_handler me ?w
       else (case r of
          Undefined \<Rightarrow> (Crashes, ?w) | NoReply \<Rightarrow> (Hangs, ?w)
        | Reply m \<Rightarrow> if m = goodbye then (Exits 0, unlink_fifos me (emit (m @ nl) ?w)) else client_loop env dir me ls (emit (m @ nl) ?w)
        | LastReply m \<Rightarrow> if m = goodbye then (Exits 0, unlink_fifos me (emit (m @ nl) ?w)) else client_loop env dir me ls (emit (m @ nl) ?w)))"
    using Cons.prems(1,2) step(1) by (simp add: Let_def)
  have stop: "session_run env dir me (line # ls) w e w'"
    if "closing [r] e final" "server_of w' = ?s'" "printed w' = printed w @ final"
      "fifos w' = (if leaves e then fifos (unlink_fifos me w) else fifos w)" "e = Exits 1 \<longrightarrow> (\<exists>m. r = LastReply m)"
    for final
    using that step(1) run by (intro session_runI [of _ _ _ _ 1 _ _ "[]" "[r]" _ final]) auto
  show ?case
  proof (cases "me \<in> set (drop (length (signalled ?s)) (signalled ?s'))")
    case True
    with loop Cons.prems(3) show ?thesis
      by (intro stop [of "[prompt]"]) (auto simp: leave_simps intro: closing.intros)
  next
    case on: False
    show ?thesis
    proof (cases r)
      case (Reply m)
      show ?thesis
      proof (cases "m = goodbye")
        case True
        with loop on Reply Cons.prems(3) show ?thesis
          by (intro stop [of "[prompt, goodbye @ nl]"])
            (auto simp: leave_simps intro: closing.intros)
      next
        case False
        with loop on Reply Cons.prems(3) have "client_loop env dir me ls (emit (m @ nl) ?w) = (e, w')" by simp
        with Cons.IH [of "emit (m @ nl) ?w" c'] step(2,3) Reply
        have "session_run env dir me ls (emit (m @ nl) ?w) e w'" by simp
        then show ?thesis by (rule session_run_Cons [where m = m]) (simp_all add: step(1) Reply)
      qed
    next
      case (LastReply m)
      show ?thesis
      proof (cases "m = goodbye")
        case True
        with loop on LastReply Cons.prems(3) show ?thesis
          by (intro stop [of "[prompt, goodbye @ nl]"])
            (auto simp: leave_simps intro: closing.intros)
      next
        case False
        with loop on LastReply Cons.prems(3) have "client_loop env dir me ls (emit (m @ nl) ?w) = (e, w')" by simp
        then have ends: "(if ls = [] then (Exits 1, unlink_fifos me (emit input_error (emit prompt (emit (m @ nl) ?w))))
            else (Hangs, emit prompt (emit (m @ nl) ?w))) = (e, w')"
          using client_loop_done [of "emit (m @ nl) ?w" me c' env dir ls] step(2,4) LastReply by simp
        then show ?thesis
        proof (cases "ls = []")
          case True
          with ends LastReply show ?thesis
            by (intro stop [of "[prompt, m @ nl, prompt, input_error]"]) (auto simp: leave_simps intro: closing.intros)
        next
          case False
          with ends LastReply show ?thesis
            by (intro stop [of "[prompt, m @ nl, prompt]"]) (auto simp: leave_simps intro: closing.intros)
        qed
      qed
    next
      case NoReply
      with loop on Cons.prems(3) show ?thesis
        by (intro stop [of "[prompt]"]) (auto simp: leave_simps intro: closing.intros)
    next
      case Undefined
      with loop on Cons.prems(3) show ?thesis
        by (intro stop [of "[prompt]"]) (auto simp: leave_simps intro: closing.intros)
    qed
  qed
qed

subsection \<open>Properties\<close>

text \<open>C19. A connected client refines the server: in a session over the input \<open>ls\<close> the server runs exactly the
  first \<open>n\<close> lines as commands of this client, once each and in order, the client prints their replies
  in order, and the session ends in one of the ways of \<open>closing\<close>; the two FIFOs of the client are
  removed exactly when it ends.
\<close>

theorem client_session:
  assumes "children (server_of w) me = Some c" and "\<not> done_flag c"
  shows "case client_loop env dir me ls w of (e, w') \<Rightarrow> session_run env dir me ls w e w'"
  using client_loop_run [OF assms, of env dir ls] by (simp add: case_prod_beta)

definition one_client :: session where
  "one_client =
     \<lparr>server_of = connection_request \<lparr>command = ''connect'', cl_pid = 77\<rparr> 11
        (the (server_init 10 1 (\<lambda>_. None))),
      fifos = [server_fifo 10, req_fifo 77, res_fifo 77], printed = []\<rparr>"

theorem client_session_witness:
  "case client_loop plain_env ''srv'' 77 [''help'' @ nl, ''quit'' @ nl, ''list'' @ nl] one_client of
     (e, w') \<Rightarrow> session_run plain_env ''srv'' 77 [''help'' @ nl, ''quit'' @ nl, ''list'' @ nl] one_client e w'"
proof -
  obtain c where "children (server_of one_client) 77 = Some c" "\<not> done_flag c"
    by (simp add: one_client_def connection_request_def server_init_def Let_def)
  then show ?thesis by (rule client_session)
qed

text \<open>The child leaves its loop at \<open>quit\<close> without an answer: the client waits for it for ever.\<close>

theorem quit_hangs:
  assumes "children (server_of w) me = Some c" and "\<not> done_flag c"
    and "fst (c_strtok '' '' (chomp line)) = Some ''quit''"
  shows "fst (client_loop env dir me (line # ls) w) = Hangs"
proof -
  obtain args where "c_strtok '' '' (chomp line) = (Some ''quit'', args)" using assms(3) by (metis prod.collapse)
  then have "handle_request env dir (chomp line) c (files_on (server_of w)) = (NoReply, c\<lparr>done_flag := True\<rparr>, files_on (server_of w))"
    using is_word_eq [OF nul_free_names(2) nul_free_names(1)] is_word_eq [OF nul_free_names(2) nul_free_names(2)]
    by (simp add: handle_request_def)
  then show ?thesis
    using assms(1,2) by (simp add: client_command_def Let_def)
qed

text \<open>A client that asks to wait while the server is full prints that it waits, and ends.\<close>

theorem connect_does_not_wait:
  assumes "server_fifo (server_pid (server_of w)) \<in> set (fifos w)" and "unlinked (server_of w) = []"
    and "running (server_of w)" and "c_atoi pid_text = server_pid (server_of w)"
    and "max_client_count (server_of w) \<le> active_clients (main_globals (server_of w))"
  shows "fst (client_main env dir [prog, ''connect'', pid_text] me child stdin w) = Exits 0"
  using assms is_word_eq [of "''connect''" "''connect''"]
  by (simp add: client_main_def connection_request_def Let_def)

end
