(* ===== verification/Ipc.thy ===== *)
theory Ipc
  imports C_Library Transition_Systems
begin

text \<open>
  Interprocess communication (sys02): a parent that sends an array of random numbers to two
  children through two FIFOs. The first child adds the numbers up and passes the sum on through
  the second FIFO; the second child multiplies them and prints product plus sum. Nothing but
  \<open>sleep\<close> orders the two children, so the model has a clock that counts seconds.

  An \<open>int\<close> is a 32-bit word and travels as four bytes. A process whose next action is an \<open>open\<close>
  counts as waiting in it. A \<open>write\<close> happens at once when the data fits what is left of the 65536
  bytes of a FIFO, and waits otherwise; the partial writes that larger arrays cause are not
  represented. The random numbers and what local variables hold before they are assigned are
  parameters, and system calls do not fail.
\<close>

unbundle bit_operations_syntax

subsection \<open>Data on the way\<close>

definition int_bytes :: "u32 \<Rightarrow> bytes" where
  "int_bytes w = map (\<lambda>i. ucast (drop_bit (8 * i) w)) [0..<4]"

definition bytes_int :: "bytes \<Rightarrow> u32" where
  "bytes_int bs = foldr (\<lambda>b r. push_bit 8 r OR ucast b) (take 4 bs) 0"

definition array_bytes :: "u32 list \<Rightarrow> bytes" where
  "array_bytes xs = concat (map int_bytes xs)"

fun bytes_array :: "nat \<Rightarrow> bytes \<Rightarrow> u32 list" where
  "bytes_array 0 bs = []"
| "bytes_array (Suc n) bs = bytes_int bs # bytes_array n (drop 4 bs)"

definition request_text :: bytes where
  "request_text = map of_char ''multiply''"

definition message :: bytes where
  "message = request_text @ [0]"

definition fifo_size :: nat where "fifo_size = 65536"

text \<open>\<open>read\<close> into a buffer: the bytes that are there, at most \<open>n\<close>, over what the buffer held.\<close>

definition read_fifo :: "nat \<Rightarrow> bytes \<Rightarrow> bytes \<Rightarrow> bytes \<times> bytes" where
  "read_fifo n q buf = (take n q @ drop (length (take n q)) buf, drop n q)"

subsection \<open>State\<close>

datatype parent_pc = POpen1 | POpen2 | PWrite1 | PWrite2 | PMessage | PClose
  | parent_sleeps: PSleep nat | PCheck | parent_done: PDone nat

datatype child1_pc = AOpen | child1_sleeps: ASleep nat | ARead | AOpen2 | AWrite | AExit

datatype child2_pc = BOpen | child2_sleeps: BSleep nat | BReadArray | BReadString | child2_sleeps_again: BSleep2 nat | BReadSum | BExit

record ipc =
  now :: nat
  fifo1 :: bytes
  fifo2 :: bytes
  parent :: parent_pc
  child1 :: child1_pc
  child2 :: child2_pc
  sum :: u32
  received_array :: "u32 list"
  mult :: u32
  child_counter :: nat
  unreaped :: nat
  printed :: "u32 list"

text \<open>What the four buffers of the children hold before they are read into.\<close>

record junk =
  junk_data :: bytes
  junk_array :: bytes
  junk_string :: bytes
  junk_sum :: bytes

subsection \<open>The parent\<close>

text \<open>Who has a FIFO open for writing, or is about to.\<close>

definition parent_holds1 :: "ipc \<Rightarrow> bool" where
  "parent_holds1 s = (parent s \<in> {POpen1, POpen2, PWrite1, PWrite2, PMessage, PClose})"

definition parent_holds2 :: "ipc \<Rightarrow> bool" where
  "parent_holds2 s = (parent s \<in> {POpen2, PWrite1, PWrite2, PMessage, PClose})"

text \<open>A \<open>write\<close> that nobody can read any more kills the writer; the status is what a shell reports.\<close>

definition sigpipe :: nat where "sigpipe = 141"

definition parent_fifo :: "u32 list \<Rightarrow> ipc \<Rightarrow> ipc option" where
  "parent_fifo rand_arr s =
     (case parent s of
        POpen1 \<Rightarrow> (if child1 s \<in> {AOpen, ARead} \<or> child1_sleeps (child1 s) then Some (s\<lparr>parent := POpen2\<rparr>) else None)
      | POpen2 \<Rightarrow> (if child2 s \<noteq> BExit then Some (s\<lparr>parent := PWrite1\<rparr>) else None)
      | PWrite1 \<Rightarrow>
          (if child1 s \<in> {AOpen2, AWrite, AExit} then Some (s\<lparr>parent := PDone sigpipe\<rparr>)
           else if length (fifo1 s) + length (array_bytes rand_arr) \<le> fifo_size
           then Some (s\<lparr>fifo1 := fifo1 s @ array_bytes rand_arr, parent := PWrite2\<rparr>) else None)
      | PWrite2 \<Rightarrow>
          (if child2 s = BExit then Some (s\<lparr>parent := PDone sigpipe\<rparr>)
           else if length (fifo2 s) + length (array_bytes rand_arr) \<le> fifo_size
           then Some (s\<lparr>fifo2 := fifo2 s @ array_bytes rand_arr, parent := PMessage\<rparr>) else None)
      | PMessage \<Rightarrow>
          (if child2 s = BExit then Some (s\<lparr>parent := PDone sigpipe\<rparr>)
           else if length (fifo2 s) + length message \<le> fifo_size
           then Some (s\<lparr>fifo2 := fifo2 s @ message, parent := PClose\<rparr>) else None)
      | PClose \<Rightarrow> Some (s\<lparr>parent := PSleep (now s + 2)\<rparr>)
      | PSleep t \<Rightarrow> (if t \<le> now s then Some (s\<lparr>parent := PCheck\<rparr>) else None)
      | PCheck \<Rightarrow>
          Some (if child_counter s = 2 then s\<lparr>parent := PDone 0\<rparr>
                else if 2 < child_counter s then s\<lparr>parent := PDone 1\<rparr>
                else s\<lparr>parent := PSleep (now s + 2)\<rparr>)
      | PDone c \<Rightarrow> None)"

text \<open>The handler reaps every child that has exited; a \<open>sleep\<close> that it interrupts returns.\<close>

definition sigchld_handler :: "ipc \<Rightarrow> ipc option" where
  "sigchld_handler s =
     (if unreaped s = 0 \<or> parent_done (parent s) then None
      else Some (s\<lparr>child_counter := child_counter s + unreaped s, unreaped := 0,
                   parent := (case parent s of PSleep t \<Rightarrow> PCheck | pc \<Rightarrow> pc)\<rparr>))"

subsection \<open>The children\<close>

definition child1_fifo :: "junk \<Rightarrow> nat \<Rightarrow> ipc \<Rightarrow> ipc option" where
  "child1_fifo j array_size s =
     (case child1 s of
        AOpen \<Rightarrow> Some (s\<lparr>child1 := ASleep (now s + 10)\<rparr>)
      | ASleep t \<Rightarrow> (if t \<le> now s then Some (s\<lparr>child1 := ARead\<rparr>) else None)
      | ARead \<Rightarrow>
          (if fifo1 s = [] \<and> parent_holds1 s then None
           else (let (buf, q) = read_fifo (4 * array_size) (fifo1 s) (junk_data j) in
             Some (s\<lparr>fifo1 := q, sum := fold (\<lambda>x r. r + x) (bytes_array array_size buf) 0, child1 := AOpen2\<rparr>)))
      | AOpen2 \<Rightarrow> (if child2 s \<noteq> BExit then Some (s\<lparr>child1 := AWrite\<rparr>) else None)
      | AWrite \<Rightarrow>
          (if child2 s = BExit then Some (s\<lparr>child1 := AExit, unreaped := unreaped s + 1\<rparr>)
           else if length (fifo2 s) + 4 \<le> fifo_size
           then Some (s\<lparr>fifo2 := fifo2 s @ int_bytes (sum s), child1 := AExit, unreaped := unreaped s + 1\<rparr>)
           else None)
      | AExit \<Rightarrow> None)"

text \<open>\<open>read\<close> waits while the FIFO is empty and somebody may still write, and then gives no data.\<close>

definition fifo2_waits :: "ipc \<Rightarrow> bool" where
  "fifo2_waits s = (fifo2 s = [] \<and> (parent_holds2 s \<or> child1 s \<in> {AOpen2, AWrite}))"

definition child2_fifo :: "junk \<Rightarrow> nat \<Rightarrow> ipc \<Rightarrow> ipc option" where
  "child2_fifo j array_size s =
     (case child2 s of
        BOpen \<Rightarrow>
          (if parent s = POpen1 \<and> child1 s \<notin> {AOpen2, AWrite} then None
           else Some (s\<lparr>child2 := BSleep (now s + 10)\<rparr>))
      | BSleep t \<Rightarrow> (if t \<le> now s then Some (s\<lparr>child2 := BReadArray\<rparr>) else None)
      | BReadArray \<Rightarrow>
          (if fifo2_waits s then None
           else (let (buf, q) = read_fifo (4 * array_size) (fifo2 s) (junk_array j) in
             Some (s\<lparr>fifo2 := q, received_array := bytes_array array_size buf, child2 := BReadString\<rparr>)))
      | BReadString \<Rightarrow>
          (if fifo2_waits s then None
           else (let (buf, q) = read_fifo 9 (fifo2 s) (junk_string j) in
             Some (s\<lparr>fifo2 := q,
                     mult := (if takeWhile (\<lambda>b. b \<noteq> 0) buf = request_text
                              then fold (\<lambda>x r. r * x) (received_array s) 1 else 1),
                     child2 := BSleep2 (now s + 2)\<rparr>)))
      | BSleep2 t \<Rightarrow> (if t \<le> now s then Some (s\<lparr>child2 := BReadSum\<rparr>) else None)
      | BReadSum \<Rightarrow>
          (if fifo2_waits s then None
           else (let (buf, q) = read_fifo 4 (fifo2 s) (junk_sum j) in
             Some (s\<lparr>fifo2 := q, printed := printed s @ [mult s + bytes_int buf], child2 := BExit,
                     unreaped := unreaped s + 1\<rparr>)))
      | BExit \<Rightarrow> None)"

subsection \<open>The system\<close>

definition ipc_moves :: "junk \<Rightarrow> u32 list \<Rightarrow> ipc \<Rightarrow> ipc list" where
  "ipc_moves j rand_arr s =
     List.map_filter (\<lambda>move. move s)
       [parent_fifo rand_arr, sigchld_handler, child1_fifo j (length rand_arr), child2_fifo j (length rand_arr)]"

definition tick :: "ipc \<Rightarrow> ipc" where "tick s = s\<lparr>now := now s + 1\<rparr>"

definition sleeping :: "ipc \<Rightarrow> bool" where
  "sleeping s =
     (parent_sleeps (parent s) \<or> child1_sleeps (child1 s) \<or>
      child2_sleeps (child2 s) \<or> child2_sleeps_again (child2 s))"

text \<open>
  Time may pass while a process sleeps. On a machine that is not overloaded every process that can
  move does so before the next second: then the clock advances only when none can.
\<close>

inductive any_step :: "junk \<Rightarrow> u32 list \<Rightarrow> ipc \<Rightarrow> ipc \<Rightarrow> bool" for j rand_arr where
  any_move: "t \<in> set (ipc_moves j rand_arr s) \<Longrightarrow> any_step j rand_arr s t"
| any_tick: "sleeping s \<Longrightarrow> any_step j rand_arr s (tick s)"

inductive prompt_step :: "junk \<Rightarrow> u32 list \<Rightarrow> ipc \<Rightarrow> ipc \<Rightarrow> bool" for j rand_arr where
  prompt_move: "t \<in> set (ipc_moves j rand_arr s) \<Longrightarrow> prompt_step j rand_arr s t"
| prompt_tick: "sleeping s \<Longrightarrow> ipc_moves j rand_arr s = [] \<Longrightarrow> prompt_step j rand_arr s (tick s)"

definition ipc_init :: ipc where
  "ipc_init =
     \<lparr>now = 0, fifo1 = [], fifo2 = [], parent = POpen1, child1 = AOpen, child2 = BOpen, sum = 0,
      received_array = [], mult = 1, child_counter = 0, unreaped = 0, printed = []\<rparr>"

text \<open>\<open>main\<close>: the exit status of a wrong call, or the array the parent works with.\<close>

definition ipc_main :: "(nat \<Rightarrow> nat) \<Rightarrow> string list \<Rightarrow> nat + u32 list" where
  "ipc_main rand argv =
     (if length argv \<noteq> 2 then Inl 1
      else (let array_size = c_atoi (argv ! 1) in
            if array_size \<le> 0 then Inl 1
            else Inr (map (\<lambda>i. of_nat (rand i mod 100)) [0..<nat array_size])))"

end
