(* ===== verification/Ipc_Properties.thy ===== *)
theory Ipc_Properties
  imports Ipc
begin

text \<open>
  The result of the interprocess communication: when every process moves promptly the program ends
  with the product plus the sum of the array, and without that assumption it need not.
\<close>

subsection \<open>Bytes\<close>

lemma length_int_bytes [simp]: "length (int_bytes w) = 4"
  by (simp add: int_bytes_def)

lemma bytes_int_bytes [simp]: "bytes_int (int_bytes w @ bs) = w"
proof -
  have "[0..<4] = [0, 1, 2, 3 :: nat]" by code_simp
  moreover have "n - 8 < 8" if "bit w n" "\<not> bit w (16 + (n - 16))" for n
    using that by (cases "16 \<le> n") auto
  ultimately show ?thesis
    unfolding bytes_int_def int_bytes_def
    by (intro bit_word_eqI) (auto simp: bit_simps)
qed

lemma length_array_bytes [simp]: "length (array_bytes xs) = 4 * length xs"
  by (induction xs) (simp_all add: array_bytes_def)

lemma bytes_array_bytes [simp]: "bytes_array (length xs) (array_bytes xs @ bs) = xs"
  by (induction xs) (simp_all add: array_bytes_def)

lemma read_fifo_exact: "length q = n \<Longrightarrow> read_fifo n (q @ r) buf = (q @ drop n buf, r)"
  by (simp add: read_fifo_def)


declare parent_sleeps_def [simp] parent_done_def [simp] child1_sleeps_def [simp] child2_sleeps_def [simp]
  child2_sleeps_again_def [simp]

subsection \<open>The invariant of prompt runs\<close>

fun pstage :: "parent_pc \<Rightarrow> nat" where
  "pstage POpen1 = 0" | "pstage POpen2 = 1" | "pstage PWrite1 = 2" | "pstage PWrite2 = 3"
| "pstage PMessage = 4" | "pstage PClose = 5" | "pstage (PSleep t) = 6" | "pstage PCheck = 6"
| "pstage (PDone c) = 6"

fun astage :: "child1_pc \<Rightarrow> nat" where
  "astage AOpen = 0" | "astage (ASleep t) = 1" | "astage ARead = 2" | "astage AOpen2 = 3"
| "astage AWrite = 4" | "astage AExit = 5"

fun bstage :: "child2_pc \<Rightarrow> nat" where
  "bstage BOpen = 0" | "bstage (BSleep t) = 1" | "bstage BReadArray = 2" | "bstage BReadString = 3"
| "bstage (BSleep2 t) = 4" | "bstage BReadSum = 5" | "bstage BExit = 6"

definition total_sum :: "u32 list \<Rightarrow> u32" where
  "total_sum xs = fold (\<lambda>x r. r + x) xs 0"

definition product :: "u32 list \<Rightarrow> u32" where
  "product xs = fold (\<lambda>x r. r * x) xs 1"

text \<open>What is in the FIFOs, by how far the processes have come.\<close>

definition data_inv :: "u32 list \<Rightarrow> ipc \<Rightarrow> bool" where
  "data_inv xs s =
     (fifo1 s = (if 3 \<le> pstage (parent s) \<and> astage (child1 s) \<le> 2 then array_bytes xs else []) \<and>
      fifo2 s = (if 4 \<le> pstage (parent s) \<and> bstage (child2 s) \<le> 2 then array_bytes xs else []) @
                (if 5 \<le> pstage (parent s) \<and> bstage (child2 s) \<le> 3 then message else []) @
                (if astage (child1 s) = 5 \<and> bstage (child2 s) \<le> 5 then int_bytes (total_sum xs) else []) \<and>
      (3 \<le> astage (child1 s) \<longrightarrow> sum s = total_sum xs) \<and>
      (3 \<le> bstage (child2 s) \<longrightarrow> received_array s = xs) \<and>
      (4 \<le> bstage (child2 s) \<longrightarrow> mult s = product xs) \<and>
      printed s = (if bstage (child2 s) = 6 then [product xs + total_sum xs] else []))"

text \<open>When everything happens.\<close>

definition time_inv :: "ipc \<Rightarrow> bool" where
  "time_inv s =
     ((pstage (parent s) < 6 \<longrightarrow> now s = 0) \<and> (astage (child1 s) = 0 \<longrightarrow> now s = 0) \<and>
      (bstage (child2 s) = 0 \<longrightarrow> now s = 0) \<and>
      (\<forall>t. child1 s = ASleep t \<longrightarrow> t = 10) \<and> (\<forall>t. child2 s = BSleep t \<longrightarrow> t = 10) \<and>
      (\<forall>t. child2 s = BSleep2 t \<longrightarrow> t = 12) \<and>
      (astage (child1 s) < 5 \<longrightarrow> now s \<le> 10) \<and> (2 \<le> astage (child1 s) \<longrightarrow> 10 \<le> now s) \<and>
      (bstage (child2 s) < 4 \<longrightarrow> now s \<le> 10) \<and> (2 \<le> bstage (child2 s) \<longrightarrow> 10 \<le> now s) \<and>
      (5 \<le> bstage (child2 s) \<longrightarrow> 12 \<le> now s) \<and> now s \<le> 12)"

definition exits :: "ipc \<Rightarrow> nat" where
  "exits s = (if child1 s = AExit then 1 else 0) + (if child2 s = BExit then 1 else 0)"

definition reaping_inv :: "ipc \<Rightarrow> bool" where
  "reaping_inv s =
     (child_counter s + unreaped s = exits s \<and>
      (\<forall>t. parent s = PSleep t \<longrightarrow> child_counter s < 2) \<and>
      (\<forall>c. parent s = PDone c \<longrightarrow> c = 0 \<and> child_counter s = 2))"

definition prompt_inv :: "u32 list \<Rightarrow> ipc \<Rightarrow> bool" where
  "prompt_inv xs s = (data_inv xs s \<and> time_inv s \<and> reaping_inv s)"

definition fits :: "u32 list \<Rightarrow> bool" where
  "fits xs = (xs \<noteq> [] \<and> 4 * length xs + 13 \<le> fifo_size)"

lemma length_message [simp]: "length message = 9"
  by (simp add: message_def request_text_def)

lemma message_text: "takeWhile (\<lambda>b. b \<noteq> 0) (message @ r) = request_text"
proof -
  have "\<forall>b \<in> set request_text. b \<noteq> 0" unfolding request_text_def by code_simp
  then show ?thesis by (simp add: message_def takeWhile_append2)
qed

lemma stage_eqs:
  "astage c = 5 \<longleftrightarrow> c = AExit" "bstage d = 6 \<longleftrightarrow> d = BExit"
  by (cases c; simp) (cases d; simp)

lemma init_inv: "prompt_inv xs ipc_init"
  by (simp add: prompt_inv_def data_inv_def time_inv_def reaping_inv_def exits_def ipc_init_def)

lemmas ipc_invs = prompt_inv_def data_inv_def time_inv_def reaping_inv_def exits_def

lemma early:
  assumes "time_inv s" and "pstage (parent s) < 6"
  shows "now s = 0" "child1 s = AOpen \<or> child1 s = ASleep 10" "child2 s = BOpen \<or> child2 s = BSleep 10"
proof -
  show now: "now s = 0" using assms by (simp add: time_inv_def)
  have "\<not> 2 \<le> astage (child1 s)" and "\<not> 2 \<le> bstage (child2 s)"
    using assms now by (auto simp: time_inv_def)
  then show "child1 s = AOpen \<or> child1 s = ASleep 10" and "child2 s = BOpen \<or> child2 s = BSleep 10"
    using assms by (cases "child1 s"; auto simp: time_inv_def; fail) (cases "child2 s"; use assms in \<open>auto simp: time_inv_def\<close>)
qed

lemma early_stages:
  assumes "time_inv s" and "pstage (parent s) < 6"
  shows "now s = 0" "astage (child1 s) \<le> 2" "\<not> 3 \<le> astage (child1 s)" "astage (child1 s) \<noteq> 5"
    "bstage (child2 s) \<le> 2" "bstage (child2 s) \<le> 3" "bstage (child2 s) \<le> 5"
    "child1 s \<notin> {AOpen2, AWrite, AExit}" "child2 s \<noteq> BExit"
    "child1 s = AOpen \<or> child1 s = ARead \<or> (\<exists>t. child1 s = ASleep t)" "exits s = 0"
  using early [OF assms] by (auto simp: exits_def)

lemma stage_bounds: "pstage p \<le> 6" "astage a \<le> 5" "bstage b \<le> 6"
  proof -
  show "pstage p \<le> 6" by (cases p) simp_all
  show "astage a \<le> 5" by (cases a) simp_all
  show "bstage b \<le> 6" by (cases b) simp_all
qed

lemma late_stages:
  assumes "time_inv s" and "2 \<le> astage (child1 s) \<or> 2 \<le> bstage (child2 s)"
  shows "pstage (parent s) = 6" "\<not> parent_holds1 s" "\<not> parent_holds2 s" "10 \<le> now s"
proof -
  show now: "10 \<le> now s" using assms by (auto simp: time_inv_def)
  then have "\<not> pstage (parent s) < 6" using assms by (auto simp: time_inv_def)
  then show "pstage (parent s) = 6" using stage_bounds(1) [of "parent s"] by simp
  then show "\<not> parent_holds1 s" "\<not> parent_holds2 s"
    by (auto simp: parent_holds1_def parent_holds2_def)
qed

subsection \<open>Every move keeps the invariant\<close>

lemma parent_time:
  assumes "time_inv s" and t: "parent_fifo xs s = Some t"
  shows "time_inv t"
proof -
  have "pstage (parent s) < 6 \<or> pstage (parent t) = 6"
    using t by (cases "parent s") (auto simp: parent_fifo_def split: if_splits)
  moreover have "now t = now s" "child1 t = child1 s" "child2 t = child2 s"
    using t by (cases "parent s"; auto simp: parent_fifo_def split: if_splits)+
  ultimately show ?thesis using assms(1) by (auto simp: time_inv_def)
qed

lemma parent_data:
  assumes "data_inv xs s" "time_inv s" "fits xs" and t: "parent_fifo xs s = Some t"
  shows "data_inv xs t"
proof (cases "pstage (parent s) < 6")
  case True
  have "\<forall>t. parent_fifo xs s = Some t \<longrightarrow> data_inv xs t"
    using assms(1,3) early_stages [OF assms(2) True] True
    by (cases "parent s") (simp_all add: parent_fifo_def data_inv_def fits_def split del: if_split)
  then show ?thesis using t by blast
next
  case False
  then have "pstage (parent t) = pstage (parent s)" "fifo1 t = fifo1 s" "fifo2 t = fifo2 s"
    "child1 t = child1 s" "child2 t = child2 s" "sum t = sum s" "received_array t = received_array s"
    "mult t = mult s" "printed t = printed s"
    using t by (cases "parent s"; auto simp: parent_fifo_def split: if_splits)+
  then show ?thesis using assms(1) by (simp add: data_inv_def)
qed

lemma parent_reaping:
  assumes "reaping_inv s" "time_inv s" and t: "parent_fifo xs s = Some t"
  shows "reaping_inv t"
proof -
  have count: "child_counter s + unreaped s = exits s" using assms(1) by (simp add: reaping_inv_def)
  moreover have "exits s \<le> 2" by (simp add: exits_def)
  ultimately have most: "child_counter s \<le> 2" by simp
  have same: "child1 t = child1 s" "child2 t = child2 s" "child_counter t = child_counter s" "unreaped t = unreaped s"
    using t by (cases "parent s"; auto simp: parent_fifo_def split: if_splits)+
  have "(\<forall>u. parent t = PSleep u \<longrightarrow> child_counter s < 2) \<and>
        (\<forall>c. parent t = PDone c \<longrightarrow> c = 0 \<and> child_counter s = 2)"
  proof (cases "pstage (parent s) < 6")
    case True
    then show ?thesis using t count early_stages [OF assms(2) True]
      by (cases "parent s") (auto simp: parent_fifo_def split: if_splits)
  next
    case False
    then show ?thesis using t most
      by (cases "parent s") (auto simp: parent_fifo_def split: if_splits)
  qed
  then show ?thesis using same count by (simp add: reaping_inv_def exits_def)
qed

lemma handler_inv:
  assumes "prompt_inv xs s" and t: "sigchld_handler s = Some t"
  shows "prompt_inv xs t"
proof -
  have "pstage (parent t) = pstage (parent s)" "fifo1 t = fifo1 s" "fifo2 t = fifo2 s" "now t = now s"
    "child1 t = child1 s" "child2 t = child2 s" "sum t = sum s" "received_array t = received_array s"
    "mult t = mult s" "printed t = printed s" "child_counter t = child_counter s + unreaped s" "unreaped t = 0"
    "\<forall>u. parent t \<noteq> PSleep u" "\<forall>c. parent t \<noteq> PDone c"
    using t by (cases "parent s"; auto simp: sigchld_handler_def split: if_splits)+
  then show ?thesis using assms(1)
    by (simp add: prompt_inv_def data_inv_def time_inv_def reaping_inv_def exits_def)
qed

lemma child1_time:
  assumes "time_inv s" and t: "child1_fifo j n s = Some t"
  shows "time_inv t"
proof -
  have "\<forall>t. child1_fifo j n s = Some t \<longrightarrow> time_inv t"
    using assms(1)
    by (cases "child1 s") (auto simp: child1_fifo_def time_inv_def Let_def case_prod_beta)
  then show ?thesis using t by blast
qed

lemma child2_time:
  assumes "time_inv s" and t: "child2_fifo j n s = Some t"
  shows "time_inv t"
proof -
  have "\<forall>t. child2_fifo j n s = Some t \<longrightarrow> time_inv t"
    using assms(1)
    by (cases "child2 s") (auto simp: child2_fifo_def time_inv_def Let_def case_prod_beta)
  then show ?thesis using t by blast
qed

lemma child1_data:
  assumes "data_inv xs s" "time_inv s" "fits xs" and t: "child1_fifo j (length xs) s = Some t"
  shows "data_inv xs t"
proof (cases "2 \<le> astage (child1 s)")
  case False
  then have "astage (child1 s) \<le> 1" "astage (child1 t) \<le> 2" "fifo1 t = fifo1 s" "fifo2 t = fifo2 s" "parent t = parent s"
    "child2 t = child2 s" "sum t = sum s" "received_array t = received_array s" "mult t = mult s" "printed t = printed s"
    using t by (cases "child1 s"; auto simp: child1_fifo_def split: if_splits)+
  then show ?thesis using assms(1) by (simp add: data_inv_def)
next
  case True
  note late = late_stages [OF assms(2) disjI1 [OF True]]
  have "bstage (child2 s) \<le> 4 \<and> child2 s \<noteq> BExit" if "astage (child1 s) < 5"
    using assms(2) that by (auto simp: time_inv_def)
  moreover have "array_bytes xs \<noteq> []"
    using assms(3) length_array_bytes [of xs] by (auto simp: fits_def simp del: length_array_bytes)
  ultimately have "\<forall>t. child1_fifo j (length xs) s = Some t \<longrightarrow> data_inv xs t"
    using assms(1,3) late True read_fifo_exact [of "array_bytes xs" "4 * length xs" "[]" "junk_data j"]
    by (cases "child1 s") (auto simp: child1_fifo_def data_inv_def fits_def total_sum_def)
  then show ?thesis using t by blast
qed


lemma child2_data:
  assumes "data_inv xs s" "time_inv s" and t: "child2_fifo j (length xs) s = Some t"
  shows "data_inv xs t"
proof (cases "2 \<le> bstage (child2 s)")
  case False
  then have "bstage (child2 s) \<le> 1" "bstage (child2 t) \<le> 2" "fifo1 t = fifo1 s" "fifo2 t = fifo2 s" "parent t = parent s"
    "child1 t = child1 s" "sum t = sum s" "received_array t = received_array s" "mult t = mult s" "printed t = printed s"
    using t by (cases "child2 s"; auto simp: child2_fifo_def split: if_splits)+
  then show ?thesis using assms(1) by (simp add: data_inv_def)
next
  case True
  note late = late_stages [OF assms(2) disjI2 [OF True]]
  have "astage (child1 s) = 5" if "5 \<le> bstage (child2 s)"
    using assms(2) that stage_bounds(2) [of "child1 s"] by (auto simp: time_inv_def)
  moreover have "read_fifo (4 * length xs) (array_bytes xs @ r) b = (array_bytes xs @ drop (4 * length xs) b, r)" for r b
    by (simp add: read_fifo_exact)
  moreover have "read_fifo 9 (message @ r) b = (message @ drop 9 b, r)" for r b
    by (simp add: read_fifo_exact)
  moreover have "read_fifo 4 (int_bytes w) b = (int_bytes w @ drop 4 b, [])" for w b
    using read_fifo_exact [of "int_bytes w" 4 "[]" b] by simp
  ultimately have "\<forall>t. child2_fifo j (length xs) s = Some t \<longrightarrow> data_inv xs t"
    using assms(1) late True
    by (cases "child2 s") (auto simp: child2_fifo_def data_inv_def product_def message_text)
  then show ?thesis using t by blast
qed

lemma children_reaping:
  assumes "reaping_inv s"
  shows "child1_fifo j n s = Some t \<Longrightarrow> reaping_inv t" "child2_fifo j n s = Some t \<Longrightarrow> reaping_inv t"
proof -
  have "\<forall>t. child1_fifo j n s = Some t \<longrightarrow> reaping_inv t"
    using assms by (cases "child1 s") (simp_all add: child1_fifo_def reaping_inv_def exits_def case_prod_beta Let_def)
  then show "child1_fifo j n s = Some t \<Longrightarrow> reaping_inv t" by blast
  have "\<forall>t. child2_fifo j n s = Some t \<longrightarrow> reaping_inv t"
    using assms by (cases "child2 s") (simp_all add: child2_fifo_def reaping_inv_def exits_def case_prod_beta Let_def)
  then show "child2_fifo j n s = Some t \<Longrightarrow> reaping_inv t" by blast
qed

lemma move_cases:
  assumes "t \<in> set (ipc_moves j xs s)"
  obtains "parent_fifo xs s = Some t" | "sigchld_handler s = Some t"
    | "child1_fifo j (length xs) s = Some t" | "child2_fifo j (length xs) s = Some t"
  using assms by (auto simp: ipc_moves_def List.map_filter_def split: if_splits)

lemma move_inv:
  assumes "prompt_inv xs s" and "fits xs" and "t \<in> set (ipc_moves j xs s)"
  shows "prompt_inv xs t"
  using assms(3)
proof (cases rule: move_cases)
  case 1
  then show ?thesis unfolding prompt_inv_def
    using assms(1,2) parent_time [OF _ 1] parent_data [OF _ _ _ 1] parent_reaping [OF _ _ 1]
    by (simp add: prompt_inv_def)
next
  case 2
  then show ?thesis using assms(1) handler_inv by blast
next
  case 3
  then show ?thesis unfolding prompt_inv_def
    using assms(1,2) child1_time [OF _ 3] child1_data [OF _ _ _ 3] children_reaping(1) [OF _ 3]
    by (simp add: prompt_inv_def)
next
  case 4
  then show ?thesis unfolding prompt_inv_def
    using assms(1,2) child2_time [OF _ 4] child2_data [OF _ _ 4] children_reaping(2) [OF _ 4]
    by (simp add: prompt_inv_def)
qed

subsection \<open>When nothing moves\<close>

lemma no_moves:
  "ipc_moves j xs s = [] \<longleftrightarrow>
     parent_fifo xs s = None \<and> sigchld_handler s = None \<and>
     child1_fifo j (length xs) s = None \<and> child2_fifo j (length xs) s = None"
  by (auto simp: ipc_moves_def List.map_filter_def)

lemma stuck_parent:
  assumes "prompt_inv xs s" and "fits xs" and "parent_fifo xs s = None"
  shows "(\<exists>t. parent s = PSleep t \<and> now s < t) \<or> (\<exists>c. parent s = PDone c)"
proof (cases "pstage (parent s) < 6")
  case True
  have "time_inv s" "data_inv xs s" using assms(1) by (auto simp: prompt_inv_def)
  then show ?thesis using early_stages [OF _ True] True assms(2,3)
    by (cases "parent s") (auto simp: parent_fifo_def data_inv_def fits_def)
next
  case False
  then show ?thesis using assms(3)
    by (cases "parent s") (auto simp: parent_fifo_def split: if_splits)
qed

lemma fifo2_bound:
  assumes "data_inv xs s" and "astage (child1 s) < 5"
  shows "length (fifo2 s) \<le> 4 * length xs + 9"
proof -
  have "length (if b then ys else []) \<le> length ys" for b and ys :: bytes by simp
  from this [of _ "array_bytes xs"] this [of _ message] show ?thesis
    using assms by (auto simp: data_inv_def intro!: add_mono)
qed

lemma stuck_children:
  assumes "prompt_inv xs s" and "fits xs" and "ipc_moves j xs s = []"
  shows "child1 s = ASleep 10 \<and> now s < 10 \<or> child1 s = AExit"
    and "child2 s = BSleep 10 \<and> now s < 10 \<or> child2 s = BSleep2 12 \<and> now s < 12 \<or> child2 s = BExit"
proof -
  have inv: "time_inv s" "data_inv xs s" using assms(1) by (auto simp: prompt_inv_def)
  have p: "parent s \<noteq> POpen1" using stuck_parent [OF assms(1,2)] assms(3) by (auto simp: no_moves)
  have c: "child1_fifo j (length xs) s = None" "child2_fifo j (length xs) s = None"
    using assms(3) by (auto simp: no_moves)
  show a: "child1 s = ASleep 10 \<and> now s < 10 \<or> child1 s = AExit"
  proof (cases "2 \<le> astage (child1 s)")
    case True
    have "child2 s \<noteq> BExit" if "astage (child1 s) < 5" using inv(1) that by (auto simp: time_inv_def)
    moreover have "length (fifo2 s) + 4 \<le> fifo_size" if "astage (child1 s) < 5"
      using fifo2_bound [OF inv(2) that] assms(2) by (simp add: fits_def)
    ultimately show ?thesis using c True late_stages [OF inv(1) disjI1 [OF True]]
      by (cases "child1 s") (simp_all add: child1_fifo_def Let_def case_prod_beta)
  next
    case False
    then show ?thesis using c inv
      by (cases "child1 s") (auto simp: child1_fifo_def time_inv_def split: if_splits)
  qed
  show "child2 s = BSleep 10 \<and> now s < 10 \<or> child2 s = BSleep2 12 \<and> now s < 12 \<or> child2 s = BExit"
  proof (cases "2 \<le> bstage (child2 s)")
    case True
    then show ?thesis using c a inv(1) late_stages [OF inv(1) disjI2 [OF True]]
      by (cases "child2 s")
        (auto simp: child2_fifo_def fifo2_waits_def time_inv_def Let_def case_prod_beta split: if_splits)
  next
    case False
    then show ?thesis using c inv(1) p
      by (cases "child2 s") (auto simp: child2_fifo_def time_inv_def split: if_splits)
  qed
qed

lemma tick_inv:
  assumes "prompt_inv xs s" and "fits xs" and "ipc_moves j xs s = []" and "sleeping s"
  shows "prompt_inv xs (tick s)" and "now s < 12"
proof -
  note st = stuck_children [OF assms(1-3)]
  have p: "(\<exists>t. parent s = PSleep t \<and> now s < t) \<or> (\<exists>c. parent s = PDone c)"
    using stuck_parent assms by (auto simp: no_moves)
  have un: "parent s = PSleep t \<Longrightarrow> unreaped s = 0" for t
    using assms(3) by (auto simp: no_moves sigchld_handler_def split: if_splits)
  have r: "reaping_inv s" and tm: "time_inv s" using assms(1) by (auto simp: prompt_inv_def)
  show now: "now s < 12"
  proof (rule ccontr)
    assume "\<not> now s < 12"
    then have e: "child1 s = AExit" "child2 s = BExit" using st by auto
    then obtain u where "parent s = PSleep u" using assms(4) p by (auto simp: sleeping_def)
    then show False using r un [of u] e by (auto simp: reaping_inv_def exits_def)
  qed
  have "pstage (parent s) = 6" using p by auto
  moreover have "astage (child1 s) = 1 \<and> now s < 10 \<or> astage (child1 s) = 5"
    using st(1) by (elim disjE conjE) simp_all
  moreover have "bstage (child2 s) = 1 \<and> now s < 10 \<or> bstage (child2 s) = 4 \<and> 10 \<le> now s \<or> bstage (child2 s) = 6 \<and> 12 \<le> now s"
    using st(2) tm by (elim disjE conjE) (simp_all add: time_inv_def)
  ultimately have "time_inv (tick s)"
    using tm now by (elim disjE conjE) (simp_all add: time_inv_def tick_def)
  moreover have "data_inv xs (tick s)" "reaping_inv (tick s)"
    using assms(1) by (auto simp: prompt_inv_def data_inv_def reaping_inv_def exits_def tick_def)
  ultimately show "prompt_inv xs (tick s)" by (simp add: prompt_inv_def)
qed

subsection \<open>Termination and the result\<close>

definition ipc_final :: "ipc \<Rightarrow> bool" where
  "ipc_final s = (\<exists>c. parent s = PDone c)"

fun parent_work :: "nat \<Rightarrow> parent_pc \<Rightarrow> nat" where
  "parent_work n (PSleep t) = (if t \<le> n then 2 else 0)"
| "parent_work n PCheck = 1"
| "parent_work n pc = 0"

definition ipc_work :: "ipc \<Rightarrow> nat" where
  "ipc_work s =
     5 * (5 - astage (child1 s)) + 5 * (6 - bstage (child2 s)) + 2 * unreaped s + 4 * (12 - now s) +
     3 * (6 - pstage (parent s)) + parent_work (now s) (parent s)"

lemma move_work:
  assumes "prompt_inv xs s" and "t \<in> set (ipc_moves j xs s)"
  shows "ipc_work t < ipc_work s"
  using assms(2)
proof (cases rule: move_cases)
  case 1
  have "\<forall>t. parent_fifo xs s = Some t \<longrightarrow> ipc_work t < ipc_work s"
    by (cases "parent s") (simp_all add: parent_fifo_def ipc_work_def)
  then show ?thesis using 1 by blast
next
  case 2
  have "\<forall>t. sigchld_handler s = Some t \<longrightarrow> ipc_work t < ipc_work s"
    by (cases "parent s") (simp_all add: sigchld_handler_def ipc_work_def)
  then show ?thesis using 2 by blast
next
  case 3
  have "\<forall>t. child1_fifo j (length xs) s = Some t \<longrightarrow> ipc_work t < ipc_work s"
    by (cases "child1 s") (simp_all add: child1_fifo_def ipc_work_def case_prod_beta Let_def)
  then show ?thesis using 3 by blast
next
  case 4
  have "\<forall>t. child2_fifo j (length xs) s = Some t \<longrightarrow> ipc_work t < ipc_work s"
    by (cases "child2 s") (simp_all add: child2_fifo_def ipc_work_def case_prod_beta Let_def)
  then show ?thesis using 4 by blast
qed

lemma tick_work:
  assumes "prompt_inv xs s" and "fits xs" and "ipc_moves j xs s = []" and "sleeping s"
  shows "ipc_work (tick s) < ipc_work s"
proof -
  have "(\<exists>t. parent s = PSleep t \<and> now s < t) \<or> (\<exists>c. parent s = PDone c)"
    using stuck_parent assms(1-3) by (auto simp: no_moves)
  then have "parent_work (Suc (now s)) (parent s) \<le> parent_work (now s) (parent s) + 2" by auto
  then show ?thesis using tick_inv(2) [OF assms] by (simp add: ipc_work_def tick_def)
qed

interpretation ipc: terminating "\<lambda>s. s = ipc_init \<and> fits xs" "prompt_step j xs"
  "\<lambda>s. prompt_inv xs s \<and> fits xs" ipc_final ipc_work for j xs
proof unfold_locales
  fix s t
  show "prompt_inv xs s \<and> fits xs" if "s = ipc_init \<and> fits xs" using that init_inv by simp
  show "prompt_inv xs t \<and> fits xs" if "prompt_inv xs s \<and> fits xs" "prompt_step j xs s t"
    using that(2,1) by cases (auto intro: move_inv tick_inv(1))
  show "ipc_work t < ipc_work s" if "prompt_inv xs s \<and> fits xs" "prompt_step j xs s t"
    using that(2,1) by cases (auto intro: move_work tick_work)
  show "\<exists>t. prompt_step j xs s t" if "prompt_inv xs s \<and> fits xs" "\<not> ipc_final s"
  proof (cases "ipc_moves j xs s = []")
    case True
    then have "parent_fifo xs s = None" by (simp add: no_moves)
    then have "sleeping s" using that stuck_parent [of xs s] by (auto simp: ipc_final_def sleeping_def)
    then show ?thesis using True prompt_tick by blast
  next
    case False
    then have "hd (ipc_moves j xs s) \<in> set (ipc_moves j xs s)" by simp
    then show ?thesis using prompt_move by blast
  qed
qed

lemma final_state:
  assumes "prompt_inv xs s" and "parent s = PDone c"
  shows "c = 0" "printed s = [product xs + total_sum xs]" "fifo1 s = []" "fifo2 s = []" "child_counter s = 2"
proof -
  have r: "c = 0" "child_counter s = 2" "child_counter s + unreaped s = exits s"
    using assms by (auto simp: prompt_inv_def reaping_inv_def)
  then have "child1 s = AExit" "child2 s = BExit" by (auto simp: exits_def split: if_splits)
  then show "printed s = [product xs + total_sum xs]" "fifo1 s = []" "fifo2 s = []"
    using assms(1) by (simp_all add: prompt_inv_def data_inv_def)
  show "c = 0" "child_counter s = 2" using r by simp_all
qed

definition no_junk :: junk where
  "no_junk = \<lparr>junk_data = [], junk_array = [], junk_string = [], junk_sum = []\<rparr>"

text \<open>C21. When every process moves promptly and the array fits the FIFO, a parent that ends does so with
  status 0, both children have been reaped, both FIFOs are empty and the only number printed is
  the product of the array plus its sum, modulo \<open>2 ^ 32\<close>.
\<close>

theorem ipc_result:
  assumes "fits xs" and "steps (prompt_step j xs) n ipc_init s" and "parent s = PDone c"
  shows "c = 0 \<and> printed s = [product xs + total_sum xs] \<and> child_counter s = 2 \<and> fifo1 s = [] \<and> fifo2 s = []"
proof -
  have "prompt_inv xs s" using ipc.steps_inv [OF assms(2)] assms(1) init_inv by blast
  then show ?thesis using final_state assms(3) by blast
qed

theorem ipc_result_witness:
  "\<exists>n s. steps (prompt_step no_junk [2, 3]) n ipc_init s \<and> parent s = PDone 0 \<and> printed s = [11]"
proof -
  have f: "fits [2, 3]" by (simp add: fits_def fifo_size_def)
  then obtain n s c where r: "steps (prompt_step no_junk [2, 3]) n ipc_init s" "parent s = PDone c"
    using ipc.reaches_final init_inv unfolding ipc_final_def by blast
  then show ?thesis using ipc_result [OF f r] by (auto simp: product_def total_sum_def)
qed

text \<open>C22. Under the same conditions no run is longer than 121 steps, and every run can be continued to the
  end of the parent with the right number printed: no process is left waiting.
\<close>

theorem ipc_terminates:
  assumes "fits xs" and "steps (prompt_step j xs) n ipc_init s"
  shows "n \<le> 121 \<and> (\<exists>m t. steps (prompt_step j xs) m s t \<and> parent t = PDone 0 \<and>
           printed t = [product xs + total_sum xs])"
proof -
  have inv: "prompt_inv xs s" using ipc.steps_inv [OF assms(2)] assms(1) init_inv by blast
  have "ipc_work ipc_init = 121" by (simp add: ipc_work_def ipc_init_def)
  then have n: "n \<le> 121" using ipc.steps_bound [OF assms(2)] assms(1) init_inv by fastforce
  obtain m t where mt: "steps (prompt_step j xs) m s t" "ipc_final t"
    using ipc.reaches_final inv assms(1) by blast
  then have "prompt_inv xs t" using ipc.steps_inv inv assms(1) by blast
  then show ?thesis using n mt final_state [of xs t] by (auto simp: ipc_final_def)
qed

theorem ipc_terminates_witness:
  "\<exists>m t. steps (prompt_step no_junk [2, 3]) m ipc_init t \<and> parent t = PDone 0 \<and> printed t = [11]"
proof -
  have f: "fits [2, 3]" by (simp add: fits_def fifo_size_def)
  show ?thesis using ipc_terminates [OF f steps_0, of no_junk] by (simp add: product_def total_sum_def)
qed

text \<open>What \<open>main\<close> passes on is a non-empty array of numbers below 100.\<close>

lemma main_array:
  assumes "ipc_main rand argv = Inr xs" and "c_atoi (argv ! 1) \<le> 16380"
  shows "fits xs \<and> int (length xs) = c_atoi (argv ! 1) \<and> (\<forall>x \<in> set xs. x < 100)"
proof -
  have xs: "xs = map (\<lambda>i. of_nat (rand i mod 100)) [0..<nat (c_atoi (argv ! 1))]" "0 < c_atoi (argv ! 1)"
    using assms(1) by (auto simp: ipc_main_def Let_def split: if_splits)
  have "of_nat (n mod 100) < (100 :: u32)" for n
    by (simp add: word_less_nat_alt unat_of_nat)
  then show ?thesis using xs assms(2) by (auto simp: fits_def fifo_size_def)
qed

subsection \<open>Without promptness\<close>

text \<open>A run given by who moves at each step.\<close>

datatype mover = Parent | Handler | Child1 | Child2 | Clock

definition moved :: "junk \<Rightarrow> u32 list \<Rightarrow> mover \<Rightarrow> ipc \<Rightarrow> ipc option" where
  "moved j xs m s =
     (case m of Parent \<Rightarrow> parent_fifo xs s | Handler \<Rightarrow> sigchld_handler s
      | Child1 \<Rightarrow> child1_fifo j (length xs) s | Child2 \<Rightarrow> child2_fifo j (length xs) s
      | Clock \<Rightarrow> (if sleeping s then Some (tick s) else None))"

fun ipc_run :: "junk \<Rightarrow> u32 list \<Rightarrow> mover list \<Rightarrow> ipc \<Rightarrow> ipc option" where
  "ipc_run j xs [] s = Some s"
| "ipc_run j xs (m # ms) s = (case moved j xs m s of None \<Rightarrow> None | Some t \<Rightarrow> ipc_run j xs ms t)"

lemma moved_step: "moved j xs m s = Some t \<Longrightarrow> any_step j xs s t"
  by (cases m)
    (auto simp: moved_def ipc_moves_def List.map_filter_def intro: any_tick any_move split: if_splits)

lemma ipc_run_steps: "ipc_run j xs ms s = Some t \<Longrightarrow> steps (any_step j xs) (length ms) s t"
  by (induction ms arbitrary: s) (auto intro: steps.intros moved_step split: option.splits)

lemma ipc_run_append:
  "ipc_run j xs ms s = Some t \<Longrightarrow> ipc_run j xs (ms @ ms') s = ipc_run j xs ms' t"
  by (induction ms arbitrary: s) (auto split: option.splits)

lemma ipc_run_ticks: "sleeping s \<Longrightarrow> ipc_run j xs (replicate n Clock) s = Some (s\<lparr>now := now s + n\<rparr>)"
  by (induction n arbitrary: s) (simp_all add: moved_def sleeping_def tick_def)

text \<open>
  Twelve seconds in which the first child does not get to run are enough: the second child then
  reads no sum, and the first one waits for a reader of the second FIFO forever.
\<close>

definition both_asleep :: ipc where
  "both_asleep =
     ipc_init\<lparr>fifo1 := array_bytes [2, 3], fifo2 := array_bytes [2, 3] @ message,
       parent := PSleep 2, child1 := ASleep 10, child2 := BSleep 10\<rparr>"

lemma to_both_asleep:
  "ipc_run no_junk [2, 3] [Parent, Parent, Parent, Parent, Parent, Parent, Child1, Child2] ipc_init = Some both_asleep"
  by (simp add: both_asleep_def ipc_init_def moved_def parent_fifo_def child1_fifo_def child2_fifo_def fifo_size_def)

lemma read_both: "bytes_int (array_bytes [2, 3]) = 2" "bytes_int (drop 4 (array_bytes [2, 3])) = 3"
  using bytes_array_bytes [of "[2, 3]" "[]"] by simp_all

lemma no_bytes: "bytes_int [] = 0"
  by (simp add: bytes_int_def)

lemma starving_run_result:
  "\<exists>s. ipc_run no_junk [2, 3] [Child2, Child2, Child2, Clock, Clock, Child2, Child2, Child1, Child1] (both_asleep\<lparr>now := 10\<rparr>) = Some s \<and>
     printed s = [6] \<and> child1 s = AOpen2 \<and> child2 s = BExit \<and> child_counter s + unreaped s = 1 \<and> parent s = PSleep 2"
  using message_text [of "[]"]
  by (simp add: both_asleep_def ipc_init_def moved_def child1_fifo_def child2_fifo_def fifo2_waits_def no_junk_def
      parent_holds1_def parent_holds2_def read_fifo_def sleeping_def tick_def read_both no_bytes)

definition abandoned :: "ipc \<Rightarrow> bool" where
  "abandoned s =
     (child1 s = AOpen2 \<and> child2 s = BExit \<and> child_counter s + unreaped s = 1 \<and>
      (parent s = PCheck \<or> (\<exists>t. parent s = PSleep t)))"

lemma abandoned_step:
  assumes "abandoned s" and "any_step j xs s t"
  shows "abandoned t"
  using assms(2)
proof cases
  case any_move
  then show ?thesis using assms(1)
    by (cases rule: move_cases)
      (auto simp: abandoned_def parent_fifo_def sigchld_handler_def child1_fifo_def child2_fifo_def split: if_splits)
next
  case any_tick
  then show ?thesis using assms(1) by (simp add: abandoned_def tick_def)
qed

interpretation abandoned: inductive_invariant abandoned "any_step j xs" abandoned for j xs
  by unfold_locales (auto intro: abandoned_step)

theorem sleep_does_not_order:
  "\<exists>n s. steps (any_step no_junk [2, 3]) n ipc_init s \<and> printed s = [6] \<and>
     (\<forall>m t. steps (any_step no_junk [2, 3]) m s t \<longrightarrow> \<not> ipc_final t)"
proof -
  let ?run = "ipc_run no_junk [2, 3]"
  obtain s :: ipc where s: "?run [Child2, Child2, Child2, Clock, Clock, Child2, Child2, Child1, Child1] (both_asleep\<lparr>now := 10\<rparr>) = Some s"
    "printed s = [6]" "abandoned s"
    using starving_run_result unfolding abandoned_def by auto
  have "sleeping both_asleep" "now both_asleep = 0" by (simp_all add: both_asleep_def ipc_init_def sleeping_def)
  then have "?run (replicate 10 Clock) both_asleep = Some (both_asleep\<lparr>now := 10\<rparr>)" by (simp add: ipc_run_ticks)
  from ipc_run_append [OF to_both_asleep] ipc_run_append [OF this] s(1)
  have "\<exists>ms. ?run ms ipc_init = Some s" by metis
  then have "\<exists>n. steps (any_step no_junk [2, 3]) n ipc_init s" using ipc_run_steps by blast
  moreover have "\<not> ipc_final t" if "steps (any_step no_junk [2, 3]) m s t" for m t
    using abandoned.steps_inv [OF that s(3)] by (auto simp: abandoned_def ipc_final_def)
  ultimately show ?thesis using s(2) by blast
qed

end
