(* ===== verification/Kernel_Memory.thy ===== *)
theory Kernel_Memory
  imports Transition_Systems
begin

text \<open>
  The heap of the kernel (os01, \<open>memorymanagement.cpp\<close>): a doubly linked list of chunk headers
  that lie in the memory they manage. Memory is a total map from 32-bit addresses to headers, as
  the program sees them through a \<open>MemoryChunk*\<close>; address 0 is the null pointer. The header
  has 16 bytes on the i386 (two pointers, a \<open>bool\<close> with its padding, a \<open>size_t\<close>), and all
  arithmetic on addresses and sizes is 32-bit arithmetic that can wrap around.

  \<open>Kernel_Memory_Properties\<close> relates the list to a sequence of blocks and shows that \<open>malloc\<close> and
  \<open>free\<close> are first fit with immediate coalescing on that sequence.
\<close>

subsection \<open>State\<close>

record MemoryChunk =
  next_chunk :: u32
  prev_chunk :: u32
  allocated :: bool
  chunk_size :: u32

type_synonym memory = "u32 \<Rightarrow> MemoryChunk"

record MemoryManager =
  first_chunk :: u32
  memory :: memory

definition HEADER :: u32 where "HEADER = 16"

text \<open>The constructor, for a region of \<open>n\<close> bytes at \<open>start\<close>.\<close>

definition new_manager :: "u32 \<Rightarrow> u32 \<Rightarrow> memory \<Rightarrow> MemoryManager" where
  "new_manager start n h =
     (if n < HEADER then \<lparr>first_chunk = 0, memory = h\<rparr>
      else \<lparr>first_chunk = start,
            memory = h(start := \<lparr>next_chunk = 0, prev_chunk = 0, allocated = False,
                               chunk_size = n - HEADER\<rparr>)\<rparr>)"

subsection \<open>malloc\<close>

text \<open>The loop over the chunks; \<open>None\<close> is a loop that never ends.\<close>

partial_function (option) find_chunk :: "memory \<Rightarrow> u32 \<Rightarrow> u32 \<Rightarrow> u32 option" where
  [code]: "find_chunk h n chunk =
     (if chunk = 0 then Some 0
      else if n < chunk_size (h chunk) \<and> \<not> allocated (h chunk) then Some chunk
      else find_chunk h n (next_chunk (h chunk)))"

text \<open>The assignments that cut the header of the rest out of a chunk.\<close>

definition split_chunk :: "u32 \<Rightarrow> u32 \<Rightarrow> memory \<Rightarrow> memory" where
  "split_chunk n chunk h =
     (let temp = chunk + HEADER + n;
          h1 = h(temp := \<lparr>next_chunk = next_chunk (h chunk), prev_chunk = chunk, allocated = False,
                          chunk_size = chunk_size (h chunk) - n - HEADER\<rparr>);
          after = next_chunk (h1 temp);
          h2 = (if after \<noteq> 0 then h1(after := (h1 after)\<lparr>prev_chunk := temp\<rparr>) else h1)
      in h2(chunk := (h2 chunk)\<lparr>chunk_size := n, next_chunk := temp\<rparr>))"

definition mark_allocated :: "u32 \<Rightarrow> memory \<Rightarrow> memory" where
  "mark_allocated chunk h = h(chunk := (h chunk)\<lparr>allocated := True\<rparr>)"

definition malloc :: "u32 \<Rightarrow> MemoryManager \<Rightarrow> (u32 \<times> MemoryManager) option" where
  "malloc n m =
     (case find_chunk (memory m) n (first_chunk m) of
        None \<Rightarrow> None
      | Some chunk \<Rightarrow>
          if chunk = 0 then Some (0, m)
          else
            (let h = (if n + HEADER + 1 \<le> chunk_size (memory m chunk)
                      then split_chunk n chunk (memory m) else memory m)
             in Some (chunk + HEADER, m\<lparr>memory := mark_allocated chunk h\<rparr>)))"

subsection \<open>free\<close>

definition mark_free :: "u32 \<Rightarrow> memory \<Rightarrow> memory" where
  "mark_free chunk h = h(chunk := (h chunk)\<lparr>allocated := False\<rparr>)"

text \<open>The two mergers, with their tests; the first also moves on to the chunk before.\<close>

definition merge_prev :: "u32 \<Rightarrow> memory \<Rightarrow> u32 \<times> memory" where
  "merge_prev chunk h =
     (let before = prev_chunk (h chunk) in
      if before \<noteq> 0 \<and> \<not> allocated (h before)
      then
        (let h1 = h(before := (h before)\<lparr>next_chunk := next_chunk (h chunk)\<rparr>);
             h2 = h1(before := (h1 before)\<lparr>chunk_size :=
                       chunk_size (h1 before) + (chunk_size (h1 chunk) + HEADER)\<rparr>);
             after = next_chunk (h2 chunk);
             h3 = (if after \<noteq> 0
                   then h2(after := (h2 after)\<lparr>prev_chunk := prev_chunk (h2 chunk)\<rparr>) else h2)
         in (before, h3))
      else (chunk, h))"

definition merge_next :: "u32 \<Rightarrow> memory \<Rightarrow> memory" where
  "merge_next chunk h =
     (let after = next_chunk (h chunk) in
      if after \<noteq> 0 \<and> \<not> allocated (h after)
      then
        (let h1 = h(chunk := (h chunk)\<lparr>chunk_size :=
                     chunk_size (h chunk) + (chunk_size (h after) + HEADER)\<rparr>);
             h2 = h1(chunk := (h1 chunk)\<lparr>next_chunk := next_chunk (h1 after)\<rparr>);
             after' = next_chunk (h2 chunk)
         in if after' \<noteq> 0 then h2(after' := (h2 after')\<lparr>prev_chunk := chunk\<rparr>) else h2)
      else h)"

definition free_chunk :: "u32 \<Rightarrow> memory \<Rightarrow> memory" where
  "free_chunk chunk h = (case merge_prev chunk (mark_free chunk h) of (c, h') \<Rightarrow> merge_next c h')"

definition free :: "u32 \<Rightarrow> MemoryManager \<Rightarrow> MemoryManager" where
  "free ptr m = m\<lparr>memory := free_chunk (ptr - HEADER) (memory m)\<rparr>"

text \<open>
  \<open>operator new\<close> and \<open>operator delete\<close>: they go to the active manager, if there is one.
\<close>

definition operator_new :: "u32 \<Rightarrow> MemoryManager option \<Rightarrow> (u32 \<times> MemoryManager option) option" where
  "operator_new n active =
     (case active of
        None \<Rightarrow> Some (0, None)
      | Some m \<Rightarrow> map_option (\<lambda>(p, m'). (p, Some m')) (malloc n m))"

definition operator_delete :: "u32 \<Rightarrow> MemoryManager option \<Rightarrow> MemoryManager option" where
  "operator_delete ptr active = map_option (free ptr) active"

end
