(* ===== verification/Kernel_Gdt.thy ===== *)
theory Kernel_Gdt
  imports Prelude
begin

text \<open>
  Segment descriptors of the kernel (os01, \<open>gdt.cpp\<close>): a base and a limit of 32 bits packed into
  the eight bytes the processor reads, with the two read-back functions, the table of four
  descriptors and its selectors.
\<close>

unbundle bit_operations_syntax

text \<open>
  The constructor writes through a byte pointer to the object it constructs; \<open>target\<close> is what was
  there before. A limit of more than 65536 is stored in units of 4096 bytes.
\<close>

definition scaled_limit :: "u32 \<Rightarrow> u32" where
  "scaled_limit limit =
     (if limit \<le> 65536 then limit
      else if limit AND 0xFFF \<noteq> 0xFFF then drop_bit 12 limit - 1
      else drop_bit 12 limit)"

definition SegmentDescriptor :: "u32 \<Rightarrow> u32 \<Rightarrow> byte \<Rightarrow> bytes \<Rightarrow> bytes" where
  "SegmentDescriptor base limit kind target =
     (let t0 = target[6 := (if limit \<le> 65536 then 0x40 else 0xC0)];
          l = scaled_limit limit;
          t1 = t0[0 := ucast (l AND 0xFF)];
          t2 = t1[1 := ucast (drop_bit 8 l AND 0xFF)];
          t3 = t2[6 := t2 ! 6 OR ucast (drop_bit 16 l AND 0xF)];
          t4 = t3[2 := ucast (base AND 0xFF)];
          t5 = t4[3 := ucast (drop_bit 8 base AND 0xFF)];
          t6 = t5[4 := ucast (drop_bit 16 base AND 0xFF)];
          t7 = t6[7 := ucast (drop_bit 24 base AND 0xFF)]
      in t7[5 := kind])"

definition Base :: "bytes \<Rightarrow> u32" where
  "Base target =
     (let r0 = ucast (target ! 7);
          r1 = push_bit 8 r0 + ucast (target ! 4);
          r2 = push_bit 8 r1 + ucast (target ! 3)
      in push_bit 8 r2 + ucast (target ! 2))"

definition Limit :: "bytes \<Rightarrow> u32" where
  "Limit target =
     (let r0 = ucast (target ! 6 AND 0xF);
          r1 = push_bit 8 r0 + ucast (target ! 1);
          r2 = push_bit 8 r1 + ucast (target ! 0)
      in if target ! 6 AND 0xC0 = 0xC0 then push_bit 12 r2 OR 0xFFF else r2)"

text \<open>The table, in the order of its fields, and what \<open>lgdt\<close> is given: size and address.\<close>

record gdt_register =
  gdt_size :: u16
  gdt_base :: u32

definition GlobalDescriptorTable :: "u32 \<Rightarrow> bytes list \<Rightarrow> bytes list \<times> gdt_register" where
  "GlobalDescriptorTable this old =
     ([SegmentDescriptor 0 0 0 (old ! 0),
       SegmentDescriptor 0 0 0 (old ! 1),
       SegmentDescriptor 0 (64 * 1024 * 1024) 0x9A (old ! 2),
       SegmentDescriptor 0 (64 * 1024 * 1024) 0x92 (old ! 3)],
      \<lparr>gdt_size = ucast (drop_bit 16 (push_bit 16 32 :: u32)), gdt_base = this\<rparr>)"

definition CodeSegmentSelector :: u16 where "CodeSegmentSelector = 16"
definition DataSegmentSelector :: u16 where "DataSegmentSelector = 24"

subsection \<open>Facts\<close>

lemma low_bits: "w AND 0xFF = (w mod 256 :: 'a::len word)" "w AND 0xF = w mod 16"
  using take_bit_eq_mask [of 8 w] take_bit_eq_mask [of 4 w]
  by (simp_all add: mask_eq_exp_minus_1 take_bit_eq_mod)

lemma unat_low [simp]: "unat (ucast (w AND 0xFF :: u32) :: byte) = unat w mod 256"
  by (simp add: low_bits unsigned_ucast_eq unat_mod take_bit_eq_mod)

lemma unat_nibble [simp]:
  "unat (w AND 0xF :: u32) = unat w mod 16" "unat (b AND 0xF :: byte) = unat b mod 16"
  by (simp_all add: low_bits unat_mod)

lemma unat_byte_less [simp]: "unat (b :: byte) < 256"
proof -
  have "unat b < 2 ^ LENGTH(8)" by (rule unsigned_less)
  then show ?thesis by simp
qed

lemma unat_shift_right [simp]: "unat (drop_bit n w :: u32) = unat w div 2 ^ n"
  by (simp only: unat_drop_bit_eq) (simp only: drop_bit_eq_div)

lemma unat_cast_byte: "unat (ucast (b :: byte) :: u32) = unat b"
  using unat_byte_less [of b] by (simp add: unsigned_ucast_eq take_bit_eq_mod del: unat_byte_less)

lemma unat_join:
  assumes "unat (r :: u32) < 2 ^ 24"
  shows "unat (push_bit 8 r + ucast (b :: byte)) = 256 * unat r + unat b"
proof -
  have "unat b < 256" by simp
  moreover have "unat (push_bit 8 r) = 256 * unat r"
    using assms by (simp add: push_bit_eq_mult unat_mult_lem [THEN iffD1] mult.commute unat_word_ariths)
  ultimately show ?thesis using assms by (simp add: unat_word_ariths unat_cast_byte del: unat_byte_less)
qed

lemma digit: "256 * ((x :: nat) div (k * 256)) + x div k mod 256 = x div k"
  by (metis div_mult2_eq mult_div_mod_eq)

lemma base_digits:
  fixes x :: nat
  assumes "x < 4294967296"
  shows "256 * (256 * (256 * (x div 16777216 mod 256) + x div 65536 mod 256) + x div 256 mod 256) + x mod 256 = x"
proof -
  have "x div 16777216 mod 256 = x div 16777216" using assms by (simp add: less_mult_imp_div_less)
  moreover have "256 * (x div 16777216) + x div 65536 mod 256 = x div 65536" using digit [of x 65536] by simp
  moreover have "256 * (x div 65536) + x div 256 mod 256 = x div 256" using digit [of x 256] by simp
  ultimately show ?thesis by (simp only: mult_div_mod_eq)
qed

lemma limit_digits:
  fixes x :: nat
  assumes "x < 1048576"
  shows "256 * (256 * (x div 65536 mod 16) + x div 256 mod 256) + x mod 256 = x"
proof -
  have "x div 65536 mod 16 = x div 65536" using assms by (simp add: less_mult_imp_div_less)
  moreover have "256 * (x div 65536) + x div 256 mod 256 = x div 256" using digit [of x 256] by simp
  ultimately show ?thesis by (simp only: mult_div_mod_eq)
qed

lemma Base_descriptor:
  assumes "length t = 8"
  shows "Base (SegmentDescriptor base limit kind t) = base"
proof -
  let ?d = "\<lambda>k. ucast (drop_bit k base AND 0xFF) :: byte"
  let ?r0 = "ucast (?d 24) :: u32"
  let ?r1 = "push_bit 8 ?r0 + ucast (?d 16)"
  let ?r2 = "push_bit 8 ?r1 + ucast (?d 8)"
  note byte = unat_cast_byte unat_low unat_shift_right
  have d: "unat (?d k) = unat base div 2 ^ k mod 256" for k
    by (simp only: byte)
  have r0: "unat ?r0 = unat base div 16777216 mod 256"
    using d [of 24] by (simp only: unat_cast_byte) simp
  then have r1: "unat ?r1 = 256 * (unat base div 16777216 mod 256) + unat base div 65536 mod 256"
    using d [of 16] by (subst unat_join) simp_all
  have "unat base div 16777216 mod 256 < 256" "unat base div 65536 mod 256 < 256" by simp_all
  with r1 have "unat ?r1 < 65536" by linarith
  then have r2: "unat ?r2 = 256 * unat ?r1 + unat base div 256 mod 256"
    using d [of 8] by (subst unat_join) simp_all
  have "unat base div 256 mod 256 < 256" by simp
  with r2 \<open>unat ?r1 < 65536\<close> have "unat ?r2 < 16777216" by linarith
  then have "unat ?r2 < 2 ^ 24" by simp
  then have "unat (push_bit 8 ?r2 + ucast (ucast (base AND 0xFF) :: byte)) = 256 * unat ?r2 + unat base mod 256"
    by (subst unat_join) (simp_all only: unat_low)
  also have "\<dots> = unat base"
  proof -
    have "unat base < 2 ^ LENGTH(32)" by (rule unsigned_less)
    then have "unat base < 4294967296" by simp
    then show ?thesis unfolding r2 r1 by (rule base_digits)
  qed
  finally have "push_bit 8 ?r2 + ucast (ucast (base AND 0xFF) :: byte) = base"
    by (simp only: word_unat_eq_iff)
  with assms show ?thesis by (simp add: Base_def SegmentDescriptor_def Let_def)
qed

lemma flag_bits:
  assumes "unat (n :: byte) < 16"
  shows "(0x40 OR n) AND 0xF = n \<and> (0xC0 OR n) AND 0xF = n \<and>
    (0x40 OR n) AND 0xC0 = 0x40 \<and> (0xC0 OR n) AND 0xC0 = 0xC0"
proof -
  have "n = of_nat (unat n)" by simp
  moreover from assms have "unat n \<in> set [0..<16]" by simp
  ultimately have "n \<in> of_nat ` set [0..<16]" by blast
  then show ?thesis by (simp add: upt_rec) (elim disjE; simp)
qed

lemma ones_below:
  assumes "unat (w :: u32) < 1048576"
  shows "unat (push_bit 12 w OR 0xFFF) = 4096 * unat w + 4095"
proof -
  have "push_bit 12 w OR mask 12 = push_bit 12 w + mask 12"
    by (rule disjunctive_add_eq_or [symmetric]) (simp add: bit_eq_iff bit_simps)
  moreover have "unat (push_bit 12 w) = 4096 * unat w"
    using assms by (simp add: push_bit_eq_mult unat_word_ariths)
  moreover have "unat (mask 12 :: u32) = 4095" by (simp add: mask_eq_exp_minus_1)
  ultimately show ?thesis using assms by (simp add: unat_word_ariths mask_eq_exp_minus_1)
qed

text \<open>The twenty bits of the limit field.\<close>

lemma Limit_descriptor:
  assumes "length t = 8"
  shows "unat (Limit (SegmentDescriptor base limit kind t)) =
    (if limit \<le> 65536 then unat limit else 4096 * unat (scaled_limit limit) + 4095)"
proof -
  let ?l = "scaled_limit limit"
  let ?n = "ucast (drop_bit 16 ?l AND 0xF) :: byte"
  let ?b = "\<lambda>w. ucast (w AND 0xFF :: u32) :: byte"
  let ?r0 = "ucast ?n :: u32"
  let ?r1 = "push_bit 8 ?r0 + ucast (?b (drop_bit 8 ?l))"
  let ?r2 = "push_bit 8 ?r1 + ucast (?b ?l)"
  have small: "unat ?l < 1048576"
  proof (cases "limit \<le> 65536")
    case True
    then show ?thesis by (simp add: scaled_limit_def word_le_nat_alt)
  next
    case False
    have "unat limit < 2 ^ LENGTH(32)" by (rule unsigned_less)
    then have "unat limit div 4096 < 1048576" by (simp add: less_mult_imp_div_less)
    moreover have "unat (drop_bit 12 limit) = unat limit div 4096" by simp
    moreover have "unat (drop_bit 12 limit - 1) \<le> unat (drop_bit 12 limit)"
    proof -
      have "0 < unat limit div 4096" using False by (simp add: word_le_nat_alt)
      then show ?thesis using unat_shift_right [of 12 limit] by (simp add: unat_sub word_le_nat_alt)
    qed
    ultimately show ?thesis using False by (simp add: scaled_limit_def)
  qed
  have n: "unat ?n = unat ?l div 65536 mod 16"
  proof -
    have "unat ?n = unat (drop_bit 16 ?l AND 0xF) mod 256" by (simp only: unsigned_ucast_eq take_bit_eq_mod) simp
    then show ?thesis by (simp only: unat_nibble unat_shift_right) simp
  qed
  have "unat ?l div 65536 mod 16 < 16" by simp
  then have "unat ?r0 < 2 ^ 24" unfolding unat_cast_byte n by (rule less_trans) simp
  then have r1: "unat ?r1 = 256 * (unat ?l div 65536 mod 16) + unat ?l div 256 mod 256"
    using n by (subst unat_join) (simp_all only: unat_cast_byte unat_low unat_shift_right, simp)
  moreover have "unat ?l div 65536 mod 16 < 16" "unat ?l div 256 mod 256 < 256" by simp_all
  ultimately have "unat ?r1 < 16777216" by linarith
  then have "unat ?r1 < 2 ^ 24" by simp
  then have r2: "unat ?r2 = 256 * unat ?r1 + unat ?l mod 256"
    by (subst unat_join) (simp_all only: unat_low)
  have "unat ?r2 = unat ?l"
    unfolding r2 r1 using small by (rule limit_digits)
  then have r: "?r2 = ?l" by (simp only: word_unat_eq_iff)
  have "unat ?n < 16" unfolding n by simp
  note flags = flag_bits [OF this]
  show ?thesis
  proof (cases "limit \<le> 65536")
    case True
    with assms flags have "Limit (SegmentDescriptor base limit kind t) = ?r2"
      by (simp add: Limit_def SegmentDescriptor_def Let_def)
    with True r show ?thesis by (simp add: scaled_limit_def)
  next
    case False
    with assms flags have "Limit (SegmentDescriptor base limit kind t) = push_bit 12 ?r2 OR 0xFFF"
      by (simp add: Limit_def SegmentDescriptor_def Let_def)
    with False ones_below [OF small] show ?thesis unfolding r by simp
  qed
qed

lemma scaled_limit_near:
  assumes "65536 < unat limit"
  shows "4096 * unat (scaled_limit limit) + 4095 \<le> unat limit \<and>
    unat limit - (4096 * unat (scaled_limit limit) + 4095) \<le> 4095"
proof -
  let ?q = "unat limit div 4096"
  have low: "unat (limit AND 0xFFF) = unat limit mod 4096"
  proof -
    have "limit AND 0xFFF = limit mod 4096"
      using take_bit_eq_mask [of 12 limit] by (simp add: mask_eq_exp_minus_1 take_bit_eq_mod)
    then show ?thesis by (simp add: unat_mod)
  qed
  have large: "\<not> limit \<le> 65536" using assms by (simp add: word_le_nat_alt)
  have split: "unat limit = 4096 * ?q + unat limit mod 4096" by simp
  show ?thesis
  proof (cases "limit AND 0xFFF = 0xFFF")
    case True
    with low have "unat limit mod 4096 = 4095" by simp
    moreover have "unat (scaled_limit limit) = ?q" using large True by (simp add: scaled_limit_def)
    ultimately show ?thesis using split by linarith
  next
    case False
    with low have "unat limit mod 4096 \<noteq> 4095" by (auto simp: word_unat_eq_iff)
    moreover have "unat limit mod 4096 < 4096" by simp
    moreover have "0 < ?q" using assms by simp
    moreover from this have "unat (scaled_limit limit) = ?q - 1"
      using large False unat_shift_right [of 12 limit]
      by (simp add: scaled_limit_def unat_sub word_le_nat_alt)
    ultimately show ?thesis using split by linarith
  qed
qed

section \<open>Properties\<close>

text \<open>A segment descriptor gives back what it was built from, whatever the eight bytes held before:
  the base and the type exactly, a limit of at most 65536 exactly, and a larger limit rounded down
  to the end of a 4096-byte page, never up and by no more than 4095 bytes.
\<close>

theorem descriptor_roundtrip:
  assumes "length t = 8"
  shows "Base (SegmentDescriptor base limit kind t) = base \<and>
    SegmentDescriptor base limit kind t ! 5 = kind \<and>
    (if limit \<le> 65536 then Limit (SegmentDescriptor base limit kind t) = limit
     else Limit (SegmentDescriptor base limit kind t) \<le> limit \<and>
       unat limit - unat (Limit (SegmentDescriptor base limit kind t)) \<le> 4095 \<and>
       unat (Limit (SegmentDescriptor base limit kind t)) mod 4096 = 4095)"
proof (intro conjI)
  show "Base (SegmentDescriptor base limit kind t) = base" by (rule Base_descriptor [OF assms])
  show "SegmentDescriptor base limit kind t ! 5 = kind"
    using assms by (simp add: SegmentDescriptor_def Let_def)
  show "if limit \<le> 65536 then Limit (SegmentDescriptor base limit kind t) = limit
     else Limit (SegmentDescriptor base limit kind t) \<le> limit \<and>
       unat limit - unat (Limit (SegmentDescriptor base limit kind t)) \<le> 4095 \<and>
       unat (Limit (SegmentDescriptor base limit kind t)) mod 4096 = 4095"
  proof (cases "limit \<le> 65536")
    case True
    with Limit_descriptor [OF assms, of base limit kind] show ?thesis by (simp add: word_unat_eq_iff)
  next
    case False
    then have "65536 < unat limit" by (simp add: word_le_nat_alt)
    from scaled_limit_near [OF this] Limit_descriptor [OF assms, of base limit kind] False
    show ?thesis by (simp add: word_le_nat_alt)
  qed
qed

text \<open>The code segment of the kernel: 64 MiB, of which the last byte is not addressed.\<close>

theorem descriptor_roundtrip_witness:
  "unat (67108864 :: u32) - unat (Limit (SegmentDescriptor 0 67108864 0x9A (replicate 8 7))) \<le> 4095"
  using descriptor_roundtrip [of "replicate 8 7" 0 67108864 "0x9A"] by simp

text \<open>The selectors are the offsets of the two segments in the table.\<close>

lemma selectors_in_table:
  "concat (fst (GlobalDescriptorTable this [a, b, c, d])) = t \<Longrightarrow>
   length a = 8 \<Longrightarrow> length b = 8 \<Longrightarrow> length c = 8 \<Longrightarrow> length d = 8 \<Longrightarrow>
   take 8 (drop (unat CodeSegmentSelector) t) = SegmentDescriptor 0 67108864 0x9A c \<and>
   take 8 (drop (unat DataSegmentSelector) t) = SegmentDescriptor 0 67108864 0x92 d"
  by (auto simp: GlobalDescriptorTable_def CodeSegmentSelector_def DataSegmentSelector_def
      SegmentDescriptor_def Let_def)

end
