(* ===== verification/Kernel_Console.thy ===== *)
theory Kernel_Console
  imports C_Library "HOL-Library.Signed_Division"
begin

text \<open>
  The text console of the kernel (os01, \<open>kernel.cpp\<close>): \<open>printf\<close> on the 80 x 25 text buffer at
  0xb8000 with its scrolling, the printing of integers and bytes, the mouse cursor that inverts a
  cell, and the two programs that \<open>init\<close> starts, which compute and print.

  The buffer is a total map from cell numbers to 16-bit cells (attribute and character), so that an
  access outside the 2000 cells of the screen would be seen. \<open>char\<close> is signed on the i386.
\<close>

unbundle bit_operations_syntax

subsection \<open>printf\<close>

type_synonym video = "nat \<Rightarrow> u16"

record console =
  video :: video
  cur_x :: byte
  cur_y :: byte

definition with_char :: "u16 \<Rightarrow> char \<Rightarrow> u16" where
  "with_char cell c = (cell AND 0xFF00) OR scast (of_char c :: byte)"

text \<open>One line up, cell by cell, and spaces in the last line.\<close>

definition slide :: "video \<Rightarrow> video" where
  "slide v = fold (\<lambda>j v. fold (\<lambda>k v. v(80 * j + k := v (80 * (j + 1) + k))) [0..<80] v) [0..<24] v"

definition clear_last :: "video \<Rightarrow> video" where
  "clear_last v = fold (\<lambda>k v. v(80 * 24 + k := with_char (v (80 * 24 + k)) (CHR '' ''))) [0..<80] v"

definition put_char :: "char \<Rightarrow> console \<Rightarrow> console" where
  "put_char c con =
     (let con1 =
        (if c = CHR ''\<newline>'' then con\<lparr>cur_x := 0, cur_y := cur_y con + 1\<rparr>
         else (let i = 80 * unat (cur_y con) + unat (cur_x con) in
           con\<lparr>video := (video con)(i := with_char (video con i) c), cur_x := cur_x con + 1\<rparr>));
      con2 = (if 80 \<le> cur_x con1 then con1\<lparr>cur_x := 0, cur_y := cur_y con1 + 1\<rparr> else con1)
      in if 25 \<le> cur_y con2
         then con2\<lparr>video := clear_last (slide (video con2)), cur_x := 0, cur_y := 24\<rparr>
         else con2)"

definition printf :: "string \<Rightarrow> console \<Rightarrow> console" where
  "printf str con = fold put_char (c_str str) con"

subsection \<open>printfInt, printfHex\<close>

lemma quotient_less: "num \<noteq> 0 \<Longrightarrow> \<bar>num sdiv 10\<bar> < \<bar>num :: int\<bar>"
proof -
  assume "num \<noteq> 0"
  then have "\<bar>num\<bar> div 10 < \<bar>num\<bar>" by (intro int_div_less_self) auto
  with \<open>num \<noteq> 0\<close> show ?thesis by (auto simp: signed_divide_int_def abs_mult sgn_if abs_if)
qed

text \<open>The loop that collects the digits, last digit first.\<close>

function digit_loop :: "int \<Rightarrow> string \<Rightarrow> string" where
  "digit_loop num str =
     (if num = 0 then str
      else (let rem = num smod 10
            in digit_loop (num sdiv 10)
                 (str @ [char_of (if 9 < rem then rem - 10 + 65 else rem + 48)])))"
  by auto
termination by (relation "measure (\<lambda>(num, _). nat \<bar>num\<bar>)") (simp_all add: quotient_less)

text \<open>The loop that reverses the buffer in place.\<close>

function swap_loop :: "string \<Rightarrow> nat \<Rightarrow> nat \<Rightarrow> string" where
  "swap_loop str start stop =
     (if start < stop
      then swap_loop (str[start := str ! stop, stop := str ! start]) (start + 1) (stop - 1)
      else str)"
  by auto
termination by (relation "measure (\<lambda>(_, start, stop). stop - start)") auto

definition int_text :: "int \<Rightarrow> string" where
  "int_text num =
     (if num = 0 then ''0''
      else (let str = digit_loop (if num < 0 then signed_take_bit 31 (- num) else num) [];
                str = (if num < 0 then str @ ''-'' else str)
            in swap_loop str 0 (length str - 1)))"

definition printfInt :: "int \<Rightarrow> console \<Rightarrow> console" where
  "printfInt num con = printf (int_text num) con"

definition hex_digits :: string where "hex_digits = ''0123456789ABCDEF''"

definition printfHex :: "byte \<Rightarrow> console \<Rightarrow> console" where
  "printfHex key con =
     printf [hex_digits ! unat (drop_bit 4 key AND 0xF), hex_digits ! unat (key AND 0xF)] con"

definition printfHex16 :: "u16 \<Rightarrow> console \<Rightarrow> console" where
  "printfHex16 key con = printfHex (ucast (key AND 0xFF)) (printfHex (ucast (drop_bit 8 key AND 0xFF)) con)"

definition printfHex32 :: "u32 \<Rightarrow> console \<Rightarrow> console" where
  "printfHex32 key con =
     fold (\<lambda>n. printfHex (ucast (drop_bit n key AND 0xFF))) [24, 16, 8, 0] con"

definition OnKeyDown :: "char \<Rightarrow> console \<Rightarrow> console" where
  "OnKeyDown c con = printf [c] con"

subsection \<open>The mouse cursor\<close>

definition swap_colours :: "u16 \<Rightarrow> u16" where
  "swap_colours cell =
     push_bit 4 (cell AND 0x0F00) OR drop_bit 4 (cell AND 0xF000) OR (cell AND 0x00FF)"

definition flip_cell :: "int \<Rightarrow> int \<Rightarrow> video \<Rightarrow> video" where
  "flip_cell x y v = (let i = nat (80 * y + x) in v(i := swap_colours (v i)))"

record mouse =
  mouse_x :: int
  mouse_y :: int

definition MouseToConsole :: "video \<Rightarrow> mouse \<times> video" where
  "MouseToConsole v = (\<lparr>mouse_x = 40, mouse_y = 12\<rparr>, flip_cell 40 12 v)"

text \<open>The coordinates are \<open>int8_t\<close>: the sum is narrowed before it is compared with the edges.\<close>

definition move_axis :: "int \<Rightarrow> int \<Rightarrow> int \<Rightarrow> int" where
  "move_axis cells pos offset =
     (let p = signed_take_bit 7 (pos + offset);
          p = (if cells \<le> p then cells - 1 else p)
      in if p < 0 then 0 else p)"

definition OnMouseMove :: "int \<Rightarrow> int \<Rightarrow> mouse \<times> video \<Rightarrow> mouse \<times> video" where
  "OnMouseMove xoffset yoffset s =
     (let m = fst s;
          v = flip_cell (mouse_x m) (mouse_y m) (snd s);
          x = move_axis 80 (mouse_x m) xoffset;
          y = move_axis 25 (mouse_y m) yoffset
      in (\<lparr>mouse_x = x, mouse_y = y\<rparr>, flip_cell x y v))"

subsection \<open>The programs that init starts\<close>

definition collatz_next :: "int \<Rightarrow> int" where
  "collatz_next n = (if n smod 2 = 0 then n sdiv 2 else signed_take_bit 31 (3 * n + 1))"

partial_function (option) collatz_loop :: "int \<Rightarrow> console \<Rightarrow> console option" where
  [code]: "collatz_loop n con =
     (if n = 1 then Some con
      else collatz_loop (collatz_next n) (printf '', '' (printfInt (collatz_next n) con)))"

fun collatz_lines :: "int list \<Rightarrow> console \<Rightarrow> console option" where
  "collatz_lines [] con = Some (printf ''******* Collatz program is finished *******\<newline>'' con)"
| "collatz_lines (i # is) con =
     (case collatz_loop i (printf ''- Sequence: '' (printfInt i con)) of
        None \<Rightarrow> None
      | Some con' \<Rightarrow> collatz_lines is (printf ''\<newline>'' con'))"

definition collatz :: "console \<Rightarrow> console option" where
  "collatz con = collatz_lines [1..14] con"

definition long_running_result :: "nat \<Rightarrow> u32" where
  "long_running_result n =
     fold (\<lambda>i result. fold (\<lambda>j result. result + of_nat (i * j)) [0..<n] result) [0..<n] 0"

definition long_running_program :: "nat \<Rightarrow> console \<Rightarrow> console" where
  "long_running_program n con =
     printf ''******* Long running program is finished *******\<newline>\<newline>''
       (printf ''\<newline>'' (printfInt (sint (long_running_result n)) (printf ''Result: '' con)))"

end
