(* ===== verification/Kernel_Tasks.thy ===== *)
theory Kernel_Tasks
  imports Kernel_Memory Kernel_Gdt Kernel_Console
begin

text \<open>
  The task manager of the kernel (os01, \<open>multitasking.cpp\<close>) and its system calls
  (\<open>syscalls.cpp\<close>). Tasks are objects at 32-bit addresses: the table holds pointers, the objects and
  the register frames on their stacks are maps from addresses, so that two table entries can
  denote one object. A \<open>Task\<close> starts with its stack of 4096 bytes and has 4120 bytes in all, a
  \<open>CPUState\<close> has 52. Frames are seen as whole \<open>CPUState\<close> values; frames that overlap only partly
  are not represented.

  The global \<open>taskManager\<close> is zero at start, so every table entry is the null pointer until it is
  assigned; the kernel has no memory protection and address 0 is memory like any other.
\<close>

subsection \<open>State\<close>

record CPUState =
  eax :: u32
  ebx :: u32
  ecx :: u32
  edx :: u32
  esi :: u32
  edi :: u32
  ebp :: u32
  err_code :: u32
  eip :: u32
  cs :: u32
  eflags :: u32
  esp :: u32
  ss :: u32

datatype TaskState = READY | WAITING | FINISHED

record Task =
  cpustate :: u32
  taskState :: TaskState
  pid :: u32
  ppid :: u32
  gdt :: u32
  waitPid :: u32

record kernel =
  tasks :: "u32 list"
  numTasks :: int
  currentTask :: int
  processCounter :: u32
  task_at :: "u32 \<Rightarrow> Task"
  frame_at :: "u32 \<Rightarrow> CPUState"
  memory_manager :: "MemoryManager option"
  screen :: console

definition STACK :: u32 where "STACK = 4096"
definition CPU_SIZE :: u32 where "CPU_SIZE = 52"
definition TASK_SIZE :: u32 where "TASK_SIZE = 4120"

text \<open>
  \<open>tasks[i]\<close>, \<open>*tasks[i]\<close> and assignments through the two kinds of pointers. The index is never
  negative where it is used: the calls below come from a running task.
\<close>

definition task_ptr :: "kernel \<Rightarrow> int \<Rightarrow> u32" where
  "task_ptr k i = tasks k ! nat i"

definition task :: "kernel \<Rightarrow> int \<Rightarrow> Task" where
  "task k i = task_at k (task_ptr k i)"

definition set_task :: "u32 \<Rightarrow> (Task \<Rightarrow> Task) \<Rightarrow> kernel \<Rightarrow> kernel" where
  "set_task a f k = k\<lparr>task_at := (task_at k)(a := f (task_at k a))\<rparr>"

definition set_frame :: "u32 \<Rightarrow> (CPUState \<Rightarrow> CPUState) \<Rightarrow> kernel \<Rightarrow> kernel" where
  "set_frame a f k = k\<lparr>frame_at := (frame_at k)(a := f (frame_at k a))\<rparr>"

definition print :: "string \<Rightarrow> kernel \<Rightarrow> kernel" where
  "print s k = k\<lparr>screen := printf s (screen k)\<rparr>"

definition print_int :: "int \<Rightarrow> kernel \<Rightarrow> kernel" where
  "print_int n k = k\<lparr>screen := printfInt n (screen k)\<rparr>"

subsection \<open>Creating tasks\<close>

text \<open>The constructor, for an object at \<open>this\<close>.\<close>

definition construct_task :: "u32 \<Rightarrow> u32 \<Rightarrow> u32 \<Rightarrow> kernel \<Rightarrow> kernel" where
  "construct_task this g entry k =
     (let k1 = set_task this (\<lambda>t. t\<lparr>pid := processCounter k, ppid := -1, gdt := g,
                 cpustate := (if entry \<noteq> 0 then this + STACK - CPU_SIZE else 0)\<rparr>)
                 (k\<lparr>processCounter := processCounter k + 1\<rparr>);
          k2 = set_task this (\<lambda>t. t\<lparr>taskState := READY, waitPid := -1\<rparr>) k1
      in set_frame (cpustate (task_at k2 this))
           (\<lambda>c. c\<lparr>eax := 0, ebx := 0, ecx := 0, edx := 0, esi := 0, edi := 0, ebp := 0,
                  eip := entry, cs := ucast CodeSegmentSelector, eflags := 0x202\<rparr>) k2)"

definition TaskManager :: "kernel \<Rightarrow> kernel" where
  "TaskManager k = k\<lparr>numTasks := 0, currentTask := -1\<rparr>"

text \<open>
  \<open>AddTask\<close> fills the object that the next table entry points to; it allocates none, and it does
  not copy \<open>gdt\<close> and \<open>waitPid\<close>.
\<close>

definition AddTask :: "u32 \<Rightarrow> kernel \<Rightarrow> bool \<times> kernel" where
  "AddTask new_task k =
     (if 256 \<le> numTasks k then (False, k)
      else
        (let a = task_ptr k (numTasks k);
             k1 = set_task a (\<lambda>t. t\<lparr>taskState := READY, pid := pid (task_at k new_task)\<rparr>) k;
             k2 = set_task a (\<lambda>t. t\<lparr>ppid := ppid (task_at k1 new_task), cpustate := a + STACK - CPU_SIZE\<rparr>) k1;
             src = frame_at k2 (cpustate (task_at k2 new_task));
             k3 = set_frame (cpustate (task_at k2 a))
               (\<lambda>c. c\<lparr>eax := eax src, ebx := ebx src, ecx := ecx src, edx := edx src, esi := esi src,
                      edi := edi src, ebp := ebp src, eip := eip src, cs := cs src, eflags := eflags src\<rparr>) k2
         in (True, k3\<lparr>numTasks := numTasks k3 + 1\<rparr>)))"

text \<open>The loop that copies the stack of the parent moves every frame that lies in it.\<close>

definition copy_stack :: "u32 \<Rightarrow> u32 \<Rightarrow> (u32 \<Rightarrow> CPUState) \<Rightarrow> u32 \<Rightarrow> CPUState" where
  "copy_stack src dst f a =
     (if unat (a - dst) + unat CPU_SIZE \<le> unat STACK then f (src + (a - dst)) else f a)"

text \<open>
  \<open>None\<close> if the allocator never returns. Without exceptions a \<open>new\<close> that gets no memory constructs
  the object at address 0.
\<close>

definition forkTask :: "u32 \<Rightarrow> kernel \<Rightarrow> (u32 \<times> kernel) option" where
  "forkTask cpu k =
     (if 256 \<le> numTasks k then Some (0, k)
      else
        (let entry = eip (frame_at k cpu); g = gdt (task k (currentTask k)) in
         if g = 0 \<or> entry = 0 then Some (-1, k)
         else
           (case operator_new TASK_SIZE (memory_manager k) of
              None \<Rightarrow> None
            | Some (p, mm) \<Rightarrow>
                (let k1 = construct_task p g entry (k\<lparr>memory_manager := mm\<rparr>);
                     k2 = k1\<lparr>tasks := (tasks k1)[nat (numTasks k1) := p]\<rparr>
                 in if p = 0 then Some (-1, print ''Failed to allocate new task\<newline>'' k2)
                    else
                      (let parent = task_ptr k2 (currentTask k2);
                           k3 = set_task p (\<lambda>t. t\<lparr>taskState := READY, ppid := pid (task_at k2 parent)\<rparr>) k2;
                           k4 = k3\<lparr>frame_at := copy_stack parent p (frame_at k3)\<rparr>;
                           child_cpu = p + (cpu - parent);
                           k5 = set_task p (\<lambda>t. t\<lparr>cpustate := child_cpu\<rparr>) k4;
                           k6 = set_frame child_cpu (\<lambda>c. c\<lparr>esp := p + (esp (frame_at k5 cpu) - parent)\<rparr>) k5;
                           k7 = set_frame child_cpu (\<lambda>c. c\<lparr>ecx := 0\<rparr>) k6;
                           k8 = k7\<lparr>numTasks := numTasks k7 + 1\<rparr>
                       in Some (pid (task k8 (numTasks k8 - 1)), k8))))))"

subsection \<open>The other calls\<close>

definition getCurrentTaskPid :: "kernel \<Rightarrow> u32" where
  "getCurrentTaskPid k = pid (task k (currentTask k))"

text \<open>The first index with the given pid; \<open>None\<close> is the result -1.\<close>

definition getTaskIndex :: "u32 \<Rightarrow> kernel \<Rightarrow> int option" where
  "getTaskIndex p k = find (\<lambda>i. pid (task k i) = p) [0..numTasks k - 1]"

definition state_text :: "TaskState \<Rightarrow> string" where
  "state_text s = (case s of READY \<Rightarrow> '' READY\<newline>'' | WAITING \<Rightarrow> ''WAITING\<newline>'' | FINISHED \<Rightarrow> ''FINISHED\<newline>'')"

definition printProcessTable :: "kernel \<Rightarrow> kernel" where
  "printProcessTable k =
     print ''##########################\<newline>\<newline>''
       (fold (\<lambda>i k. print (state_text (taskState (task k i)))
                (print ''        '' (print_int (sint (ppid (task k i)))
                  (print ''       '' (print_int (sint (pid (task k i))) k)))))
          [0..numTasks k - 1]
          (print ''PID     PPID     State\<newline>'' (print ''##########################\<newline>'' k)))"

definition exitTask :: "kernel \<Rightarrow> bool \<times> kernel" where
  "exitTask k =
     (True, printProcessTable
        (set_task (task_ptr k (currentTask k)) (\<lambda>t. t\<lparr>taskState := FINISHED\<rparr>) k))"

definition execveTask :: "u32 \<Rightarrow> kernel \<Rightarrow> u32 \<times> kernel" where
  "execveTask entry k =
     (let a = task_ptr k (currentTask k);
          cpu = a + STACK - CPU_SIZE;
          k1 = set_task a (\<lambda>t. t\<lparr>taskState := READY, cpustate := cpu\<rparr>) k;
          k2 = set_frame cpu
            (\<lambda>c. c\<lparr>eax := 0, ebx := 0, ecx := pid (task_at k1 a), esi := 0, edi := 0, ebp := 0,
                   err_code := 0, eip := entry, cs := ucast CodeSegmentSelector,
                   esp := a + STACK, eflags := 0x202\<rparr>) k1
      in (cpustate (task_at k2 a), k2))"

definition waitpidTask :: "u32 \<Rightarrow> kernel \<Rightarrow> bool \<times> kernel" where
  "waitpidTask cpu k =
     (let p = ebx (frame_at k cpu) in
      if p = pid (task k (currentTask k)) \<or> p = 0 then (False, k)
      else
        (case getTaskIndex p k of
           None \<Rightarrow> (False, print ''Child process not found\<newline>'' k)
         | Some child \<Rightarrow>
             if taskState (task k child) = FINISHED then (False, k)
             else (True, set_task (task_ptr k (currentTask k))
                     (\<lambda>t. t\<lparr>taskState := WAITING, waitPid := p, cpustate := cpu\<rparr>) k)))"

subsection \<open>The scheduler\<close>

text \<open>A task that waits for a finished child becomes ready.\<close>

definition wake :: "int \<Rightarrow> kernel \<Rightarrow> kernel" where
  "wake i k =
     (if taskState (task k i) = WAITING
      then (case getTaskIndex (waitPid (task k i)) k of
              None \<Rightarrow> k
            | Some child \<Rightarrow>
                if taskState (task k child) = FINISHED
                then set_task (task_ptr k i) (\<lambda>t. t\<lparr>taskState := READY, waitPid := 0\<rparr>) k
                else k)
      else k)"

fun schedule_loop :: "nat \<Rightarrow> int \<Rightarrow> u32 \<Rightarrow> kernel \<Rightarrow> u32 \<times> kernel" where
  "schedule_loop 0 nextTask cpu k = (cpu, k)"
| "schedule_loop (Suc n) nextTask cpu k =
     (let k1 = wake nextTask k in
      if taskState (task k1 nextTask) = READY
      then (cpustate (task k1 nextTask), k1\<lparr>currentTask := nextTask\<rparr>)
      else schedule_loop n ((nextTask + 1) mod numTasks k1) cpu k1)"

definition Schedule :: "u32 \<Rightarrow> kernel \<Rightarrow> u32 \<times> kernel" where
  "Schedule cpu k =
     (if numTasks k \<le> 0 then (cpu, k)
      else
        (let k1 = (if 0 \<le> currentTask k
                   then set_task (task_ptr k (currentTask k)) (\<lambda>t. t\<lparr>cpustate := cpu\<rparr>) k else k)
         in schedule_loop (nat (numTasks k1)) ((currentTask k1 + 1) mod numTasks k1) cpu k1))"

subsection \<open>System calls\<close>

text \<open>\<open>SyscallHandler::HandleInterrupt\<close>: the number in \<open>eax\<close>, the argument in \<open>ebx\<close>, the result in \<open>ecx\<close>.\<close>

definition handle_syscall :: "u32 \<Rightarrow> kernel \<Rightarrow> (u32 \<times> kernel) option" where
  "handle_syscall cpu k =
     (let nr = eax (frame_at k cpu) in
      if nr = 1 then
        (case exitTask k of (b, k1) \<Rightarrow> Some (if b then Schedule cpu k1 else (cpu, k1)))
      else if nr = 7 then
        (case waitpidTask cpu k of (b, k1) \<Rightarrow> Some (if b then Schedule cpu k1 else (cpu, k1)))
      else if nr = 11 then Some (execveTask (ebx (frame_at k cpu)) k)
      else if nr = 20 then
        Some (cpu, set_frame cpu (\<lambda>c. c\<lparr>ecx := getCurrentTaskPid k\<rparr>) k)
      else if nr = 2 then
        (case forkTask cpu k of
           None \<Rightarrow> None
         | Some (r, k1) \<Rightarrow> Some (Schedule cpu (set_frame cpu (\<lambda>c. c\<lparr>ecx := r\<rparr>) k1)))
      else Some (cpu, k))"

end
