(* ===== verification/Kernel_Interrupts.thy ===== *)
theory Kernel_Interrupts
  imports Kernel_Tasks
begin

text \<open>
  Interrupts of the kernel (os01, \<open>interrupts.cpp\<close>, \<open>interruptstubs.s\<close>): the gates of the
  interrupt descriptor table, the stub each vector enters and the number it reports, the handlers
  that are registered for a number, acknowledgement of hardware interrupts, and the start of the
  system in \<open>kernelMain\<close>. The address of a stub is chosen by the linker and is a parameter; writes
  to I/O ports are collected in a list.
\<close>

unbundle bit_operations_syntax

subsection \<open>Gates\<close>

record GateDescriptor =
  handlerAddressLowBits :: u16
  gdt_codeSegmentSelector :: u16
  reserved :: byte
  access :: byte
  handlerAddressHighBits :: u16

definition gate_descriptor :: "u16 \<Rightarrow> u32 \<Rightarrow> byte \<Rightarrow> byte \<Rightarrow> GateDescriptor" where
  "gate_descriptor CodeSegment handler DescriptorPrivilegeLevel DescriptorType =
     \<lparr>handlerAddressLowBits = ucast (handler AND 0xFFFF),
      gdt_codeSegmentSelector = CodeSegment,
      reserved = 0,
      access = 0x80 OR push_bit 5 (DescriptorPrivilegeLevel AND 3) OR DescriptorType,
      handlerAddressHighBits = ucast (drop_bit 16 handler AND 0xFFFF)\<rparr>"

text \<open>The stubs, and the interrupt number each of them stores before it enters the common code.\<close>

datatype stub = InterruptIgnore | HandleException byte | HandleInterruptRequest byte

definition stub_number :: "stub \<Rightarrow> byte option" where
  "stub_number s =
     (case s of
        InterruptIgnore \<Rightarrow> None
      | HandleException num \<Rightarrow> Some num
      | HandleInterruptRequest num \<Rightarrow> Some (num + 0x20))"

text \<open>The assignments of the constructor, in order; a vector number is narrowed to a byte.\<close>

definition vector_entries :: "u16 \<Rightarrow> (byte \<times> stub) list" where
  "vector_entries off =
     map (\<lambda>i. (of_nat i, InterruptIgnore)) (rev [1..<256]) @ [(0, InterruptIgnore)] @
     map (\<lambda>i. (of_nat i, HandleException (of_nat i))) [0..<0x14] @
     map (\<lambda>i. (ucast off + of_nat i, HandleInterruptRequest (of_nat i))) [0..<0x10] @
     [(0x80, HandleInterruptRequest 0x80)]"

definition vector_table :: "u16 \<Rightarrow> byte \<Rightarrow> stub option" where
  "vector_table off = fold (\<lambda>(i, s) t. t(i \<mapsto> s)) (vector_entries off) Map.empty"

definition idt_gate :: "(stub \<Rightarrow> u32) \<Rightarrow> u16 \<Rightarrow> byte \<Rightarrow> GateDescriptor option" where
  "idt_gate stub_addr off i =
     map_option (\<lambda>s. gate_descriptor CodeSegmentSelector (stub_addr s) 0 0xE) (vector_table off i)"

subsection \<open>The manager\<close>

datatype handler = SyscallHandler

record machine =
  kern :: kernel
  handlers :: "byte \<Rightarrow> handler option"
  hardwareInterruptOffset :: u16
  active :: bool
  ports :: "(u16 \<times> byte) list"

definition write_port :: "u16 \<Rightarrow> byte \<Rightarrow> machine \<Rightarrow> machine" where
  "write_port port b m = m\<lparr>ports := ports m @ [(port, b)]\<rparr>"

text \<open>The constructor programs the two interrupt controllers.\<close>

definition InterruptManager :: "u16 \<Rightarrow> machine \<Rightarrow> machine" where
  "InterruptManager off m =
     fold (\<lambda>(port, b). write_port port b)
       [(0x20, 0x11), (0xA0, 0x11), (0x21, ucast off), (0xA1, ucast off + 8),
        (0x21, 0x04), (0xA1, 0x02), (0x21, 0x01), (0xA1, 0x01), (0x21, 0x00), (0xA1, 0x00)]
       (m\<lparr>hardwareInterruptOffset := off, handlers := (\<lambda>_. None)\<rparr>)"

definition register_syscalls :: "byte \<Rightarrow> machine \<Rightarrow> machine" where
  "register_syscalls nr m =
     m\<lparr>handlers := (handlers m)(nr + ucast (hardwareInterruptOffset m) \<mapsto> SyscallHandler)\<rparr>"

definition Activate :: "machine \<Rightarrow> machine" where
  "Activate m = m\<lparr>active := True\<rparr>"

definition Deactivate :: "machine \<Rightarrow> machine" where
  "Deactivate m = (if active m then m\<lparr>active := False\<rparr> else m)"

subsection \<open>Handling an interrupt\<close>

definition acknowledge :: "byte \<Rightarrow> machine \<Rightarrow> machine" where
  "acknowledge interrupt m =
     (let i = uint interrupt; off = uint (hardwareInterruptOffset m) in
      if off \<le> i \<and> i < off + 16
      then (let m1 = write_port 0x20 0x20 m in
            if off + 8 \<le> i then write_port 0xA0 0x20 m1 else m1)
      else m)"

definition DoHandleInterrupt :: "byte \<Rightarrow> u32 \<Rightarrow> machine \<Rightarrow> (u32 \<times> machine) option" where
  "DoHandleInterrupt interrupt cpu m =
     (let is_timer = (uint interrupt = uint (hardwareInterruptOffset m)) in
      case
        (case handlers m interrupt of
           Some SyscallHandler \<Rightarrow> handle_syscall cpu (kern m)
         | None \<Rightarrow>
             Some (cpu, if is_timer then kern m
                        else (let k = print ''UNHANDLED INTERRUPT 0x'' (kern m)
                              in k\<lparr>screen := printfHex interrupt (screen k)\<rparr>)))
      of None \<Rightarrow> None
       | Some (cpu1, k1) \<Rightarrow>
           (case (if is_timer then Schedule cpu1 k1 else (cpu1, k1)) of
              (cpu2, k2) \<Rightarrow> Some (cpu2, acknowledge interrupt (m\<lparr>kern := k2\<rparr>))))"

definition HandleInterrupt :: "byte \<Rightarrow> u32 \<Rightarrow> machine \<Rightarrow> (u32 \<times> machine) option" where
  "HandleInterrupt interrupt cpu m =
     (if active m then DoHandleInterrupt interrupt cpu m else Some (cpu, m))"

subsection \<open>kernelMain\<close>

definition heap_base :: u32 where "heap_base = 10 * 1024 * 1024"

text \<open>
  \<open>memupper\<close> is the size the boot loader reports, in KiB; \<open>h\<close> and \<open>k\<close> are memory as it was before,
  \<open>init_task\<close> the address of the local variable, \<open>entry\<close> that of \<open>init\<close>.
\<close>

definition kernelMain ::
  "u32 \<Rightarrow> memory \<Rightarrow> u32 \<Rightarrow> u32 \<Rightarrow> u32 \<Rightarrow> kernel \<Rightarrow> machine option" where
  "kernelMain memupper h init_task g entry k =
     (let k1 = print ''Welcome to aydOS - Aydin Operating System! \<newline>'' (TaskManager k);
          mm = new_manager heap_base (memupper * 1024 - heap_base - 10 * 1024) h
      in case malloc 1024 mm of
           None \<Rightarrow> None
         | Some (p, mm1) \<Rightarrow>
             (let k2 = construct_task init_task g entry (k1\<lparr>memory_manager := Some mm1\<rparr>);
                  k3 = snd (AddTask init_task k2);
                  m = \<lparr>kern = k3, handlers = (\<lambda>_. None), hardwareInterruptOffset = 0, active = False,
                       ports = []\<rparr>;
                  m1 = Activate (register_syscalls 0x80 (InterruptManager 0x20 m))
              in Some (m1\<lparr>kern := print ''Interrupts activated...\<newline>'' (kern m1)\<rparr>)))"

end
