(* ===== verification/Kernel_Syscalls.thy ===== *)
theory Kernel_Syscalls
  imports Kernel_Interrupts
begin

text \<open>
  The system calls as a program makes them (os01, \<open>syscalls.cpp\<close>): \<open>int 0x80\<close> with the registers the
  inline assembly loads, through the interrupt table and its stub to the handler, and \<open>testExec\<close>
  (\<open>kernel.cpp\<close>), the test program that only makes calls of this kind.

  \<open>cpu\<close> is the address at which the frame of the interrupted program is pushed and \<open>regs\<close> holds its
  registers. A call gives the address of the frame that is resumed, which belongs to another task
  when the scheduler was called, and is \<open>None\<close> when the allocator never returns.
\<close>

definition int80 :: "u32 \<Rightarrow> CPUState \<Rightarrow> machine \<Rightarrow> (u32 \<times> machine) option" where
  "int80 cpu regs m =
     (case vector_table (hardwareInterruptOffset m) 0x80 of
        None \<Rightarrow> None
      | Some s \<Rightarrow>
          (case stub_number s of
             None \<Rightarrow> Some (cpu, m)
           | Some nr \<Rightarrow>
               HandleInterrupt nr cpu
                 (m\<lparr>kern := set_frame cpu (\<lambda>_. regs\<lparr>err_code := 0\<rparr>) (kern m)\<rparr>)))"

text \<open>The result of a call is the register \<open>ecx\<close> of the frame that is resumed.\<close>

definition getpid :: "u32 \<Rightarrow> CPUState \<Rightarrow> machine \<Rightarrow> (u32 \<times> u32 \<times> machine) option" where
  "getpid cpu regs m =
     (case int80 cpu (regs\<lparr>eax := 20\<rparr>) m of
        None \<Rightarrow> None
      | Some (cpu1, m1) \<Rightarrow> Some (ecx (frame_at (kern m1) cpu1), cpu1, m1))"

definition fork :: "u32 \<Rightarrow> CPUState \<Rightarrow> machine \<Rightarrow> (u32 \<times> machine) option" where
  "fork cpu regs m = int80 cpu (regs\<lparr>eax := 2\<rparr>) m"

definition exit :: "u32 \<Rightarrow> CPUState \<Rightarrow> machine \<Rightarrow> (u32 \<times> machine) option" where
  "exit cpu regs m = int80 cpu (regs\<lparr>eax := 1\<rparr>) m"

definition execve :: "u32 \<Rightarrow> u32 \<Rightarrow> CPUState \<Rightarrow> machine \<Rightarrow> (u32 \<times> machine) option" where
  "execve entrypoint cpu regs m = int80 cpu (regs\<lparr>eax := 11, ebx := entrypoint\<rparr>) m"

definition waitpid :: "u32 \<Rightarrow> u32 \<Rightarrow> CPUState \<Rightarrow> machine \<Rightarrow> (u32 \<times> machine) option" where
  "waitpid pid_t cpu regs m = int80 cpu (regs\<lparr>eax := 7, ebx := pid_t\<rparr>) m"

text \<open>
  \<open>testExec\<close>, while no other interrupt arrives. \<open>printfHex\<close> takes a byte, so the number of the
  process is narrowed.
\<close>

definition show_text :: "string \<Rightarrow> machine \<Rightarrow> machine" where
  "show_text s m = m\<lparr>kern := print s (kern m)\<rparr>"

definition show_hex :: "u32 \<Rightarrow> machine \<Rightarrow> machine" where
  "show_hex n m = m\<lparr>kern := (kern m)\<lparr>screen := printfHex (ucast n) (screen (kern m))\<rparr>\<rparr>"

definition testExec :: "u32 \<Rightarrow> CPUState \<Rightarrow> u32 \<Rightarrow> CPUState \<Rightarrow> machine \<Rightarrow> (u32 \<times> machine) option" where
  "testExec cpu regs cpu' regs' m =
     (case getpid cpu regs (show_text ''PID: '' (show_text ''Exec test is running...\<newline>'' m)) of
        None \<Rightarrow> None
      | Some (r, _, m1) \<Rightarrow>
          exit cpu' regs'
            (show_text ''Exec test is finished...\<newline>'' (show_text ''\<newline>'' (show_hex r m1))))"

end
