(* ===== verification/Kernel_Programs.thy ===== *)
theory Kernel_Programs
  imports Kernel_Syscalls
begin

text \<open>
  The user programs of the kernel that fork (os01, \<open>kernel.cpp\<close>): what one process does, as the list
  of its actions. A child shares the variable that \<open>fork\<close> fills with its parent, because its \<open>ebp\<close>
  still points into the parent's stack; so the value a process finds there after the call is an
  argument, taken to be the same at each of its reads. \<open>perform\<close> runs one action on the machine; an
  action after a call that does not come back is never reached.
\<close>

datatype entry = Collatz | TestExec

datatype user_action =
    Show string
  | Show_pid
  | Fork
  | Wait int
  | Exit
  | Execve entry
  | Sleep int
  | Long_run nat
  | Forever         \<comment> \<open>\<open>while (1);\<close>\<close>

text \<open>The passes of the busy loop; \<open>None\<close> when the product overflows, which is undefined.\<close>

definition sleep :: "int \<Rightarrow> nat option" where
  "sleep seconds = (let n = seconds * 100000000 in
     if - (2 ^ 31) \<le> n \<and> n < 2 ^ 31 then Some (nat n) else None)"

subsection \<open>The programs\<close>

definition testFork :: "int \<Rightarrow> user_action list" where
  "testFork childPid =
     Fork #
     (if childPid = -1 then [Show ''Fork failed...\<newline>'']
      else if childPid = 0 then [Show ''Child PID: '', Show_pid, Show ''\<newline>'']
      else [])"

text \<open>The rounds of the endless loop so far.\<close>

definition taskFork :: "int list \<Rightarrow> user_action list" where
  "taskFork pids = concat (map (\<lambda>p. testFork p @ [Show ''...Delay...\<newline>'', Sleep 10]) pids)"

definition testForkAndWaitpid :: "int \<Rightarrow> user_action list" where
  "testForkAndWaitpid childPid =
     Fork # Show ''WaitPid Test function...'' #
     (if childPid = -1 then [Show ''Fork failed...\<newline>'']
      else
        (if childPid = 0
         then [Show ''Child process is running...\<newline>'', Sleep 5,
               Show ''Child process is finished...\<newline>'', Exit]
         else [Show ''Parent process is waiting for child to finish...\<newline>'', Wait childPid,
               Show ''Parent process continues...\<newline>'']) @ [Forever])"

definition testForkExecWaitpid :: "int \<Rightarrow> user_action list" where
  "testForkExecWaitpid childPid =
     Fork #
     (if childPid = -1 then [Show ''Fork failed...\<newline>'']
      else if childPid = 0 then [Show ''Child process is running...\<newline>'', Execve TestExec]
      else [Show ''Parent process is waiting for child to finish...\<newline>'', Wait childPid,
            Show ''Parent process continues...\<newline>''])"

text \<open>\<open>init\<close>: the loop over the indices that are left, and what follows it.\<close>

fun init_loop :: "(nat \<Rightarrow> int) \<Rightarrow> (nat \<Rightarrow> int) \<Rightarrow> nat list \<Rightarrow> user_action list \<Rightarrow> user_action list" where
  "init_loop childPid1 childPid2 [] rest = rest"
| "init_loop childPid1 childPid2 (i # is) rest =
     Fork #
     (if childPid1 i = -1 then [Show ''Fork failed...\<newline>'']
      else
        (if childPid1 i = 0 then [Execve Collatz, Sleep 10, Show ''execve failed...\<newline>'', Exit] else []) @
        [Show ''Parent process is waiting for children to finish...\<newline>'', Wait (childPid1 i), Fork] @
        (if childPid2 i = -1 then [Show ''Fork failed...\<newline>'']
         else
           (if childPid2 i = 0
            then [Show ''******* Long running program is running *******\<newline>'', Long_run 1000]
            else [Wait (childPid2 i)]) @
           Show ''Init process continues...\<newline>'' # init_loop childPid1 childPid2 is rest))"

definition init :: "(nat \<Rightarrow> int) \<Rightarrow> (nat \<Rightarrow> int) \<Rightarrow> nat \<Rightarrow> user_action list" where
  "init childPid1 childPid2 idle = init_loop childPid1 childPid2 [0..<3] (replicate idle (Sleep 50))"

subsection \<open>An action on the machine\<close>

definition perform ::
  "(entry \<Rightarrow> u32) \<Rightarrow> u32 \<Rightarrow> CPUState \<Rightarrow> user_action \<Rightarrow> machine \<Rightarrow> (u32 \<times> machine) option" where
  "perform addr cpu regs a m =
     (case a of
        Show s \<Rightarrow> Some (cpu, show_text s m)
      | Show_pid \<Rightarrow> map_option (\<lambda>(r, cpu1, m1). (cpu1, show_hex r m1)) (getpid cpu regs m)
      | Fork \<Rightarrow> fork cpu regs m
      | Wait p \<Rightarrow> waitpid (of_int p) cpu regs m
      | Exit \<Rightarrow> exit cpu regs m
      | Execve e \<Rightarrow> execve (addr e) cpu regs m
      | Sleep s \<Rightarrow> map_option (\<lambda>_. (cpu, m)) (sleep s)
      | Long_run n \<Rightarrow> exit cpu regs
          (m\<lparr>kern := (kern m)\<lparr>screen := long_running_program n (screen (kern m))\<rparr>\<rparr>)
      | Forever \<Rightarrow> Some (cpu, m))"

end
