(* ===== verification/Kernel_Memory_Properties.thy ===== *)
theory Kernel_Memory_Properties
  imports Kernel_Memory
begin

text \<open>
  The abstraction of the kernel heap: the chunk list as a sequence of blocks that tile the managed
  region, \<open>malloc\<close> as first fit and \<open>free\<close> as coalescing on that sequence, the refinement
  between the two levels, and what follows for the programs that use the heap.
\<close>

subsection \<open>Blocks\<close>

record block =
  baddr :: u32
  bsize :: nat
  used :: bool

fun chunk_list :: "memory \<Rightarrow> u32 \<Rightarrow> u32 \<Rightarrow> block list \<Rightarrow> bool" where
  "chunk_list h prv p [] = (p = 0)"
| "chunk_list h prv p (b # bs) =
     (baddr b = p \<and> p \<noteq> 0 \<and> prev_chunk (h p) = prv \<and> unat (chunk_size (h p)) = bsize b \<and>
      allocated (h p) = used b \<and> chunk_list h p (next_chunk (h p)) bs)"

fun tiles :: "nat \<Rightarrow> block list \<Rightarrow> nat \<Rightarrow> bool" where
  "tiles pos [] e = (pos = e)"
| "tiles pos (b # bs) e = (unat (baddr b) = pos \<and> tiles (pos + 16 + bsize b) bs e)"

fun coalesced :: "block list \<Rightarrow> bool" where
  "coalesced (b # c # bs) = ((used b \<or> used c) \<and> coalesced (c # bs))"
| "coalesced bs = True"

subsection \<open>First fit and coalescing\<close>

fun spec_malloc :: "nat \<Rightarrow> block list \<Rightarrow> u32 \<times> block list" where
  "spec_malloc n [] = (0, [])"
| "spec_malloc n (b # bs) =
     (if n < bsize b \<and> \<not> used b
      then (baddr b + HEADER,
            (if n + 17 \<le> bsize b
             then [\<lparr>baddr = baddr b, bsize = n, used = True\<rparr>,
                   \<lparr>baddr = baddr b + HEADER + of_nat n, bsize = bsize b - n - 16, used = False\<rparr>]
             else [b\<lparr>used := True\<rparr>]) @ bs)
      else (case spec_malloc n bs of (p, bs') \<Rightarrow> (p, b # bs')))"

fun join_next :: "block \<Rightarrow> block list \<Rightarrow> block list" where
  "join_next b [] = [b]"
| "join_next b (c # bs) = (if used c then b # c # bs else b\<lparr>bsize := bsize b + 16 + bsize c\<rparr> # bs)"

definition marked_free :: "u32 \<Rightarrow> block list \<Rightarrow> block list" where
  "marked_free a bs = map (\<lambda>b. if baddr b = a then b\<lparr>used := False\<rparr> else b) bs"

fun release :: "u32 \<Rightarrow> block list \<Rightarrow> block list" where
  "release a (b # c # bs) =
     (if baddr b = a then join_next b (c # bs)
      else if baddr c = a \<and> \<not> used b then join_next (b\<lparr>bsize := bsize b + 16 + bsize c\<rparr>) bs
      else b # release a (c # bs))"
| "release a bs = bs"

definition spec_free :: "u32 \<Rightarrow> block list \<Rightarrow> block list" where
  "spec_free a bs = release a (marked_free a bs)"

subsection \<open>Addresses\<close>

lemma tiles_le: "tiles pos bs e \<Longrightarrow> pos \<le> e"
  by (induction pos bs e rule: tiles.induct) auto

lemma tiles_addr: "tiles pos bs e \<Longrightarrow> b \<in> set bs \<Longrightarrow> pos \<le> unat (baddr b) \<and> unat (baddr b) + 16 + bsize b \<le> e"
proof (induction pos bs e rule: tiles.induct)
  case (2 pos c bs e)
  from 2(2) tiles_le [of "pos + 16 + bsize c" bs e] have "pos + 16 + bsize c \<le> e" by simp
  with 2 show ?case by fastforce
qed simp

lemma chunk_list_frame:
  "chunk_list h prv p bs \<Longrightarrow> (\<And>b. b \<in> set bs \<Longrightarrow> h' (baddr b) = h (baddr b)) \<Longrightarrow> chunk_list h' prv p bs"
  by (induction h prv p bs rule: chunk_list.induct) auto

text \<open>The list behind a chunk does not depend on that chunk, and its head may get another predecessor.\<close>

lemma chunk_list_move:
  assumes "chunk_list h prv p bs" and "tiles pos bs e"
    and "\<And>x. pos \<le> unat x \<Longrightarrow> x \<noteq> p \<Longrightarrow> h' x = h x"
    and "p \<noteq> 0 \<Longrightarrow> h' p = (h p)\<lparr>prev_chunk := q\<rparr>"
  shows "chunk_list h' q p bs"
proof (cases bs)
  case (Cons b bs')
  with assms(1,2) have b: "p = baddr b" "unat p = pos" "p \<noteq> 0" by auto
  have "chunk_list h' p (next_chunk (h p)) bs'"
  proof (rule chunk_list_frame)
    show "chunk_list h p (next_chunk (h p)) bs'"
      using assms(1) unfolding Cons chunk_list.simps by blast
    fix c assume "c \<in> set bs'"
    with assms(2) Cons have "pos + 16 + bsize b \<le> unat (baddr c)"
      using tiles_addr [of "pos + 16 + bsize b" bs' e c] by simp
    with b show "h' (baddr c) = h (baddr c)" by (intro assms(3)) auto
  qed
  moreover have "h' p = (h p)\<lparr>prev_chunk := q\<rparr>" using b(3) by (rule assms(4))
  ultimately show ?thesis using assms(1) unfolding Cons chunk_list.simps by simp
qed (use assms in simp)

lemma chunk_list_head: "chunk_list h prv p bs \<Longrightarrow> p = 0 \<longleftrightarrow> bs = []"
  by (cases bs) auto

lemma unat_HEADER [simp]: "unat HEADER = 16"
  by (simp add: HEADER_def)

lemma unat_sum: "unat a + unat b < 2 ^ 32 \<Longrightarrow> unat (a + b :: u32) = unat a + unat b"
  by (simp add: unat_word_ariths)

lemma unat_diff: "unat b \<le> unat a \<Longrightarrow> unat (a - b :: u32) = unat a - unat b"
  by (simp add: unat_sub word_le_nat_alt)

text \<open>The test of the source does not wrap around for a chunk that lies in the region.\<close>

lemma split_test:
  assumes "unat n < unat s" and "unat s + 16 < 2 ^ 32"
  shows "n + HEADER + 1 \<le> s \<longleftrightarrow> unat n + 17 \<le> unat s"
proof -
  have "unat (n + HEADER) = unat n + 16" using assms by (simp add: unat_sum)
  moreover from this assms have "unat (n + HEADER + 1) = unat n + 17"
    using unat_sum [of "n + HEADER" 1] by simp
  ultimately show ?thesis by (simp add: word_le_nat_alt)
qed

subsection \<open>malloc refines first fit\<close>

lemma split_chunk_list:
  assumes repr: "chunk_list h prv p (b # bs)" and tiles: "tiles pos (b # bs) e"
    and small: "e < 2 ^ 32" and fits: "unat n + 17 \<le> bsize b"
  shows "chunk_list (split_chunk n p h) prv p
     (\<lparr>baddr = baddr b, bsize = unat n, used = used b\<rparr> #
      \<lparr>baddr = baddr b + HEADER + n, bsize = bsize b - unat n - 16, used = False\<rparr> # bs)"
    and "unat x < pos \<Longrightarrow> split_chunk n p h x = h x"
proof -
  define temp where "temp = p + HEADER + n"
  define after where "after = next_chunk (h p)"
  from repr tiles have p: "unat p = pos" "p \<noteq> 0" "p = baddr b" by auto
  have lim: "pos + 16 + bsize b \<le> e" using tiles tiles_le [of "pos + 16 + bsize b" bs e] by simp
  have temp: "unat temp = pos + 16 + unat n"
    unfolding temp_def using p lim small fits by (simp add: unat_sum)
  have list: "chunk_list h p after bs" using repr unfolding chunk_list.simps after_def by blast
  have tl: "tiles (pos + 16 + bsize b) bs e" using tiles by simp
  have after_pos: "after \<noteq> 0 \<Longrightarrow> unat after = pos + 16 + bsize b"
    using list tl by (cases bs) auto
  from temp fits p after_pos have ne: "temp \<noteq> p" "after \<noteq> 0 \<Longrightarrow> after \<noteq> p \<and> after \<noteq> temp" "temp \<noteq> 0"
    by (auto simp: unat_eq_zero)
  let ?h1 = "h(temp := \<lparr>next_chunk = after, prev_chunk = p, allocated = False,
                          chunk_size = chunk_size (h p) - n - HEADER\<rparr>)"
  let ?h2 = "if after \<noteq> 0 then ?h1(after := (?h1 after)\<lparr>prev_chunk := temp\<rparr>) else ?h1"
  let ?h3 = "?h2(p := (?h2 p)\<lparr>chunk_size := n, next_chunk := temp\<rparr>)"
  have h3: "split_chunk n p h = ?h3"
    by (simp add: split_chunk_def Let_def temp_def after_def)
  have size: "unat (chunk_size (h p)) = bsize b" using repr by simp
  then have "unat (chunk_size (h p) - n - HEADER) = bsize b - unat n - 16"
    using fits by (simp add: unat_diff)
  moreover have "chunk_list ?h3 temp after bs"
    by (rule chunk_list_move [OF list tl]) (use p temp fits ne after_pos in auto)
  moreover have "?h3 temp = \<lparr>next_chunk = after, prev_chunk = p, allocated = False,
      chunk_size = chunk_size (h p) - n - HEADER\<rparr>"
    using ne by auto
  moreover have "?h3 p = (h p)\<lparr>chunk_size := n, next_chunk := temp\<rparr>"
    using ne by auto
  ultimately show "chunk_list (split_chunk n p h) prv p
     (\<lparr>baddr = baddr b, bsize = unat n, used = used b\<rparr> #
      \<lparr>baddr = baddr b + HEADER + n, bsize = bsize b - unat n - 16, used = False\<rparr> # bs)"
    unfolding h3 using repr ne p by (simp add: temp_def)
  show "split_chunk n p h x = h x" if "unat x < pos"
    unfolding h3 using that p temp after_pos by auto
qed

lemma mark_allocated_list:
  assumes "chunk_list h prv p (b # bs)" and "tiles pos (b # bs) e"
  shows "chunk_list (mark_allocated p h) prv p (b\<lparr>used := True\<rparr> # bs)"
proof -
  have "chunk_list (mark_allocated p h) p (next_chunk (h p)) bs"
  proof (rule chunk_list_frame)
    show "chunk_list h p (next_chunk (h p)) bs" using assms(1) unfolding chunk_list.simps by blast
    fix c assume "c \<in> set bs"
    with assms tiles_addr [of "pos + 16 + bsize b" bs e c] have "baddr c \<noteq> p" by auto
    then show "mark_allocated p h (baddr c) = h (baddr c)" by (simp add: mark_allocated_def)
  qed
  with assms(1) show ?thesis by (simp add: mark_allocated_def)
qed

text \<open>What \<open>malloc\<close> leaves in memory once a chunk has been found.\<close>

definition take_chunk :: "u32 \<Rightarrow> u32 \<Rightarrow> memory \<Rightarrow> memory" where
  "take_chunk n chunk h =
     mark_allocated chunk (if n + HEADER + 1 \<le> chunk_size (h chunk) then split_chunk n chunk h else h)"

lemma take_chunk_list:
  assumes repr: "chunk_list h prv p (b # bs)" and tiles: "tiles pos (b # bs) e" and small: "e < 2 ^ 32"
    and fits: "unat n < bsize b"
  shows "chunk_list (take_chunk n p h) prv p
      ((if unat n + 17 \<le> bsize b
        then [\<lparr>baddr = baddr b, bsize = unat n, used = True\<rparr>,
              \<lparr>baddr = baddr b + HEADER + n, bsize = bsize b - unat n - 16, used = False\<rparr>]
        else [b\<lparr>used := True\<rparr>]) @ bs)"
    and "unat x < pos \<Longrightarrow> take_chunk n p h x = h x"
proof -
  have size: "unat (chunk_size (h p)) = bsize b" and pos: "unat p = pos" using repr tiles by auto
  have lim: "pos + 16 + bsize b \<le> e" using tiles tiles_le [of "pos + 16 + bsize b" bs e] by simp
  then have test: "n + HEADER + 1 \<le> chunk_size (h p) \<longleftrightarrow> unat n + 17 \<le> bsize b"
    using split_test [of n "chunk_size (h p)"] fits size small by simp
  show "chunk_list (take_chunk n p h) prv p
      ((if unat n + 17 \<le> bsize b
        then [\<lparr>baddr = baddr b, bsize = unat n, used = True\<rparr>,
              \<lparr>baddr = baddr b + HEADER + n, bsize = bsize b - unat n - 16, used = False\<rparr>]
        else [b\<lparr>used := True\<rparr>]) @ bs)"
  proof (cases "unat n + 17 \<le> bsize b")
    case True
    have far: "unat (baddr b + HEADER + n) = pos + 16 + unat n"
      using repr pos lim small True by (simp add: unat_sum)
    have "pos + 16 + unat n + 16 + (bsize b - unat n - 16) = pos + 16 + bsize b"
      using True by simp
    then have "tiles pos (\<lparr>baddr = baddr b, bsize = unat n, used = used b\<rparr> #
      \<lparr>baddr = baddr b + HEADER + n, bsize = bsize b - unat n - 16, used = False\<rparr> # bs) e"
      using tiles far unfolding tiles.simps block.simps by (simp add: ac_simps)
    from mark_allocated_list [OF split_chunk_list(1) [OF repr tiles small True] this]
    show ?thesis using True test by (simp add: take_chunk_def del: chunk_list.simps)
  next
    case False
    with mark_allocated_list [OF repr tiles] test show ?thesis by (simp add: take_chunk_def)
  qed
  show "take_chunk n p h x = h x" if "unat x < pos"
    using that pos split_chunk_list(2) [OF repr tiles small _ that] test
    by (auto simp: take_chunk_def mark_allocated_def)
qed

lemma find_chunk_refines:
  assumes "chunk_list h prv p bs" and "tiles pos bs e" and "e < 2 ^ 32"
  shows "\<exists>c. find_chunk h n p = Some c \<and>
    (c = 0 \<longrightarrow> spec_malloc (unat n) bs = (0, bs)) \<and>
    (c \<noteq> 0 \<longrightarrow> fst (spec_malloc (unat n) bs) = c + HEADER \<and>
      chunk_list (take_chunk n c h) prv p (snd (spec_malloc (unat n) bs)) \<and>
      (\<forall>x. unat x < pos \<longrightarrow> take_chunk n c h x = h x))"
  using assms
proof (induction bs arbitrary: prv p pos)
  case Nil
  then show ?case by (simp add: find_chunk.simps)
next
  case (Cons b bs)
  then have p: "p = baddr b" "p \<noteq> 0" "unat (chunk_size (h p)) = bsize b" "allocated (h p) = used b"
      "unat p = pos" "tiles (pos + 16 + bsize b) bs e"
    by auto
  have list: "chunk_list h p (next_chunk (h p)) bs"
    using Cons.prems(1) unfolding chunk_list.simps by blast
  show ?case
  proof (cases "unat n < bsize b \<and> \<not> used b")
    case True
    then have "find_chunk h n p = Some p"
      using p by (subst find_chunk.simps) (simp add: word_less_nat_alt)
    with True take_chunk_list [OF Cons.prems, of n] p show ?thesis by auto
  next
    case False
    then have find: "find_chunk h n p = find_chunk h n (next_chunk (h p))"
      using p by (subst find_chunk.simps) (auto simp: word_less_nat_alt)
    from Cons.IH [OF list p(6) Cons.prems(3)] obtain c where c: "find_chunk h n (next_chunk (h p)) = Some c"
      "c = 0 \<longrightarrow> spec_malloc (unat n) bs = (0, bs)"
      "c \<noteq> 0 \<longrightarrow> fst (spec_malloc (unat n) bs) = c + HEADER \<and>
        chunk_list (take_chunk n c h) p (next_chunk (h p)) (snd (spec_malloc (unat n) bs)) \<and>
        (\<forall>x. unat x < pos + 16 + bsize b \<longrightarrow> take_chunk n c h x = h x)"
      by blast
    moreover from c(3) p(5) have "c \<noteq> 0 \<longrightarrow> take_chunk n c h p = h p" by simp
    ultimately show ?thesis
      using False find Cons.prems(1) p by (auto simp: case_prod_beta)
  qed
qed

subsection \<open>free refines coalescing\<close>

lemma mark_free_list:
  "chunk_list h prv p bs \<Longrightarrow> chunk_list (mark_free a h) prv p (marked_free a bs)"
  by (induction h prv p bs rule: chunk_list.induct) (auto simp: mark_free_def marked_free_def)

lemma merge_next_list:
  assumes repr: "chunk_list h prv p (b # bs)" and tiles: "tiles pos (b # bs) e" and small: "e < 2 ^ 32"
  shows "chunk_list (merge_next p h) prv p (join_next b bs)"
    and "unat x < pos \<Longrightarrow> merge_next p h x = h x"
proof -
  from repr tiles have p: "unat p = pos" "p \<noteq> 0" "baddr b = p" by auto
  have "chunk_list (merge_next p h) prv p (join_next b bs) \<and>
    (\<forall>x. unat x < pos \<longrightarrow> merge_next p h x = h x)"
  proof (cases bs)
    case Nil
    with repr show ?thesis by (simp add: merge_next_def)
  next
    case (Cons c cs)
    define a where "a = next_chunk (h p)"
    define r where "r = next_chunk (h a)"
    from repr Cons have a: "baddr c = a" "a \<noteq> 0" "unat (chunk_size (h a)) = bsize c"
        "allocated (h a) = used c" "unat (chunk_size (h p)) = bsize b"
      by (auto simp: a_def)
    have list: "chunk_list h a r cs"
      using repr unfolding Cons chunk_list.simps a_def r_def by blast
    from tiles Cons a have tl: "unat a = pos + 16 + bsize b" "tiles (pos + 16 + bsize b + 16 + bsize c) cs e"
      by auto
    from tiles_le [OF tl(2)] have lim: "pos + 16 + bsize b + 16 + bsize c \<le> e" .
    have r: "r \<noteq> 0 \<Longrightarrow> unat r = pos + 16 + bsize b + 16 + bsize c"
      using list tl(2) by (cases cs) auto
    have ne: "a \<noteq> p" "r \<noteq> 0 \<Longrightarrow> r \<noteq> p" using p tl r by auto
    show ?thesis
    proof (cases "used c")
      case True
      with repr Cons a show ?thesis by (auto simp: merge_next_def a_def)
    next
      case False
      let ?h2 = "h(p := (h p)\<lparr>chunk_size := chunk_size (h p) + (chunk_size (h a) + HEADER),
                             next_chunk := r\<rparr>)"
      let ?h3 = "if r \<noteq> 0 then ?h2(r := (?h2 r)\<lparr>prev_chunk := p\<rparr>) else ?h2"
      have h3: "merge_next p h = ?h3"
        using False a ne unfolding merge_next_def Let_def a_def [symmetric] r_def
        by auto
      have "unat (chunk_size (h p) + (chunk_size (h a) + HEADER)) = bsize b + 16 + bsize c"
        using a lim small unat_sum [of "chunk_size (h a)" HEADER]
          unat_sum [of "chunk_size (h p)" "chunk_size (h a) + HEADER"] by simp
      moreover have "chunk_list ?h3 p r cs"
        by (rule chunk_list_move [OF list tl(2)]) (use p r ne in auto)
      moreover have "?h3 p = (h p)\<lparr>chunk_size := chunk_size (h p) + (chunk_size (h a) + HEADER),
                             next_chunk := r\<rparr>"
        using ne by auto
      moreover have "?h3 x = h x" if "unat x < pos" for x
        using that p r by auto
      ultimately show ?thesis
        unfolding h3 using repr Cons False p by (simp del: fun_upd_apply)
    qed
  qed
  then show "chunk_list (merge_next p h) prv p (join_next b bs)"
    and "unat x < pos \<Longrightarrow> merge_next p h x = h x" by auto
qed

text \<open>Merging a free chunk into the free one before it is merging the one before with its successor.\<close>

lemma merge_prev_is_next:
  assumes "chunk_list h prv p (b # c # bs)" and "tiles pos (b # c # bs) e"
    and "\<not> used b" and "\<not> used c"
  shows "merge_prev (baddr c) h = (p, merge_next p h)"
proof -
  define a where "a = baddr c"
  from assms have f: "p \<noteq> 0" "a \<noteq> 0" "next_chunk (h p) = a" "prev_chunk (h a) = p"
      "\<not> allocated (h p)" "\<not> allocated (h a)" "unat p = pos" "unat a = pos + 16 + bsize b"
    by (auto simp: a_def)
  have "chunk_list h a (next_chunk (h a)) bs" "tiles (pos + 16 + bsize b + 16 + bsize c) bs e"
    using assms(1,2) by (auto simp: a_def)
  then have "next_chunk (h a) \<noteq> 0 \<Longrightarrow> unat (next_chunk (h a)) = pos + 16 + bsize b + 16 + bsize c"
    by (cases bs) auto
  with f have ne: "a \<noteq> p" "next_chunk (h a) \<noteq> 0 \<Longrightarrow> next_chunk (h a) \<noteq> p \<and> next_chunk (h a) \<noteq> a"
    by auto
  show ?thesis
    unfolding a_def [symmetric] merge_prev_def merge_next_def Let_def
    using f ne by auto
qed

lemma merge_prev_stays:
  "prev_chunk (h a) = 0 \<or> allocated (h (prev_chunk (h a))) \<Longrightarrow> merge_prev a h = (a, h)"
  by (auto simp: merge_prev_def)

definition merge_both :: "u32 \<Rightarrow> memory \<Rightarrow> memory" where
  "merge_both a h = (case merge_prev a h of (c, h') \<Rightarrow> merge_next c h')"

lemma merge_both_list:
  assumes "chunk_list h prv p bs" and "tiles pos bs e" and "e < 2 ^ 32"
    and "a \<in> baddr ` set bs" and "\<And>b. b \<in> set bs \<Longrightarrow> baddr b = a \<Longrightarrow> \<not> used b"
    and "p = a \<Longrightarrow> prv = 0 \<or> allocated (h prv)"
  shows "chunk_list (merge_both a h) prv p (release a bs) \<and>
    (\<forall>x. unat x < pos \<longrightarrow> merge_both a h x = h x)"
  using assms
proof (induction a bs arbitrary: prv p pos rule: release.induct [case_names step none single])
  case (step a b c bs)
  note repr = step(2) and tiles = step(3) and small = step(4)
  from repr have p: "baddr b = p" "prev_chunk (h p) = prv" "allocated (h p) = used b" by auto
  consider "p = a" | "p \<noteq> a" "baddr c = a" "\<not> used b" | "p \<noteq> a" "baddr c \<noteq> a \<or> used b" by blast
  then show ?case
  proof cases
    case case1: 1
    with step(7) p have "merge_prev a h = (a, h)" by (intro merge_prev_stays) auto
    with case1 merge_next_list [OF repr tiles small] p show ?thesis
      by (auto simp: merge_both_def)
  next
    case 2
    with step(6) have "\<not> used c" by auto
    with merge_prev_is_next [OF repr tiles 2(3)] 2 have m: "merge_prev a h = (p, merge_next p h)" by simp
    let ?b = "b\<lparr>bsize := bsize b + 16 + bsize c\<rparr>"
    from merge_next_list [OF repr tiles small] \<open>\<not> used c\<close>
    have "chunk_list (merge_next p h) prv p (?b # bs)" and below: "\<forall>x. unat x < pos \<longrightarrow> merge_next p h x = h x"
      by (simp, blast)
    moreover have "tiles pos (?b # bs) e" using tiles by (simp add: ac_simps)
    ultimately show ?thesis
      using merge_next_list [of "merge_next p h" prv p ?b bs pos e] small 2 p m
      by (simp add: merge_both_def)
  next
    case 3
    have tl: "chunk_list h p (next_chunk (h p)) (c # bs)"
      using repr unfolding chunk_list.simps(2) [of h prv p b] by blast
    then have "next_chunk (h p) = a \<longrightarrow> baddr c = a" by simp
    with 3 p have "next_chunk (h p) = a \<Longrightarrow> p = 0 \<or> allocated (h p)" by auto
    moreover have "tiles (pos + 16 + bsize b) (c # bs) e" and pos: "unat p = pos" using tiles p by auto
    moreover have "a \<in> baddr ` set (c # bs)" using step(5) 3 p by auto
    ultimately have IH: "chunk_list (merge_both a h) p (next_chunk (h p)) (release a (c # bs))"
        "\<forall>x. unat x < pos + 16 + bsize b \<longrightarrow> merge_both a h x = h x"
      using step(1) [of p "next_chunk (h p)" "pos + 16 + bsize b"] tl small step(6) 3 p by auto
    then have "merge_both a h p = h p" using pos by simp
    with IH repr 3 p show ?thesis by auto
  qed
next
  case (single a b)
  from single have p: "baddr b = a" "p = a" by auto
  with single have "merge_prev a h = (a, h)" by (intro merge_prev_stays) auto
  then show ?case
    using merge_next_list [OF single(1-3)] p by (auto simp: merge_both_def)
qed simp

subsection \<open>The sequence of blocks under first fit and coalescing\<close>

definition busy :: "block list \<Rightarrow> (u32 \<times> nat) set" where
  "busy bs = {(baddr b, bsize b) |b. b \<in> set bs \<and> used b}"

lemma busy_simps [simp]:
  "busy [] = {}"
  "busy (b # bs) = (if used b then insert (baddr b, bsize b) (busy bs) else busy bs)"
  by (auto simp: busy_def)

lemma tiles_distinct: "tiles pos bs e \<Longrightarrow> distinct (map baddr bs)"
proof (induction pos bs e rule: tiles.induct)
  case (2 pos b bs e)
  then show ?case using tiles_addr [of "pos + 16 + bsize b" bs e] by fastforce
qed simp

lemma spec_malloc_tiles:
  "tiles pos bs e \<Longrightarrow> e < 2 ^ 32 \<Longrightarrow> tiles pos (snd (spec_malloc n bs)) e"
proof (induction bs arbitrary: pos)
  case (Cons b bs)
  show ?case
  proof (cases "n < bsize b \<and> \<not> used b \<and> n + 17 \<le> bsize b")
    case True
    from Cons.prems tiles_le [of "pos + 16 + bsize b" bs e] have lim: "pos + 16 + bsize b < 2 ^ 32" by simp
    with True have "unat (of_nat n :: u32) = n" by (simp add: unat_of_nat)
    with True Cons.prems lim have "unat (baddr b + HEADER + of_nat n) = pos + 16 + n"
      by (simp add: unat_sum)
    with True Cons.prems show ?thesis by (simp add: ac_simps)
  next
    case False
    with Cons show ?thesis by (auto simp: case_prod_beta)
  qed
qed simp

lemma spec_malloc_head:
  "bs \<noteq> [] \<Longrightarrow> snd (spec_malloc n bs) \<noteq> [] \<and>
    (used (hd bs) \<longrightarrow> used (hd (snd (spec_malloc n bs))))"
  by (cases bs) (auto simp: case_prod_beta)

lemma coalesced_Cons: "coalesced (b # bs) \<longleftrightarrow> (bs = [] \<or> used b \<or> used (hd bs)) \<and> coalesced bs"
  by (cases bs) auto

lemma spec_malloc_coalesced: "coalesced bs \<Longrightarrow> coalesced (snd (spec_malloc n bs))"
proof (induction bs)
  case (Cons b bs)
  show ?case
  proof (cases "n < bsize b \<and> \<not> used b")
    case True
    with Cons.prems show ?thesis by (auto simp: coalesced_Cons)
  next
    case False
    with Cons spec_malloc_head [of bs n] show ?thesis
      by (cases "bs = []") (auto simp: coalesced_Cons case_prod_beta)
  qed
qed simp

text \<open>What a successful first fit does: a free block larger than the request becomes busy.\<close>

definition taken :: "nat \<Rightarrow> block list \<Rightarrow> u32 \<Rightarrow> block list \<Rightarrow> bool" where
  "taken n bs p bs' =
     (\<exists>k b. n \<le> k \<and> b \<in> set bs \<and> \<not> used b \<and> n < bsize b \<and> p = baddr b + HEADER \<and> p \<noteq> 0 \<and>
            busy bs' = insert (baddr b, k) (busy bs))"

lemma taken_Cons:
  assumes "taken n bs p bs'"
  shows "taken n (b # bs) p (b # bs')"
proof -
  from assms obtain k c where kc: "n \<le> k" "c \<in> set bs" "\<not> used c" "n < bsize c" "p = baddr c + HEADER"
      "p \<noteq> 0" "busy bs' = insert (baddr c, k) (busy bs)"
    unfolding taken_def by blast
  then have "busy (b # bs') = insert (baddr c, k) (busy (b # bs))" by auto
  with kc show ?thesis unfolding taken_def by (intro exI [of _ k] exI [of _ c]) simp
qed

lemma spec_malloc_busy:
  assumes "tiles pos bs e" and "e < 2 ^ 32"
  shows "(spec_malloc n bs = (0, bs) \<and> (\<forall>b \<in> set bs. used b \<or> bsize b \<le> n)) \<or>
    taken n bs (fst (spec_malloc n bs)) (snd (spec_malloc n bs))"
  using assms(1)
proof (induction bs arbitrary: pos)
  case (Cons b bs)
  show ?case
  proof (cases "n < bsize b \<and> \<not> used b")
    case True
    from Cons.prems assms(2) tiles_le [of "pos + 16 + bsize b" bs e]
    have "unat (baddr b + HEADER) = pos + 16" by (simp add: unat_sum)
    then have ne: "baddr b + HEADER \<noteq> 0" by auto
    let ?k = "if n + 17 \<le> bsize b then n else bsize b"
    have "busy (snd (spec_malloc n (b # bs))) = insert (baddr b, ?k) (busy (b # bs))"
      "fst (spec_malloc n (b # bs)) = baddr b + HEADER" "n \<le> ?k"
      using True by simp_all
    with True ne show ?thesis unfolding taken_def
      by (intro disjI2 exI [of _ ?k] exI [of _ b]) (simp only: list.set_intros simp_thms)
  next
    case False
    then have rec: "spec_malloc n (b # bs) = (fst (spec_malloc n bs), b # snd (spec_malloc n bs))"
      by (auto simp: case_prod_beta)
    from Cons.prems have "tiles (pos + 16 + bsize b) bs e" by simp
    from Cons.IH [OF this] show ?thesis
    proof
      assume "spec_malloc n bs = (0, bs) \<and> (\<forall>b \<in> set bs. used b \<or> bsize b \<le> n)"
      with False rec show ?thesis by auto
    next
      assume "taken n bs (fst (spec_malloc n bs)) (snd (spec_malloc n bs))"
      from taken_Cons [OF this, of b] show ?thesis by (simp only: rec fst_conv snd_conv simp_thms)
    qed
  qed
qed simp

lemma marked_free_addr [simp]: "map baddr (marked_free a bs) = map baddr bs"
  by (simp add: marked_free_def)

lemma marked_free_simps [simp]:
  "marked_free a [] = []"
  "marked_free a (b # bs) = (if baddr b = a then b\<lparr>used := False\<rparr> else b) # marked_free a bs"
  by (simp_all add: marked_free_def)

lemma marked_free_unused: "\<forall>b \<in> set (marked_free a bs). baddr b = a \<longrightarrow> \<not> used b"
  by (induction bs) simp_all

lemma marked_free_tiles [simp]: "tiles pos (marked_free a bs) e = tiles pos bs e"
  by (induction pos bs e rule: tiles.induct) auto

lemma marked_free_busy: "busy (marked_free a bs) = {x \<in> busy bs. fst x \<noteq> a}"
proof (induction bs)
  case (Cons b bs)
  have "{x \<in> insert y S. fst x \<noteq> a} =
      (if fst y = a then {x \<in> S. fst x \<noteq> a} else insert y {x \<in> S. fst x \<noteq> a})"
    for y :: "u32 \<times> nat" and S
    by auto
  with Cons show ?case by simp
qed simp

lemma marked_free_id: "a \<notin> baddr ` set bs \<Longrightarrow> marked_free a bs = bs"
  by (induction bs) auto

lemma join_next_tiles: "tiles pos (b # bs) e \<Longrightarrow> tiles pos (join_next b bs) e"
  by (cases bs) (auto simp: ac_simps)

lemma join_next_busy: "\<not> used b \<Longrightarrow> busy (join_next b bs) = busy bs"
  by (cases bs) auto

lemma release_tiles: "tiles pos bs e \<Longrightarrow> tiles pos (release a bs) e"
proof (induction a bs arbitrary: pos rule: release.induct)
  case (1 a b c bs)
  have merged: "tiles pos (b\<lparr>bsize := bsize b + 16 + bsize c\<rparr> # bs) e"
    using 1(2) by (simp add: ac_simps)
  have "tiles (pos + 16 + bsize b) (c # bs) e" using 1(2) by simp
  with 1 join_next_tiles [OF 1(2)] join_next_tiles [OF merged] show ?case by simp
qed simp_all

lemma release_busy:
  "\<forall>b \<in> set bs. baddr b = a \<longrightarrow> \<not> used b \<Longrightarrow> busy (release a bs) = busy bs"
proof (induction a bs rule: release.induct)
  case (1 a b c bs)
  consider "baddr b = a" | "baddr b \<noteq> a" "baddr c = a \<and> \<not> used b"
    | "baddr b \<noteq> a" "\<not> (baddr c = a \<and> \<not> used b)" by blast
  then show ?case
  proof cases
    case 3
    with 1 have "busy (release a (c # bs)) = busy (c # bs)" by simp
    with 3 show ?thesis by simp
  qed (use 1(2) in \<open>simp_all add: join_next_busy\<close>)
qed simp_all

lemma release_head:
  "bs \<noteq> [] \<Longrightarrow> release a bs \<noteq> [] \<and> used (hd (release a bs)) = used (hd bs)"
proof (induction a bs rule: release.induct)
  case (1 a b c bs)
  have "join_next x ys \<noteq> [] \<and> used (hd (join_next x ys)) = used x" for x ys
    by (cases ys) auto
  then show ?case by auto
qed simp_all

text \<open>The list is coalesced but for the pairs the block at \<open>a\<close> belongs to.\<close>

fun coalesced_but :: "u32 \<Rightarrow> block list \<Rightarrow> bool" where
  "coalesced_but a (b # c # bs) =
     ((used b \<or> used c \<or> baddr b = a \<or> baddr c = a) \<and> coalesced_but a (c # bs))"
| "coalesced_but a bs = True"

lemma coalesced_but_away: "coalesced_but a bs \<Longrightarrow> a \<notin> baddr ` set bs \<Longrightarrow> coalesced bs"
  by (induction a bs rule: coalesced_but.induct) auto

lemma marked_free_coalesced: "coalesced bs \<Longrightarrow> coalesced_but a (marked_free a bs)"
  by (induction bs rule: coalesced.induct) auto

lemma coalesced_join:
  "\<not> used b \<Longrightarrow> coalesced bs \<Longrightarrow> coalesced (join_next b bs)"
  by (cases bs) (auto simp: coalesced_Cons)

lemma release_coalesced:
  "coalesced_but a bs \<Longrightarrow> distinct (map baddr bs) \<Longrightarrow>
   \<forall>b \<in> set bs. baddr b = a \<longrightarrow> \<not> used b \<Longrightarrow> coalesced (release a bs)"
proof (induction a bs rule: release.induct)
  case (1 a b c bs)
  consider "baddr b = a" | "baddr b \<noteq> a" "baddr c = a" "\<not> used b"
    | "baddr b \<noteq> a" "baddr c \<noteq> a \<or> used b" by blast
  then show ?case
  proof cases
    case case1: 1
    with 1 have "\<not> used b" by auto
    moreover from case1 1(3) have "a \<notin> baddr ` set (c # bs)" by auto
    with 1(2) have "coalesced (c # bs)" by (intro coalesced_but_away) auto
    ultimately have "coalesced (join_next b (c # bs))" by (rule coalesced_join)
    with case1 show ?thesis by simp
  next
    case 2
    with 1(3) have "a \<notin> baddr ` set bs" by auto
    moreover have "coalesced_but a bs" using 1(2) by (cases bs) auto
    ultimately have "coalesced bs" by (intro coalesced_but_away)
    with 2 have "coalesced (join_next (b\<lparr>bsize := bsize b + 16 + bsize c\<rparr>) bs)"
      by (intro coalesced_join) auto
    with 2 show ?thesis by simp
  next
    case 3
    with 1 have "coalesced (release a (c # bs))" by auto
    moreover have "used b \<or> used c"
      using 3 1(2) by auto
    ultimately show ?thesis
      using 3 release_head [of "c # bs" a] by (auto simp: coalesced_Cons)
  qed
qed simp_all

lemma spec_free_facts:
  assumes "tiles pos bs e" and "coalesced bs"
  shows "tiles pos (spec_free a bs) e" and "coalesced (spec_free a bs)"
    and "busy (spec_free a bs) = {x \<in> busy bs. fst x \<noteq> a}"
proof -
  note free = marked_free_unused
  show "tiles pos (spec_free a bs) e"
    unfolding spec_free_def by (rule release_tiles) (simp add: assms(1))
  show "coalesced (spec_free a bs)"
    unfolding spec_free_def
    by (rule release_coalesced [OF marked_free_coalesced [OF assms(2)] _ free])
      (simp add: tiles_distinct [OF assms(1)])
  show "busy (spec_free a bs) = {x \<in> busy bs. fst x \<noteq> a}"
    unfolding spec_free_def by (simp add: release_busy [OF free] marked_free_busy)
qed

subsection \<open>The two levels\<close>

text \<open>The manager at the region from \<open>start\<close> to \<open>e\<close> holds the blocks \<open>bs\<close>.\<close>

definition heap_blocks :: "MemoryManager \<Rightarrow> nat \<Rightarrow> nat \<Rightarrow> block list \<Rightarrow> bool" where
  "heap_blocks m start e bs =
     (chunk_list (memory m) 0 (first_chunk m) bs \<and> tiles start bs e \<and> coalesced bs \<and>
      0 < start \<and> e < 2 ^ 32)"

lemma new_manager_blocks:
  assumes "16 \<le> unat n" and "0 < unat start" and "unat start + unat n < 2 ^ 32"
  shows "heap_blocks (new_manager start n h) (unat start) (unat start + unat n)
    [\<lparr>baddr = start, bsize = unat n - 16, used = False\<rparr>]"
proof -
  have "\<not> n < HEADER" using assms(1) by (simp add: word_less_nat_alt)
  moreover have "unat (n - HEADER) = unat n - 16" using assms(1) by (simp add: unat_diff)
  moreover have "start \<noteq> 0" using assms(2) by auto
  ultimately show ?thesis using assms by (simp add: heap_blocks_def new_manager_def)
qed

lemma malloc_refines:
  assumes "heap_blocks m start e bs"
  shows "\<exists>m'. malloc n m = Some (fst (spec_malloc (unat n) bs), m') \<and>
    heap_blocks m' start e (snd (spec_malloc (unat n) bs))"
proof -
  from assms have list: "chunk_list (memory m) 0 (first_chunk m) bs" and tiles: "tiles start bs e"
    and "coalesced bs" and small: "e < 2 ^ 32" and "0 < start"
    by (auto simp: heap_blocks_def)
  with find_chunk_refines [OF list tiles small, of n] obtain c where
    c: "find_chunk (memory m) n (first_chunk m) = Some c"
    "c = 0 \<Longrightarrow> spec_malloc (unat n) bs = (0, bs)"
    "c \<noteq> 0 \<Longrightarrow> fst (spec_malloc (unat n) bs) = c + HEADER"
    "c \<noteq> 0 \<Longrightarrow> chunk_list (take_chunk n c (memory m)) 0 (first_chunk m) (snd (spec_malloc (unat n) bs))"
    by blast
  show ?thesis
  proof (cases "c = 0")
    case True
    with c assms show ?thesis by (simp add: malloc_def)
  next
    case False
    with c have "malloc n m = Some (fst (spec_malloc (unat n) bs), m\<lparr>memory := take_chunk n c (memory m)\<rparr>)"
      by (simp add: malloc_def take_chunk_def Let_def)
    with False c(4) spec_malloc_tiles [OF tiles small] spec_malloc_coalesced [OF \<open>coalesced bs\<close>]
      small \<open>0 < start\<close>
    show ?thesis by (simp add: heap_blocks_def)
  qed
qed

lemma free_refines:
  assumes "heap_blocks m start e bs" and "a \<in> baddr ` set bs"
  shows "heap_blocks (free (a + HEADER) m) start e (spec_free a bs)"
proof -
  from assms have list: "chunk_list (memory m) 0 (first_chunk m) bs" and tiles: "tiles start bs e"
    and co: "coalesced bs" and small: "e < 2 ^ 32" and "0 < start"
    by (auto simp: heap_blocks_def)
  let ?bs = "marked_free a bs"
  have "memory (free (a + HEADER) m) = merge_both a (mark_free a (memory m))"
    by (simp add: free_def free_chunk_def merge_both_def)
  moreover have "chunk_list (merge_both a (mark_free a (memory m))) 0 (first_chunk m) (release a ?bs)"
  proof -
    have "a \<in> baddr ` set ?bs" using assms(2) by (metis list.set_map marked_free_addr)
    moreover have "\<not> used b" if "b \<in> set ?bs" "baddr b = a" for b
      using that marked_free_unused by blast
    ultimately show ?thesis
      using merge_both_list [OF mark_free_list [OF list, of a], of start e a] tiles small by simp
  qed
  ultimately show ?thesis
    using spec_free_facts [OF tiles co, of a] small \<open>0 < start\<close>
    by (simp add: heap_blocks_def spec_free_def) (simp add: free_def)
qed

subsection \<open>Programs on the heap\<close>

text \<open>
  A run of the kernel: the manager and the pointers handed out and not yet given back, with the
  sizes that were asked for. A program may write anything into its own blocks: then every
  header-sized piece of memory that overlaps the block may change.
\<close>

record heap_run =
  manager :: MemoryManager
  live :: "(u32 \<times> u32) list"

inductive heap_step :: "heap_run \<Rightarrow> heap_run \<Rightarrow> bool" where
  alloc: "malloc n (manager s) = Some (p, m) \<Longrightarrow>
    heap_step s (s\<lparr>manager := m, live := (if p = 0 then live s else (p, n) # live s)\<rparr>)"
| dealloc: "(p, n) \<in> set (live s) \<Longrightarrow>
    heap_step s (s\<lparr>manager := free p (manager s), live := filter (\<lambda>x. fst x \<noteq> p) (live s)\<rparr>)"
| scribble: "(p, n) \<in> set (live s) \<Longrightarrow>
    (\<And>x. unat x + 16 \<le> unat p \<or> unat p + unat n \<le> unat x \<Longrightarrow> h x = memory (manager s) x) \<Longrightarrow>
    heap_step s (s\<lparr>manager := (manager s)\<lparr>memory := h\<rparr>\<rparr>)"

definition heap_start :: "u32 \<Rightarrow> u32 \<Rightarrow> heap_run \<Rightarrow> bool" where
  "heap_start start n s =
     (16 \<le> unat n \<and> 0 < unat start \<and> unat start + unat n < 2 ^ 32 \<and>
      (\<exists>h. manager s = new_manager start n h) \<and> live s = [])"

definition live_ok :: "block list \<Rightarrow> (u32 \<times> u32) list \<Rightarrow> bool" where
  "live_ok bs l =
     (distinct (map fst l) \<and> fst ` set l = (\<lambda>x. fst x + HEADER) ` busy bs \<and>
      (\<forall>p k. (p, k) \<in> set l \<longrightarrow> (\<exists>a j. (a, j) \<in> busy bs \<and> p = a + HEADER \<and> unat k \<le> j)))"

definition heap_inv :: "u32 \<Rightarrow> u32 \<Rightarrow> heap_run \<Rightarrow> bool" where
  "heap_inv start n s =
     (\<exists>bs. heap_blocks (manager s) (unat start) (unat start + unat n) bs \<and> live_ok bs (live s))"

lemma busy_addr: "(a, j) \<in> busy bs \<Longrightarrow> a \<in> baddr ` set bs"
  by (auto simp: busy_def)

lemma live_ok_insert:
  assumes "live_ok bs l" and "unat k \<le> j" and "p = a + HEADER" and "p \<notin> fst ` set l"
    and "busy bs' = insert (a, j) (busy bs)"
  shows "live_ok bs' ((p, k) # l)"
  unfolding live_ok_def
proof (intro conjI allI impI)
  show "distinct (map fst ((p, k) # l))" using assms(1,4) by (simp add: live_ok_def)
  show "fst ` set ((p, k) # l) = (\<lambda>x. fst x + HEADER) ` busy bs'"
    using assms(1,3,5) by (simp add: live_ok_def)
  fix q i assume "(q, i) \<in> set ((p, k) # l)"
  then consider "q = p" "i = k" | "(q, i) \<in> set l" by auto
  then show "\<exists>a j. (a, j) \<in> busy bs' \<and> q = a + HEADER \<and> unat i \<le> j"
  proof cases
    case 1
    with assms(2,3,5) show ?thesis by blast
  next
    case 2
    with assms(1) obtain a' j' where "(a', j') \<in> busy bs" "q = a' + HEADER" "unat i \<le> j'"
      unfolding live_ok_def by blast
    with assms(5) show ?thesis by blast
  qed
qed

lemma alloc_inv:
  assumes "heap_inv start n s" and "malloc k (manager s) = Some (p, m)"
  shows "heap_inv start n (s\<lparr>manager := m, live := (if p = 0 then live s else (p, k) # live s)\<rparr>)"
proof -
  let ?e = "unat start + unat n"
  from assms(1) obtain bs where bs: "heap_blocks (manager s) (unat start) ?e bs" "live_ok bs (live s)"
    by (auto simp: heap_inv_def)
  then have tiles: "tiles (unat start) bs ?e" "?e < 2 ^ 32" by (auto simp: heap_blocks_def)
  from malloc_refines [OF bs(1), of k] assms(2)
  have p: "p = fst (spec_malloc (unat k) bs)"
    and m: "heap_blocks m (unat start) ?e (snd (spec_malloc (unat k) bs))" by auto
  from spec_malloc_busy [OF tiles, of "unat k"] show ?thesis
  proof
    assume "spec_malloc (unat k) bs = (0, bs) \<and> (\<forall>b \<in> set bs. used b \<or> bsize b \<le> unat k)"
    with p m bs(2) show ?thesis unfolding heap_inv_def by auto
  next
    assume "taken (unat k) bs (fst (spec_malloc (unat k) bs)) (snd (spec_malloc (unat k) bs))"
    then obtain j b where b: "unat k \<le> j" "b \<in> set bs" "\<not> used b" "p = baddr b + HEADER" "p \<noteq> 0"
      "busy (snd (spec_malloc (unat k) bs)) = insert (baddr b, j) (busy bs)"
      unfolding taken_def p by blast
    have "p \<notin> fst ` set (live s)"
    proof
      assume "p \<in> fst ` set (live s)"
      then obtain j' where "(baddr b, j') \<in> busy bs"
        using bs(2) b(4) by (auto simp: live_ok_def)
      then obtain c where "c \<in> set bs" "baddr c = baddr b" "used c" by (auto simp: busy_def)
      with b(2,3) tiles_distinct [OF tiles(1)] show False
        by (metis distinct_map inj_onD)
    qed
    with bs(2) b(1,4,6) have "live_ok (snd (spec_malloc (unat k) bs)) ((p, k) # live s)"
      by (intro live_ok_insert)
    with m b(5) show ?thesis unfolding heap_inv_def by auto
  qed
qed

lemma dealloc_inv:
  assumes "heap_inv start n s" and "(p, k) \<in> set (live s)"
  shows "heap_inv start n
    (s\<lparr>manager := free p (manager s), live := filter (\<lambda>x. fst x \<noteq> p) (live s)\<rparr>)"
proof -
  let ?e = "unat start + unat n"
  from assms(1) obtain bs where bs: "heap_blocks (manager s) (unat start) ?e bs" "live_ok bs (live s)"
    by (auto simp: heap_inv_def)
  from bs(2) assms(2) obtain a j where a: "(a, j) \<in> busy bs" "p = a + HEADER"
    unfolding live_ok_def by blast
  have m: "heap_blocks (free p (manager s)) (unat start) ?e (spec_free a bs)"
    using free_refines [OF bs(1) busy_addr [OF a(1)]] a(2) by simp
  have busy: "busy (spec_free a bs) = {x \<in> busy bs. fst x \<noteq> a}"
    using spec_free_facts(3) bs(1) by (auto simp: heap_blocks_def)
  have "live_ok (spec_free a bs) (filter (\<lambda>x. fst x \<noteq> p) (live s))"
    unfolding live_ok_def busy
  proof (intro conjI allI impI)
    show "distinct (map fst (filter (\<lambda>x. fst x \<noteq> p) (live s)))"
      using bs(2) by (auto simp: live_ok_def intro: distinct_map_filter)
    have "fst ` set (filter (\<lambda>x. fst x \<noteq> p) (live s)) = fst ` set (live s) - {p}" by auto
    also have "\<dots> = (\<lambda>x. fst x + HEADER) ` busy bs - {p}"
      using bs(2) by (simp add: live_ok_def)
    finally show "fst ` set (filter (\<lambda>x. fst x \<noteq> p) (live s)) =
        (\<lambda>x. fst x + HEADER) ` {x \<in> busy bs. fst x \<noteq> a}"
      using a(2) by auto
    fix q l assume "(q, l) \<in> set (filter (\<lambda>x. fst x \<noteq> p) (live s))"
    then have "(q, l) \<in> set (live s)" "q \<noteq> p" by auto
    with bs(2) obtain c i where "(c, i) \<in> busy bs" "q = c + HEADER" "unat l \<le> i"
      unfolding live_ok_def by blast
    with \<open>q \<noteq> p\<close> a(2) show "\<exists>a' j. (a', j) \<in> {x \<in> busy bs. fst x \<noteq> a} \<and> q = a' + HEADER \<and> unat l \<le> j"
      by auto
  qed
  with m show ?thesis by (auto simp: heap_inv_def)
qed

text \<open>A block that lies elsewhere does not overlap the header of any chunk.\<close>

lemma busy_payload:
  assumes "tiles pos bs e" and "(a, j) \<in> busy bs" and "b \<in> set bs" and "k \<le> j"
  shows "unat (baddr b) + 16 \<le> unat a + 16 \<or> unat a + 16 + k \<le> unat (baddr b)"
  using assms
proof (induction pos bs e rule: tiles.induct)
  case (2 pos c bs e)
  then have tl: "tiles (pos + 16 + bsize c) bs e" and pos: "unat (baddr c) = pos" by auto
  show ?case
  proof (cases "b = c")
    case True
    then have "pos \<le> unat a" if "(a, j) \<in> busy bs"
      using that tiles_addr [OF tl] by (fastforce simp: busy_def)
    with True 2(3) pos show ?thesis by (auto split: if_splits)
  next
    case False
    with 2(4) have b: "b \<in> set bs" by simp
    show ?thesis
    proof (cases "(a, j) \<in> busy bs")
      case True
      with 2(1) [OF tl] b 2(5) show ?thesis by blast
    next
      case ac: False
      with 2(3) have "a = baddr c" "j = bsize c" by (auto split: if_splits)
      with tiles_addr [OF tl b] pos 2(5) show ?thesis by auto
    qed
  qed
qed simp

lemma scribble_inv:
  assumes "heap_inv start n s" and "(p, k) \<in> set (live s)"
    and "\<And>x. unat x + 16 \<le> unat p \<or> unat p + unat k \<le> unat x \<Longrightarrow> h x = memory (manager s) x"
  shows "heap_inv start n (s\<lparr>manager := (manager s)\<lparr>memory := h\<rparr>\<rparr>)"
proof -
  let ?e = "unat start + unat n"
  from assms(1) obtain bs where bs: "heap_blocks (manager s) (unat start) ?e bs" "live_ok bs (live s)"
    by (auto simp: heap_inv_def)
  from bs(2) assms(2) obtain a j where a: "(a, j) \<in> busy bs" "p = a + HEADER" "unat k \<le> j"
    unfolding live_ok_def by blast
  from bs(1) have tiles: "tiles (unat start) bs ?e" and small: "?e < 2 ^ 32" by (auto simp: heap_blocks_def)
  have "unat a + 16 + j \<le> ?e" using tiles_addr [OF tiles] a(1) by (fastforce simp: busy_def)
  with a(2) small have p: "unat p = unat a + 16" by (simp add: unat_sum)
  have "chunk_list h 0 (first_chunk (manager s)) bs"
  proof (rule chunk_list_frame)
    show "chunk_list (memory (manager s)) 0 (first_chunk (manager s)) bs"
      using bs(1) by (simp add: heap_blocks_def)
    fix b assume "b \<in> set bs"
    with busy_payload [OF tiles a(1) _ a(3)] p
    have "unat (baddr b) + 16 \<le> unat p \<or> unat p + unat k \<le> unat (baddr b)" by simp
    then show "h (baddr b) = memory (manager s) (baddr b)" by (rule assms(3))
  qed
  with bs show ?thesis by (auto simp: heap_inv_def heap_blocks_def)
qed

interpretation heap: inductive_invariant "heap_start start n" heap_step "heap_inv start n" for start n
proof unfold_locales
  fix s assume "heap_start start n s"
  then obtain h where "heap_blocks (manager s) (unat start) (unat start + unat n)
      [\<lparr>baddr = start, bsize = unat n - 16, used = False\<rparr>]" and "live s = []"
    unfolding heap_start_def using new_manager_blocks by metis
  moreover from this have "live_ok [\<lparr>baddr = start, bsize = unat n - 16, used = False\<rparr>] (live s)"
    by (simp add: live_ok_def)
  ultimately show "heap_inv start n s" unfolding heap_inv_def by blast
next
  fix s t assume inv: "heap_inv start n s" and "heap_step s t"
  from this(2) show "heap_inv start n t"
  proof cases
    case (alloc k p m)
    with alloc_inv [OF inv alloc(2)] show ?thesis by simp
  next
    case (dealloc p k)
    with dealloc_inv [OF inv dealloc(2)] show ?thesis by simp
  next
    case (scribble p k h)
    with scribble_inv [OF inv scribble(2), of h] show ?thesis by simp
  qed
qed


subsection \<open>Giving a block back\<close>

lemma marked_free_other: "a \<notin> baddr ` set bs \<Longrightarrow> marked_free a bs = bs"
  by (induction bs) auto

lemma join_next_used: "coalesced (b # bs) \<Longrightarrow> \<not> used b \<Longrightarrow> join_next b bs = b # bs"
  by (cases bs) auto

lemma release_head_block: "baddr b = a \<Longrightarrow> release a (b # bs) = join_next b bs"
  by (cases bs) auto

lemma release_skip:
  "baddr b \<noteq> a \<Longrightarrow> bs \<noteq> [] \<Longrightarrow> baddr (hd bs) \<noteq> a \<or> used b \<Longrightarrow> release a (b # bs) = b # release a bs"
  by (cases bs) auto

lemma marked_free_head: "bs \<noteq> [] \<Longrightarrow> baddr (hd (marked_free a bs)) = baddr (hd bs)"
  by (cases bs) auto

lemma spec_malloc_first: "bs \<noteq> [] \<Longrightarrow> baddr (hd (snd (spec_malloc n bs))) = baddr (hd bs)"
  by (cases bs) (auto simp: case_prod_beta)

lemma spec_malloc_pointer:
  "fst (spec_malloc n bs) \<noteq> 0 \<Longrightarrow>
   \<exists>b \<in> set bs. fst (spec_malloc n bs) = baddr b + HEADER \<and> \<not> used b"
  by (induction bs) (auto simp: case_prod_beta split: if_splits)

lemma spec_free_malloc:
  assumes "tiles pos bs e" and "coalesced bs" and "fst (spec_malloc n bs) = a + HEADER"
    and "fst (spec_malloc n bs) \<noteq> 0"
  shows "spec_free a (snd (spec_malloc n bs)) = bs"
  using assms
proof (induction bs arbitrary: pos)
  case (Cons b bs)
  have other: "baddr b \<notin> baddr ` set bs" using tiles_distinct [OF Cons.prems(1)] by simp
  show ?case
  proof (cases "n < bsize b \<and> \<not> used b")
    case True
    with Cons.prems(3) have a: "a = baddr b" by simp
    show ?thesis
    proof (cases "n + 17 \<le> bsize b")
      case split: True
      let ?rest = "\<lparr>baddr = a + HEADER + of_nat n, bsize = bsize b - n - 16, used = False\<rparr>"
      have "spec_free a (snd (spec_malloc n (b # bs))) =
          join_next \<lparr>baddr = a, bsize = n, used = False\<rparr> (marked_free a (?rest # bs))"
        using True split a by (simp add: spec_free_def release_head_block)
      also have "\<dots> = b # bs"
        using True split a other by (cases b) (simp add: marked_free_other)
      finally show ?thesis .
    next
      case False
      have "spec_free a (snd (spec_malloc n (b # bs))) = join_next (b\<lparr>used := False\<rparr>) bs"
        using True False a other by (simp add: spec_free_def release_head_block marked_free_other)
      also have "b\<lparr>used := False\<rparr> = b" using True by (cases b) simp
      finally show ?thesis using join_next_used [OF Cons.prems(2)] True by simp
    qed
  next
    case False
    let ?bs' = "snd (spec_malloc n bs)"
    from False Cons.prems(3,4) have p: "fst (spec_malloc n bs) = a + HEADER" "fst (spec_malloc n bs) \<noteq> 0"
      by (auto simp: case_prod_beta split: if_splits)
    with spec_malloc_pointer [OF p(2)] obtain c where c: "c \<in> set bs" "baddr c = a" "\<not> used c" by auto
    with other have ne: "baddr b \<noteq> a" "bs \<noteq> []" by auto
    have co: "coalesced bs" using Cons.prems(2) by (simp add: coalesced_Cons)
    have IH: "spec_free a ?bs' = bs" using Cons.IH [of "pos + 16 + bsize b"] Cons.prems(1) co p by simp
    have first: "baddr (hd bs) \<noteq> a \<or> used b"
    proof (rule disjCI)
      assume "\<not> used b"
      then have hd: "used (hd bs)" using Cons.prems(2) ne by (simp add: coalesced_Cons)
      show "baddr (hd bs) \<noteq> a"
      proof
        assume "baddr (hd bs) = a"
        moreover have "distinct (map baddr bs)" using tiles_distinct [OF Cons.prems(1)] by simp
        ultimately have "hd bs = c" using c ne by (metis distinct_map inj_onD list.set_sel(1))
        with c hd show False by simp
      qed
    qed
    have ne': "?bs' \<noteq> []" using spec_malloc_head [OF ne(2)] by blast
    then have "marked_free a ?bs' \<noteq> []" by (cases ?bs') auto
    moreover have "baddr (hd (marked_free a ?bs')) = baddr (hd bs)"
      using marked_free_head [OF ne'] spec_malloc_first [OF ne(2)] by simp
    ultimately have "release a (b # marked_free a ?bs') = b # release a (marked_free a ?bs')"
      using release_skip [OF ne(1)] first by metis
    with False ne IH show ?thesis by (auto simp: spec_free_def case_prod_beta)
  qed
qed simp


lemma all_free_single:
  assumes "tiles pos bs e" and "coalesced bs" and "busy bs = {}" and "pos < e"
  shows "\<exists>b. bs = [b] \<and> unat (baddr b) = pos \<and> bsize b = e - pos - 16 \<and> \<not> used b"
proof -
  have unused: "\<forall>b \<in> set bs. \<not> used b" using assms(3) by (auto simp: busy_def)
  obtain b bs' where bs: "bs = b # bs'" using assms(1,4) by (cases bs) auto
  have "bs' = []" using assms(2) unused bs by (cases bs') auto
  with assms(1) unused bs show ?thesis by auto
qed

lemma block_disjoint:
  assumes "tiles pos bs e" and "b \<in> set bs" and "c \<in> set bs" and "baddr b \<noteq> baddr c"
  shows "unat (baddr b) + 16 + bsize b \<le> unat (baddr c) \<or> unat (baddr c) + 16 + bsize c \<le> unat (baddr b)"
  using assms
proof (induction pos bs e rule: tiles.induct)
  case (2 pos d bs e)
  then have tl: "tiles (pos + 16 + bsize d) bs e" and pos: "unat (baddr d) = pos" by auto
  consider "b = d" "c \<in> set bs" | "c = d" "b \<in> set bs" | "b \<in> set bs" "c \<in> set bs"
    using 2(3-5) by auto
  then show ?case
  proof cases
    case 1
    with tiles_addr [OF tl, of c] pos show ?thesis by simp
  next
    case 2
    with tiles_addr [OF tl, of b] pos show ?thesis by simp
  next
    case 3
    with "2.IH" [OF tl] \<open>baddr b \<noteq> baddr c\<close> show ?thesis by blast
  qed
qed simp

lemma live_block:
  assumes "heap_blocks m start e bs" and "live_ok bs l" and "(p, k) \<in> set l"
  shows "\<exists>b \<in> set bs. unat p = unat (baddr b) + 16 \<and> unat k \<le> bsize b \<and> unat (baddr b) + 16 + bsize b \<le> e
    \<and> start \<le> unat (baddr b)"
proof -
  from assms(2,3) obtain a j where "(a, j) \<in> busy bs" "p = a + HEADER" "unat k \<le> j"
    unfolding live_ok_def by blast
  then obtain b where b: "b \<in> set bs" "p = baddr b + HEADER" "unat k \<le> bsize b"
    by (auto simp: busy_def)
  from assms(1) have "tiles start bs e" "e < 2 ^ 32" by (auto simp: heap_blocks_def)
  with tiles_addr [of start bs e b] b have "unat p = unat (baddr b) + 16"
    by (simp add: unat_sum)
  with b tiles_addr [OF \<open>tiles start bs e\<close> b(1)] show ?thesis by auto
qed

section \<open>Properties\<close>

text \<open>C24. \<open>malloc\<close> and \<open>free\<close> implement first fit with immediate coalescing: on a heap that holds the
  blocks \<open>bs\<close>, \<open>malloc\<close> returns and leaves the blocks of the specification, answers 0 exactly
  when every block is in use or not larger than the request (a free block of exactly the requested
  size is refused), and \<open>free\<close> of a block's payload leaves the blocks of the specification, in
  which no two neighbours are free.
\<close>

theorem heap_refines:
  assumes "heap_blocks m start e bs"
  shows "(\<exists>m'. malloc n m = Some (fst (spec_malloc (unat n) bs), m') \<and>
      heap_blocks m' start e (snd (spec_malloc (unat n) bs))) \<and>
    (fst (spec_malloc (unat n) bs) = 0 \<longleftrightarrow> (\<forall>b \<in> set bs. used b \<or> bsize b \<le> unat n)) \<and>
    (\<forall>a \<in> baddr ` set bs. heap_blocks (free (a + HEADER) m) start e (spec_free a bs))"
proof (intro conjI ballI)
  show "\<exists>m'. malloc n m = Some (fst (spec_malloc (unat n) bs), m') \<and>
      heap_blocks m' start e (snd (spec_malloc (unat n) bs))"
    by (rule malloc_refines [OF assms])
  from assms have "tiles start bs e" "e < 2 ^ 32" by (auto simp: heap_blocks_def)
  from spec_malloc_busy [OF this, of "unat n"]
  show "fst (spec_malloc (unat n) bs) = 0 \<longleftrightarrow> (\<forall>b \<in> set bs. used b \<or> bsize b \<le> unat n)"
    unfolding taken_def by force
  show "heap_blocks (free (a + HEADER) m) start e (spec_free a bs)" if "a \<in> baddr ` set bs" for a
    by (rule free_refines [OF assms that])
qed

text \<open>A region of 64 bytes at address 100.\<close>

definition small_heap :: MemoryManager where
  "small_heap = new_manager 100 64 (\<lambda>_. \<lparr>next_chunk = 7, prev_chunk = 7, allocated = True, chunk_size = 7\<rparr>)"

lemma small_heap_blocks: "heap_blocks small_heap 100 164 [\<lparr>baddr = 100, bsize = 48, used = False\<rparr>]"
  using new_manager_blocks [of 64 100] by (simp add: small_heap_def)

theorem heap_refines_witness:
  "(\<exists>m'. malloc 10 small_heap = Some (116, m') \<and>
      heap_blocks m' 100 164 [\<lparr>baddr = 100, bsize = 10, used = True\<rparr>,
                              \<lparr>baddr = 126, bsize = 22, used = False\<rparr>]) \<and>
   (\<exists>m'. malloc 48 small_heap = Some (0, m'))"
  using heap_refines [OF small_heap_blocks, of 10] heap_refines [OF small_heap_blocks, of 48]
  by (auto simp: HEADER_def)

text \<open>C25. The memory that programs hold is theirs: in every state that allocations, frees of live
  pointers and writes inside live blocks can reach, the live blocks lie in the managed region,
  behind its first header, and no two of them overlap.
\<close>

theorem heap_safe:
  assumes "reachable (heap_start start n) heap_step s"
  shows "distinct (map fst (live s)) \<and>
    (\<forall>(p, k) \<in> set (live s). unat start + 16 \<le> unat p \<and> unat p + unat k \<le> unat start + unat n) \<and>
    (\<forall>(p, k) \<in> set (live s). \<forall>(q, l) \<in> set (live s). p \<noteq> q \<longrightarrow>
       unat p + unat k \<le> unat q \<or> unat q + unat l \<le> unat p)"
proof -
  let ?e = "unat start + unat n"
  from heap.reachable_inv [OF assms] obtain bs where
    bs: "heap_blocks (manager s) (unat start) ?e bs" "live_ok bs (live s)"
    by (auto simp: heap_inv_def)
  note block = live_block [OF bs]
  have inside: "unat start + 16 \<le> unat p \<and> unat p + unat k \<le> ?e" if "(p, k) \<in> set (live s)" for p k
    using block [OF that] by auto
  have apart: "unat p + unat k \<le> unat q \<or> unat q + unat l \<le> unat p"
    if pq: "(p, k) \<in> set (live s)" "(q, l) \<in> set (live s)" "p \<noteq> q" for p k q l
  proof -
    from block [OF pq(1)] obtain b where b: "b \<in> set bs" "unat p = unat (baddr b) + 16" "unat k \<le> bsize b" by auto
    from block [OF pq(2)] obtain c where c: "c \<in> set bs" "unat q = unat (baddr c) + 16" "unat l \<le> bsize c" by auto
    from b(2) c(2) pq(3) have "baddr b \<noteq> baddr c" by (auto simp: word_unat_eq_iff)
    moreover have "tiles (unat start) bs ?e" using bs(1) by (simp add: heap_blocks_def)
    ultimately show ?thesis using block_disjoint [of "unat start" bs ?e b c] b c by auto
  qed
  have "distinct (map fst (live s))" using bs(2) by (simp add: live_ok_def)
  with inside apart show ?thesis by (intro conjI) blast+
qed

text \<open>Freeing what \<open>malloc\<close> just returned restores the blocks of the heap exactly, whether the
  block was cut from a larger one or taken whole.
\<close>

theorem free_undoes_malloc:
  assumes "heap_blocks m start e bs" and "malloc n m = Some (p, m')" and "p \<noteq> 0"
  shows "heap_blocks (free p m') start e bs"
proof -
  from assms(1) have tiles: "tiles start bs e" and co: "coalesced bs" and small: "e < 2 ^ 32"
    by (auto simp: heap_blocks_def)
  from malloc_refines [OF assms(1), of n] assms(2) have p: "p = fst (spec_malloc (unat n) bs)"
    and m': "heap_blocks m' start e (snd (spec_malloc (unat n) bs))" by auto
  from spec_malloc_pointer [of "unat n" bs] assms(3) p obtain b where
    b: "b \<in> set bs" "p = baddr b + HEADER" by auto
  from spec_malloc_busy [OF tiles small, of "unat n"] p assms(3)
  have "taken (unat n) bs p (snd (spec_malloc (unat n) bs))" by auto
  then obtain k and c :: block where "p = baddr c + HEADER" "busy (snd (spec_malloc (unat n) bs)) = insert (baddr c, k) (busy bs)"
    unfolding taken_def by blast
  with b have "(baddr b, k) \<in> busy (snd (spec_malloc (unat n) bs))" by auto
  from free_refines [OF m' busy_addr [OF this]] b
    spec_free_malloc [OF tiles co, of "unat n" "baddr b"] p assms(3)
  show ?thesis by simp
qed

theorem free_undoes_malloc_witness:
  "\<exists>m'. malloc 10 small_heap = Some (116, m') \<and>
    heap_blocks (free 116 m') 100 164 [\<lparr>baddr = 100, bsize = 48, used = False\<rparr>]"
  using heap_refines [OF small_heap_blocks, of 10] free_undoes_malloc [OF small_heap_blocks, of 10 116]
  by (auto simp: HEADER_def)

text \<open>Nothing is lost: whenever every block that was handed out has been given back, in whatever
  order and whatever was written into it, the heap is the single free block the kernel started with.
\<close>

theorem heap_recovered:
  assumes "reachable (heap_start start n) heap_step s" and "live s = []" and "0 < n"
  shows "heap_blocks (manager s) (unat start) (unat start + unat n)
    [\<lparr>baddr = start, bsize = unat n - 16, used = False\<rparr>]"
proof -
  from heap.reachable_inv [OF assms(1)] obtain bs where
    bs: "heap_blocks (manager s) (unat start) (unat start + unat n) bs" "live_ok bs []"
    using assms(2) by (auto simp: heap_inv_def)
  then have "busy bs = {}" by (simp add: live_ok_def)
  moreover have "0 < unat n" using assms(3) by (simp add: word_less_nat_alt)
  ultimately obtain b where "bs = [b]" "unat (baddr b) = unat start" "bsize b = unat n - 16" "\<not> used b"
    using all_free_single [of "unat start" bs "unat start + unat n"] bs(1)
    by (auto simp: heap_blocks_def)
  moreover from this(2) have "baddr b = start" by (simp add: word_unat_eq_iff)
  ultimately have "bs = [\<lparr>baddr = start, bsize = unat n - 16, used = False\<rparr>]" by (cases b) simp
  with bs(1) show ?thesis by simp
qed

text \<open>A run: two allocations, a write into the first block, and both blocks given back.\<close>

definition heap_boot :: heap_run where
  "heap_boot = \<lparr>manager = small_heap, live = []\<rparr>"

lemma heap_boot_start: "heap_start 100 64 heap_boot"
  by (auto simp: heap_start_def heap_boot_def small_heap_def)

lemma heap_boot_alloc:
  "\<exists>m. reachable (heap_start 100 64) heap_step \<lparr>manager = m, live = [(116, 10)]\<rparr> \<and>
     heap_blocks m 100 164 [\<lparr>baddr = 100, bsize = 10, used = True\<rparr>,
                            \<lparr>baddr = 126, bsize = 22, used = False\<rparr>]"
proof -
  obtain m where m: "malloc 10 small_heap = Some (116, m)"
    "heap_blocks m 100 164 [\<lparr>baddr = 100, bsize = 10, used = True\<rparr>,
                            \<lparr>baddr = 126, bsize = 22, used = False\<rparr>]"
    using malloc_refines [OF small_heap_blocks, of 10] by (auto simp: HEADER_def)
  then have "heap_step heap_boot \<lparr>manager = m, live = [(116, 10)]\<rparr>"
    using heap_step.alloc [of 10 heap_boot 116 m] by (simp add: heap_boot_def)
  with heap_boot_start m(2) show ?thesis by (blast intro: reachable.intros)
qed

lemma heap_boot_alloc2:
  "\<exists>m. reachable (heap_start 100 64) heap_step \<lparr>manager = m, live = [(142, 5), (116, 10)]\<rparr>"
proof -
  from heap_boot_alloc obtain m where m:
    "reachable (heap_start 100 64) heap_step \<lparr>manager = m, live = [(116, 10)]\<rparr>"
    "heap_blocks m 100 164 [\<lparr>baddr = 100, bsize = 10, used = True\<rparr>,
                            \<lparr>baddr = 126, bsize = 22, used = False\<rparr>]" by blast
  obtain m' where "malloc 5 m = Some (142, m')"
    using malloc_refines [OF m(2), of 5] by (auto simp: HEADER_def)
  then have "heap_step \<lparr>manager = m, live = [(116, 10)]\<rparr> \<lparr>manager = m', live = [(142, 5), (116, 10)]\<rparr>"
    using heap_step.alloc [of 5 "\<lparr>manager = m, live = [(116, 10)]\<rparr>" 142 m'] by simp
  with m(1) show ?thesis by (blast intro: reachable.intros)
qed

theorem heap_safe_witness:
  "\<exists>s. reachable (heap_start 100 64) heap_step s \<and> live s = [(142, 5), (116, 10)] \<and> distinct (map fst (live s)) \<and>
    (\<forall>(p, k) \<in> set (live s). 116 \<le> unat p \<and> unat p + unat k \<le> 164)"
proof -
  from heap_boot_alloc2 obtain m where m:
    "reachable (heap_start 100 64) heap_step \<lparr>manager = m, live = [(142, 5), (116, 10)]\<rparr>" by blast
  from heap_safe [OF m] m show ?thesis
    by (intro exI [of _ "\<lparr>manager = m, live = [(142, 5), (116, 10)]\<rparr>"]) simp
qed

theorem heap_recovered_witness:
  "\<exists>s. reachable (heap_start 100 64) heap_step s \<and>
    heap_blocks (manager s) 100 164 [\<lparr>baddr = 100, bsize = 48, used = False\<rparr>]"
proof -
  from heap_boot_alloc obtain m where m:
    "reachable (heap_start 100 64) heap_step \<lparr>manager = m, live = [(116, 10)]\<rparr>" by blast
  have "heap_step \<lparr>manager = m, live = [(116, 10)]\<rparr> \<lparr>manager = free 116 m, live = []\<rparr>"
    using heap_step.dealloc [of 116 10 "\<lparr>manager = m, live = [(116, 10)]\<rparr>"] by simp
  with m have "reachable (heap_start 100 64) heap_step \<lparr>manager = free 116 m, live = []\<rparr>"
    by (rule reachable.intros)
  from heap_recovered [OF this] this show ?thesis
    by (intro exI [of _ "\<lparr>manager = free 116 m, live = []\<rparr>"]) simp
qed

end
