(* ===== verification/Kernel_Console_Properties.thy ===== *)
theory Kernel_Console_Properties
  imports Kernel_Console
begin

text \<open>
  What the console of the kernel shows: \<open>printf\<close> refines a typewriter on an endless roll of
  paper of which the screen is the last 25 lines; integers are printed in decimal; the mouse
  cursor leaves the text it passes over as it was; and the two programs that compute.
\<close>

declare digit_loop.simps [simp del] swap_loop.simps [simp del]

subsection \<open>Scrolling\<close>

lemma slide_row:
  "n \<le> 80 \<Longrightarrow> fold (\<lambda>k v. v(80 * j + k := v (80 * (j + 1) + k))) [0..<n] v =
     (\<lambda>i. if 80 * j \<le> i \<and> i < 80 * j + n then v (i + 80) else v i)"
proof (induction n)
  case (Suc n)
  then have "n \<le> 80" by simp
  from Suc.IH [OF this] show ?case using Suc.prems by (auto simp: fun_eq_iff ac_simps)
qed (auto simp: fun_eq_iff)

lemma slide_rows:
  "fold (\<lambda>j v. fold (\<lambda>k v. v(80 * j + k := v (80 * (j + 1) + k))) [0..<80] v) [0..<m] v =
     (\<lambda>i. if i < 80 * m then v (i + 80) else v i)"
proof (induction m)
  case (Suc m)
  then show ?case by (simp only: upt_Suc_append fold_append comp_apply fold.simps id_apply
        slide_row [OF order_refl] zero_le) (auto simp: fun_eq_iff)
qed auto

lemma slide_eq: "slide v i = (if i < 1920 then v (i + 80) else v i)"
  unfolding slide_def slide_rows by simp

lemma clear_row:
  "fold (\<lambda>k v. v(80 * 24 + k := with_char (v (80 * 24 + k)) c)) [0..<n] v =
     (\<lambda>i. if 1920 \<le> i \<and> i < 1920 + n then with_char (v i) c else v i)"
  by (induction n) (auto simp: fun_eq_iff)

lemma clear_last_eq:
  "clear_last v i = (if 1920 \<le> i \<and> i < 2000 then with_char (v i) (CHR '' '') else v i)"
  unfolding clear_last_def clear_row by simp

subsection \<open>The roll of paper\<close>

record paper =
  rows :: "u16 list list"
  col :: nat
  row :: nat

definition blank_like :: "u16 list \<Rightarrow> u16 list" where
  "blank_like r = map (\<lambda>cell. with_char cell (CHR '' '')) r"

definition paper_write :: "char \<Rightarrow> paper \<Rightarrow> paper" where
  "paper_write c p =
     (if c = CHR ''\<newline>'' then p\<lparr>col := 0, row := row p + 1\<rparr>
      else p\<lparr>rows := (rows p)[row p := (rows p ! row p)[col p := with_char (rows p ! row p ! col p) c]],
             col := col p + 1\<rparr>)"

definition paper_wrap :: "paper \<Rightarrow> paper" where
  "paper_wrap p = (if 80 \<le> col p then p\<lparr>col := 0, row := row p + 1\<rparr> else p)"

definition paper_feed :: "paper \<Rightarrow> paper" where
  "paper_feed p = (if row p = length (rows p) then p\<lparr>rows := rows p @ [blank_like (last (rows p))]\<rparr> else p)"

definition paper_char :: "char \<Rightarrow> paper \<Rightarrow> paper" where
  "paper_char c p = paper_feed (paper_wrap (paper_write c p))"

text \<open>The screen in the middle of a step: the cursor may be behind the last column or line.\<close>

definition screen_of :: "video \<Rightarrow> console \<Rightarrow> paper \<Rightarrow> bool" where
  "screen_of v0 con p =
     (25 \<le> length (rows p) \<and> (\<forall>r \<in> set (rows p). length r = 80) \<and>
      unat (cur_x con) = col p \<and> row p + 25 = length (rows p) + unat (cur_y con) \<and>
      (\<forall>j < 25. \<forall>k < 80. video con (80 * j + k) = rows p ! (length (rows p) - 25 + j) ! k) \<and>
      (\<forall>i \<ge> 2000. video con i = v0 i))"

definition shows_screen :: "video \<Rightarrow> console \<Rightarrow> paper \<Rightarrow> bool" where
  "shows_screen v0 con p = (screen_of v0 con p \<and> col p < 80 \<and> row p < length (rows p))"

lemma byte_suc: "unat (b :: byte) < 100 \<Longrightarrow> unat (b + 1) = unat b + 1"
  by (simp add: unat_word_ariths)

definition console_write :: "char \<Rightarrow> console \<Rightarrow> console" where
  "console_write c con =
     (if c = CHR ''\<newline>'' then con\<lparr>cur_x := 0, cur_y := cur_y con + 1\<rparr>
      else con\<lparr>video := (video con)(80 * unat (cur_y con) + unat (cur_x con) :=
                 with_char (video con (80 * unat (cur_y con) + unat (cur_x con))) c),
               cur_x := cur_x con + 1\<rparr>)"

definition console_wrap :: "console \<Rightarrow> console" where
  "console_wrap con = (if 80 \<le> cur_x con then con\<lparr>cur_x := 0, cur_y := cur_y con + 1\<rparr> else con)"

definition console_feed :: "console \<Rightarrow> console" where
  "console_feed con =
     (if 25 \<le> cur_y con
      then con\<lparr>video := clear_last (slide (video con)), cur_x := 0, cur_y := 24\<rparr> else con)"

lemma put_char_steps: "put_char c con = console_feed (console_wrap (console_write c con))"
  unfolding put_char_def console_feed_def console_wrap_def console_write_def Let_def ..

lemma cell_unique: "k < 80 \<Longrightarrow> k' < 80 \<Longrightarrow> 80 * j + k = 80 * j' + (k' :: nat) \<longleftrightarrow> j = j' \<and> k = k'"
  by (metis add.commute div_mult_self2 div_less mod_mult_self2 mod_less add_0 zero_neq_numeral)

lemma write_screen:
  assumes "shows_screen v0 con p"
  shows "screen_of v0 (console_write c con) (paper_write c p) \<and> col (paper_write c p) \<le> 80 \<and>
    row (paper_write c p) + (if 80 \<le> col (paper_write c p) then 1 else 0) \<le> length (rows (paper_write c p))"
proof -
  from assms have s: "25 \<le> length (rows p)" "\<forall>r \<in> set (rows p). length r = 80"
    "unat (cur_x con) = col p" "row p + 25 = length (rows p) + unat (cur_y con)"
    "\<forall>j < 25. \<forall>k < 80. video con (80 * j + k) = rows p ! (length (rows p) - 25 + j) ! k"
    "\<forall>i \<ge> 2000. video con i = v0 i" "col p < 80" "row p < length (rows p)"
    by (auto simp: shows_screen_def screen_of_def)
  then have y: "unat (cur_y con) < 25" "row p = length (rows p) - 25 + unat (cur_y con)" by linarith+
  show ?thesis
  proof (cases "c = CHR ''\<newline>''")
    case True
    with s y show ?thesis
      by (auto simp: screen_of_def console_write_def paper_write_def byte_suc)
  next
    case False
    let ?i = "80 * unat (cur_y con) + col p"
    have row80: "length (rows p ! row p) = 80" using s(2,8) by simp
    have cell: "video con ?i = rows p ! row p ! col p" using s(5,7) y by simp
    have "video (console_write c con) (80 * j + k) =
        rows (paper_write c p) ! (length (rows (paper_write c p)) - 25 + j) ! k"
      if "j < 25" "k < 80" for j k
      using that s(1,3,5,7,8) y cell row80 False
      by (auto simp: console_write_def paper_write_def cell_unique nth_list_update)
    moreover have "\<forall>i \<ge> 2000. video (console_write c con) i = v0 i"
      using s(3,6,7) y False by (auto simp: console_write_def)
    moreover have "\<forall>r \<in> set (rows (paper_write c p)). length r = 80"
      using s(2) row80 False by (auto simp: paper_write_def dest!: set_update_subset_insert [THEN subsetD])
    ultimately show ?thesis
      using s False unfolding screen_of_def
      by (simp add: console_write_def paper_write_def byte_suc)
  qed
qed


lemma wrap_screen:
  assumes "screen_of v0 con p" and "col p \<le> 80"
    and "row p + (if 80 \<le> col p then 1 else 0) \<le> length (rows p)"
  shows "screen_of v0 (console_wrap con) (paper_wrap p) \<and> col (paper_wrap p) < 80 \<and>
    row (paper_wrap p) \<le> length (rows (paper_wrap p))"
proof (cases "80 \<le> col p")
  case True
  with assms have x: "80 \<le> cur_x con" by (simp add: screen_of_def word_le_nat_alt)
  from True assms have "unat (cur_y con) < 25" by (auto simp: screen_of_def)
  with True x assms show ?thesis
    by (simp add: screen_of_def console_wrap_def paper_wrap_def byte_suc)
next
  case False
  with assms have "\<not> 80 \<le> cur_x con" by (simp add: screen_of_def word_le_nat_alt)
  with False assms show ?thesis by (simp add: console_wrap_def paper_wrap_def)
qed

lemma feed_screen:
  assumes s: "screen_of v0 con p" and "col p < 80" and "row p \<le> length (rows p)"
    and full: "row p = length (rows p) \<longrightarrow> col p = 0"
  shows "shows_screen v0 (console_feed con) (paper_feed p)"
proof (cases "row p = length (rows p)")
  case False
  with assms(1,3) have "\<not> 25 \<le> cur_y con" by (auto simp: screen_of_def word_le_nat_alt)
  with False assms show ?thesis by (simp add: shows_screen_def console_feed_def paper_feed_def)
next
  case True
  from s have len: "25 \<le> length (rows p)" and row80: "\<forall>r \<in> set (rows p). length r = 80"
    and cells: "\<forall>j < 25. \<forall>k < 80. video con (80 * j + k) = rows p ! (length (rows p) - 25 + j) ! k"
    and rest: "\<forall>i \<ge> 2000. video con i = v0 i"
    by (auto simp: screen_of_def)
  have y: "25 \<le> cur_y con" using True s by (simp add: screen_of_def word_le_nat_alt)
  let ?rows = "rows p @ [blank_like (last (rows p))]"
  let ?v = "clear_last (slide (video con))"
  have "rows p \<noteq> []" using len by auto
  then have last: "last (rows p) = rows p ! (length (rows p) - 1)" "length (last (rows p)) = 80"
    using row80 by (simp_all add: last_conv_nth)
  have "?v (80 * j + k) = ?rows ! (length ?rows - 25 + j) ! k" if jk: "j < 25" "k < 80" for j k
  proof (cases "j = 24")
    case j: True
    have "?v (80 * j + k) = with_char (video con (80 * 24 + k)) (CHR '' '')"
      using j jk by (simp add: clear_last_eq slide_eq)
    also have "video con (80 * 24 + k) = last (rows p) ! k"
      using cells [rule_format, of 24 k] jk len last(1) by simp
    finally show ?thesis using j jk last(2) len by (simp add: blank_like_def nth_append)
  next
    case j: False
    with jk have "80 * j + k < 1920" by simp
    then have "?v (80 * j + k) = video con (80 * (j + 1) + k)"
      by (simp add: clear_last_eq slide_eq ac_simps)
    also have "\<dots> = rows p ! (length (rows p) - 25 + (j + 1)) ! k"
      by (rule cells [rule_format]) (use j jk in simp_all)
    also have "length (rows p) - 25 + (j + 1) = length ?rows - 25 + j" using len by simp
    moreover have "length ?rows - 25 + j < length (rows p)" using j jk len by simp
    ultimately show ?thesis by (simp only: nth_append if_True)
  qed
  moreover have "\<forall>i \<ge> 2000. ?v i = v0 i" using rest by (simp add: clear_last_eq slide_eq)
  moreover have "\<forall>r \<in> set ?rows. length r = 80" using row80 last(2) by (simp add: blank_like_def)
  ultimately show ?thesis
    using True y full len
    by (simp add: shows_screen_def screen_of_def console_feed_def paper_feed_def)
qed

lemma put_char_screen:
  assumes "shows_screen v0 con p"
  shows "shows_screen v0 (put_char c con) (paper_char c p)"
proof -
  let ?con = "console_write c con" and ?p = "paper_write c p"
  note w = write_screen [OF assms, of c]
  from w have r: "screen_of v0 (console_wrap ?con) (paper_wrap ?p)" "col (paper_wrap ?p) < 80"
    "row (paper_wrap ?p) \<le> length (rows (paper_wrap ?p))"
    using wrap_screen by blast+
  have "row (paper_wrap ?p) = length (rows (paper_wrap ?p)) \<longrightarrow> col (paper_wrap ?p) = 0"
    using assms by (auto simp: paper_wrap_def paper_write_def shows_screen_def)
  from feed_screen [OF r this] show ?thesis by (simp add: put_char_steps paper_char_def)
qed

lemma put_chars_screen:
  "shows_screen v0 con p \<Longrightarrow> shows_screen v0 (fold put_char s con) (fold paper_char s p)"
  by (induction s arbitrary: con p) (auto intro: put_char_screen)


subsection \<open>Decimal numbers\<close>

lemma digit_loop_pos: "0 < n \<Longrightarrow> digit_loop (int n) str = str @ rev (dec_digits n)"
proof (induction n arbitrary: str rule: less_induct)
  case (less n)
  have step: "int n smod 10 = int (n mod 10)" "int n sdiv 10 = int (n div 10)"
    by (simp_all add: signed_modulo_int_def signed_divide_int_def zmod_int zdiv_int less.prems)
  have digit: "char_of (int (n mod 10) + 48) = char_of (n mod 10 + 48)"
    by (metis char_of_nat of_nat_add of_nat_numeral)
  have small: "\<not> 9 < n mod 10" by presburger
  have unroll: "digit_loop (int n) str = digit_loop (int (n div 10)) (str @ [char_of (n mod 10 + 48)])"
    using less.prems by (subst digit_loop.simps) (simp add: step digit Let_def small)
  show ?case
  proof (cases "n < 10")
    case True
    then show ?thesis unfolding unroll by (simp add: digit_loop.simps dec_digits.simps)
  next
    case False
    then have "digit_loop (int (n div 10)) (str @ [char_of (n mod 10 + 48)]) =
        (str @ [char_of (n mod 10 + 48)]) @ rev (dec_digits (n div 10))"
      by (intro less.IH) auto
    moreover have "dec_digits n = dec_digits (n div 10) @ [char_of (n mod 10 + 48)]"
      using False by (subst dec_digits.simps) simp
    ultimately show ?thesis unfolding unroll by simp
  qed
qed

lemma swap_loop_nth:
  "stop < length xs \<Longrightarrow> length (swap_loop xs start stop) = length xs \<and>
   (\<forall>i < length xs. swap_loop xs start stop ! i =
      (if start \<le> i \<and> i \<le> stop then xs ! (start + stop - i) else xs ! i))"
proof (induction xs start stop rule: swap_loop.induct)
  case (1 xs start stop)
  show ?case
  proof (cases "start < stop")
    case True
    let ?ys = "xs[start := xs ! stop, stop := xs ! start]"
    from True 1 have IH: "length (swap_loop ?ys (start + 1) (stop - 1)) = length ?ys \<and>
      (\<forall>i < length ?ys. swap_loop ?ys (start + 1) (stop - 1) ! i =
        (if start + 1 \<le> i \<and> i \<le> stop - 1 then ?ys ! (start + 1 + (stop - 1) - i) else ?ys ! i))"
      by auto
    with True 1(2) show ?thesis
      by (subst (1 2) swap_loop.simps) (auto simp: nth_list_update)
  next
    case False
    then have "start + stop - i = i" if "start \<le> i" "i \<le> stop" for i using that by linarith
    with False show ?thesis by (auto simp: swap_loop.simps)
  qed
qed

lemma swap_loop_rev: "swap_loop xs 0 (length xs - 1) = rev xs"
proof (cases "xs = []")
  case False
  then have "length xs - 1 < length xs" by simp
  from swap_loop_nth [OF this, of 0] show ?thesis
    by (intro nth_equalityI) (auto simp: rev_nth)
qed (simp add: swap_loop.simps)

lemma int_text_eq:
  assumes "- (2 ^ 31) < num" and "num < 2 ^ 31"
  shows "int_text num = c_show_int num"
proof (cases "num = 0")
  case True
  have "char_of (48 :: nat) = CHR ''0''" by code_simp
  with True show ?thesis by (simp add: int_text_def c_show_int_def dec_digits.simps)
next
  case False
  have narrow: "signed_take_bit 31 (- num) = - num" if "num < 0"
    using assms that by (simp add: signed_take_bit_int_eq_self)
  from False have pos: "digit_loop (if num < 0 then - num else num) [] = rev (dec_digits (nat \<bar>num\<bar>))"
    using digit_loop_pos [of "nat \<bar>num\<bar>" "[]"] by (simp add: abs_if split: if_splits)
  show ?thesis
  proof (cases "num < 0")
    case True
    with narrow pos swap_loop_rev [of "rev (dec_digits (nat (- num))) @ ''-''"] show ?thesis
      by (simp add: int_text_def Let_def c_show_int_def)
  next
    case nonneg: False
    with False pos swap_loop_rev [of "rev (dec_digits (nat num))"] show ?thesis
      by (simp add: int_text_def Let_def c_show_int_def)
  qed
qed

subsection \<open>The mouse cursor\<close>

lemma nibble_masks: "(0x0F00 :: u16) = push_bit 8 (mask 4)" "(0xF000 :: u16) = push_bit 12 (mask 4)"
  "(0x00FF :: u16) = mask 8"
  by (simp_all add: mask_eq_exp_minus_1)

lemma bit_swap_colours:
  "bit (swap_colours cell) n \<longleftrightarrow>
     (if n < 8 then bit cell n else if n < 12 then bit cell (n + 4)
      else if n < 16 then bit cell (n - 4) else False)"
  unfolding swap_colours_def nibble_masks by (auto simp: bit_simps add.commute)

lemma swap_colours_twice [simp]: "swap_colours (swap_colours cell) = cell"
  by (rule bit_word_eqI) (auto simp: bit_swap_colours)


definition mouse_inv :: "video \<Rightarrow> mouse \<times> video \<Rightarrow> bool" where
  "mouse_inv v s =
     (0 \<le> mouse_x (fst s) \<and> mouse_x (fst s) < 80 \<and> 0 \<le> mouse_y (fst s) \<and> mouse_y (fst s) < 25 \<and>
      snd s = flip_cell (mouse_x (fst s)) (mouse_y (fst s)) v)"

lemma move_axis_range: "0 < cells \<Longrightarrow> 0 \<le> move_axis cells pos offset \<and> move_axis cells pos offset < cells"
  by (simp add: move_axis_def Let_def)

lemma flip_twice: "flip_cell x y (flip_cell x y v) = v"
  by (simp add: flip_cell_def fun_eq_iff)

lemma mouse_move_inv: "mouse_inv v s \<Longrightarrow> mouse_inv v (OnMouseMove dx dy s)"
  unfolding mouse_inv_def OnMouseMove_def Let_def
  by (simp add: move_axis_range flip_twice)

subsection \<open>The programs\<close>

lemma fold_put_char_append: "nul_free s \<Longrightarrow> nul_free t \<Longrightarrow> printf t (printf s con) = printf (s @ t) con"
  by (simp add: printf_def c_str_id)


lemma nul_free_shown: "nul_free (c_show_int v)"
proof -
  have "CHR 0x00 \<notin> set (dec_digits n)" for n
    using dec_digits_digits [of "CHR 0x00" n] by (auto simp: is_digit_def char_code_0 [THEN iffD2])
  then show ?thesis by (simp add: c_show_int_def nul_free_def)
qed

fun chain :: "nat \<Rightarrow> int \<Rightarrow> int list" where
  "chain 0 n = []"
| "chain (Suc k) n = (if n = 1 then [] else collatz_next n # chain k (collatz_next n))"

fun chain_ends :: "nat \<Rightarrow> int \<Rightarrow> bool" where
  "chain_ends 0 n = (n = 1)"
| "chain_ends (Suc k) n =
     (n = 1 \<or> - (2 ^ 31) < collatz_next n \<and> collatz_next n < 2 ^ 31 \<and> chain_ends k (collatz_next n))"

definition chain_text :: "nat \<Rightarrow> int \<Rightarrow> string" where
  "chain_text k n = concat (map (\<lambda>m. c_show_int m @ '', '') (chain k n))"

lemma nul_free_chain: "nul_free (chain_text k n)"
  by (simp add: chain_text_def nul_free_concat nul_free_shown)

lemma collatz_loop_text:
  "chain_ends k n \<Longrightarrow> collatz_loop n con = Some (printf (chain_text k n) con)"
proof (induction k arbitrary: n con)
  case 0
  then show ?case by (simp add: collatz_loop.simps chain_text_def printf_def)
next
  case (Suc k)
  show ?case
  proof (cases "n = 1")
    case True
    then show ?thesis by (simp add: collatz_loop.simps chain_text_def printf_def)
  next
    case False
    with Suc.prems have next_n: "- (2 ^ 31) < collatz_next n" "collatz_next n < 2 ^ 31"
      "chain_ends k (collatz_next n)" by auto
    have "collatz_loop n con =
        collatz_loop (collatz_next n) (printf '', '' (printf (c_show_int (collatz_next n)) con))"
      using False next_n by (subst collatz_loop.simps) (simp add: printfInt_def int_text_eq)
    also have "\<dots> = Some (printf (chain_text k (collatz_next n))
        (printf (c_show_int (collatz_next n) @ '', '') con))"
      using Suc.IH [OF next_n(3)] by (simp add: fold_put_char_append nul_free_shown)
    also have "\<dots> = Some (printf ((c_show_int (collatz_next n) @ '', '') @ chain_text k (collatz_next n)) con)"
      by (subst fold_put_char_append) (simp_all add: nul_free_shown nul_free_chain)
    also have "\<dots> = Some (printf (chain_text (Suc k) n) con)"
      using False by (simp add: chain_text_def)
    finally show ?thesis .
  qed
qed

definition collatz_line :: "nat \<Rightarrow> int \<Rightarrow> string" where
  "collatz_line k i = c_show_int i @ ''- Sequence: '' @ chain_text k i @ ''\<newline>''"

definition collatz_text :: "nat \<Rightarrow> int list \<Rightarrow> string" where
  "collatz_text k ns = concat (map (collatz_line k) ns) @ ''******* Collatz program is finished *******\<newline>''"

lemma collatz_lines_text:
  assumes "list_all (\<lambda>i. - (2 ^ 31) < i \<and> i < 2 ^ 31 \<and> chain_ends k i) ns"
  shows "collatz_lines ns con = Some (printf (collatz_text k ns) con)"
  using assms
proof (induction "ns" arbitrary: con)
  case Nil
  then show ?case by (simp add: collatz_text_def)
next
  case (Cons i "ns")
  then have i: "- (2 ^ 31) < i" "i < 2 ^ 31" "chain_ends k i"
    and IH: "collatz_lines ns con' = Some (printf (collatz_text k ns) con')" for con' by auto
  have free: "nul_free (collatz_line k i)"
    by (simp add: collatz_line_def nul_free_shown nul_free_chain)
  have free': "nul_free (collatz_text k ns)"
    by (simp add: collatz_text_def nul_free_concat collatz_line_def nul_free_shown nul_free_chain)
  have "collatz_lines (i # ns) con = Some (printf (collatz_text k ns) (printf (collatz_line k i) con))"
    using i by (simp add: collatz_loop_text IH printfInt_def int_text_eq collatz_line_def
        fold_put_char_append nul_free_shown nul_free_chain)
  also have "\<dots> = Some (printf (collatz_text k (i # ns)) con)"
    unfolding fold_put_char_append [OF free free'] by (simp add: collatz_text_def)
  finally show ?case .
qed

lemma inner_sum:
  "fold (\<lambda>j result. result + of_nat (i * j)) [0..<n] (r :: u32) = r + of_nat (i * (\<Sum>j<n. j))"
  by (induction n) (simp_all add: algebra_simps)

lemma outer_sum:
  "fold (\<lambda>i result. result + of_nat (i * c)) [0..<m] (r :: u32) = r + of_nat ((\<Sum>j<m. j) * c)"
  by (induction m) (simp_all add: algebra_simps)

lemma gauss_below: "(\<Sum>j<n. j) = n * (n - 1) div (2 :: nat)"
proof (cases n)
  case (Suc m)
  then show ?thesis using gauss_sum_nat [of m] by (simp add: lessThan_Suc_atMost atLeast0AtMost)
qed simp


lemma printed_chars: "nul_free s \<Longrightarrow> printf s con = fold put_char s con"
  by (simp add: printf_def)

section \<open>Properties\<close>

text \<open>C33. The console is a typewriter: if the screen shows the last 25 lines of a roll of paper, then
  after \<open>printf\<close> it shows the last 25 lines of the paper the text was typed on, where a full line
  wraps and a new line is fed behind the last one. Nothing typed is lost by scrolling, the cursor
  stays on the screen, and no memory beyond the 2000 cells is touched.
\<close>

theorem console_refines:
  assumes "shows_screen v0 con p"
  shows "shows_screen v0 (printf str con) (fold paper_char (c_str str) p)"
  unfolding printf_def by (rule put_chars_screen [OF assms])

definition blank_screen :: console where
  "blank_screen = \<lparr>video = (\<lambda>_. 0x0720), cur_x = 0, cur_y = 0\<rparr>"

definition blank_paper :: paper where
  "blank_paper = \<lparr>rows = replicate 25 (replicate 80 0x0720), col = 0, row = 0\<rparr>"

lemma blank_shows: "shows_screen (\<lambda>_. 0x0720) blank_screen blank_paper"
  by (simp add: shows_screen_def screen_of_def blank_screen_def blank_paper_def)

theorem console_refines_witness:
  "shows_screen (\<lambda>_. 0x0720) (printf ''Hello'' blank_screen) (fold paper_char ''Hello'' blank_paper)"
  using console_refines [OF blank_shows, of "''Hello''"] by simp

text \<open>\<open>printfInt\<close> prints every \<open>int\<close> but the smallest in decimal, and the text with its terminator
  fits the buffer of 12 characters.
\<close>

theorem printfInt_decimal:
  assumes "- (2 ^ 31) < num" and "num < 2 ^ 31"
  shows "printfInt num con = printf (c_show_int num) con \<and> length (int_text num) + 1 \<le> 12 \<and>
    c_atoi (int_text num) = num"
proof -
  have "is_int num" using assms by (simp add: is_int_def)
  with length_shown [OF this] c_atoi_shown [OF this] show ?thesis
    by (simp add: printfInt_def int_text_eq [OF assms])
qed

theorem printfInt_decimal_witness:
  "printfInt (-120) blank_screen = printf (c_show_int (-120)) blank_screen"
  using printfInt_decimal [of "-120" blank_screen] by simp

text \<open>The smallest \<open>int\<close> has no positive counterpart: its digits come out below the character 0.\<close>

theorem smallest_int_garbled: "int_text (- (2 ^ 31)) = ''-./,),(-*,(''"
  by code_simp

text \<open>The mouse cursor is the only trace the mouse leaves: after any sequence of moves the cursor is
  on the screen, and inverting the cell under it gives back the text as it was before the mouse
  came; moves by any offset are safe.
\<close>

theorem mouse_leaves_text:
  "\<exists>x y. fold (\<lambda>(dx, dy). OnMouseMove dx dy) moves (MouseToConsole v) =
       (\<lparr>mouse_x = x, mouse_y = y\<rparr>, flip_cell x y v) \<and>
     0 \<le> x \<and> x < 80 \<and> 0 \<le> y \<and> y < 25"
proof -
  have "mouse_inv v (fold (\<lambda>(dx, dy). OnMouseMove dx dy) moves s)" if "mouse_inv v s" for s
    using that
  proof (induction moves arbitrary: s)
    case (Cons d moves)
    from Cons.IH [OF mouse_move_inv [OF Cons.prems, of "fst d" "snd d"]] show ?case
      by (simp add: case_prod_beta)
  qed simp
  moreover have "mouse_inv v (MouseToConsole v)" by (simp add: mouse_inv_def MouseToConsole_def)
  ultimately have "mouse_inv v (fold (\<lambda>(dx, dy). OnMouseMove dx dy) moves (MouseToConsole v))" by blast
  moreover define s where "s = fold (\<lambda>(dx, dy). OnMouseMove dx dy) moves (MouseToConsole v)"
  ultimately have "mouse_inv v s" by simp
  moreover obtain m w where "s = (m, w)" by (cases s)
  moreover have "m = \<lparr>mouse_x = mouse_x m, mouse_y = mouse_y m\<rparr>" by simp
  ultimately show ?thesis unfolding s_def [symmetric]
    by (intro exI [of _ "mouse_x m"] exI [of _ "mouse_y m"]) (simp add: mouse_inv_def)
qed

text \<open>A long move to the right wraps around in the \<open>int8_t\<close> and jumps to the left edge.\<close>

theorem mouse_jumps: "move_axis 80 79 100 = 0"
  by code_simp

text \<open>\<open>collatz\<close> ends, and prints for each start from 1 to 14 its whole sequence down to 1; no
  sequence has more than 19 steps.
\<close>

theorem collatz_prints:
  "collatz con = Some (printf (collatz_text 19 [1..14]) con) \<and> list_all (chain_ends 19) [1..14]"
proof -
  have "list_all (\<lambda>i. - (2 ^ 31) < i \<and> i < 2 ^ 31 \<and> chain_ends 19 i) [1..14]" by code_simp
  moreover have "list_all (chain_ends 19) [1..14]" by code_simp
  ultimately show ?thesis using collatz_lines_text [of 19 "[1..14]" con] by (simp add: collatz_def)
qed

text \<open>The double loop of the long running program computes the square of the sum of the numbers
  below its bound, modulo 2^32.
\<close>

theorem long_running_closed: "long_running_result n = of_nat ((n * (n - 1) div 2) ^ 2)"
proof -
  have "long_running_result n = fold (\<lambda>i result. result + of_nat (i * (\<Sum>j<n. j))) [0..<n] 0"
    unfolding long_running_result_def inner_sum ..
  also have "\<dots> = of_nat ((\<Sum>j<n. j) ^ 2)"
    unfolding outer_sum by (simp add: power2_eq_square)
  finally show ?thesis by (simp only: gauss_below)
qed

text \<open>The number that \<open>init\<close> has printed.\<close>

lemma long_running_1000: "sint (long_running_result 1000) = 392146832"
  unfolding long_running_closed by simp

end
