(* ===== verification/Kernel_Tasks_Properties.thy ===== *)
theory Kernel_Tasks_Properties
  imports Kernel_Tasks Kernel_Memory_Properties Kernel_Console_Properties
begin

text \<open>
  The scheduler as a search in cyclic order and its fairness, the invariant of the task table
  across every system call (fresh process numbers, tasks in memory of their own, an allocator that
  cannot run dry before the table is full), and what a child inherits from \<open>fork\<close>.
\<close>

subsection \<open>The scheduler\<close>

definition runnable :: "kernel \<Rightarrow> int \<Rightarrow> bool" where
  "runnable k i =
     (taskState (task k i) = READY \<or>
      taskState (task k i) = WAITING \<and>
        (case getTaskIndex (waitPid (task k i)) k of
           None \<Rightarrow> False | Some c \<Rightarrow> taskState (task k c) = FINISHED))"

text \<open>All tasks, starting with the one after the current task.\<close>

definition cyclic_order :: "kernel \<Rightarrow> int list" where
  "cyclic_order k = map (\<lambda>d. (currentTask k + 1 + int d) mod numTasks k) [0..<nat (numTasks k)]"

definition saved :: "u32 \<Rightarrow> kernel \<Rightarrow> kernel" where
  "saved cpu k =
     (if 0 \<le> currentTask k
      then set_task (task_ptr k (currentTask k)) (\<lambda>t. t\<lparr>cpustate := cpu\<rparr>) k else k)"

definition dispatched :: "int \<Rightarrow> kernel \<Rightarrow> kernel" where
  "dispatched i k =
     (if taskState (task k i) = WAITING
      then set_task (task_ptr k i) (\<lambda>t. t\<lparr>taskState := READY, waitPid := 0\<rparr>) k else k)
     \<lparr>currentTask := i\<rparr>"

lemma set_task_simps [simp]:
  "tasks (set_task a f k) = tasks k" "numTasks (set_task a f k) = numTasks k"
  "currentTask (set_task a f k) = currentTask k" "processCounter (set_task a f k) = processCounter k"
  "frame_at (set_task a f k) = frame_at k" "memory_manager (set_task a f k) = memory_manager k"
  "task_ptr (set_task a f k) i = task_ptr k i"
  "task_at (set_task a f k) = (task_at k)(a := f (task_at k a))"
  "task (set_task a f k) i = (if task_ptr k i = a then f (task k i) else task k i)"
  by (simp_all add: set_task_def task_ptr_def task_def)

lemma set_frame_simps [simp]:
  "tasks (set_frame a g k) = tasks k" "numTasks (set_frame a g k) = numTasks k"
  "currentTask (set_frame a g k) = currentTask k" "processCounter (set_frame a g k) = processCounter k"
  "task_at (set_frame a g k) = task_at k" "memory_manager (set_frame a g k) = memory_manager k"
  "task_ptr (set_frame a g k) i = task_ptr k i" "task (set_frame a g k) i = task k i"
  "frame_at (set_frame a g k) = (frame_at k)(a := g (frame_at k a))"
  by (simp_all add: set_frame_def task_ptr_def task_def)

lemma wake_runnable:
  "taskState (task (wake i k) i) = READY \<longleftrightarrow> runnable k i"
  by (auto simp: wake_def runnable_def split: option.splits)

lemma wake_blocked: "\<not> runnable k i \<Longrightarrow> wake i k = k"
  by (auto simp: wake_def runnable_def split: option.splits)

lemma wake_dispatched: "runnable k i \<Longrightarrow> (wake i k)\<lparr>currentTask := i\<rparr> = dispatched i k"
  by (auto simp: wake_def runnable_def dispatched_def split: option.splits)

lemma wake_cpustate: "cpustate (task (wake i k) i) = cpustate (task k i)"
  by (auto simp: wake_def split: option.splits)

lemma schedule_loop_find:
  "schedule_loop n s cpu k =
     (case find (runnable k) (map (\<lambda>d. (s + int d) mod numTasks k) [0..<n]) of
        None \<Rightarrow> (cpu, k) | Some j \<Rightarrow> (cpustate (task k j), dispatched j k))"
  if "s mod numTasks k = s"
  using that
proof (induction n arbitrary: s)
  case (Suc n)
  have list: "map (\<lambda>d. (s + int d) mod numTasks k) [0..<Suc n] =
      s # map (\<lambda>d. ((s + 1) mod numTasks k + int d) mod numTasks k) [0..<n]"
    by (rule nth_equalityI) (auto simp: nth_Cons' Suc.prems mod_simps algebra_simps simp del: upt_Suc)
  show ?case
  proof (cases "runnable k s")
    case True
    then show ?thesis
      by (simp only: list schedule_loop.simps Let_def wake_runnable if_True find.simps
          option.case wake_cpustate wake_dispatched)
  next
    case False
    then have nr: "taskState (task k s) \<noteq> READY" by (simp add: runnable_def)
    from Suc.IH [of "(s + 1) mod numTasks k"] False nr show ?thesis
      unfolding list schedule_loop.simps Let_def wake_blocked [OF False]
      by (simp del: schedule_loop.simps upt_Suc)
  qed
qed simp

lemma saved_simps [simp]:
  "numTasks (saved cpu k) = numTasks k" "currentTask (saved cpu k) = currentTask k"
  "tasks (saved cpu k) = tasks k" "taskState (task (saved cpu k) i) = taskState (task k i)"
  "waitPid (task (saved cpu k) i) = waitPid (task k i)" "pid (task (saved cpu k) i) = pid (task k i)"
  by (simp_all add: saved_def)

lemma dispatched_simps [simp]:
  "numTasks (dispatched j k) = numTasks k" "currentTask (dispatched j k) = j"
  "tasks (dispatched j k) = tasks k"
  by (simp_all add: dispatched_def)

lemma current_simps [simp]:
  "task (k\<lparr>currentTask := c\<rparr>) i = task k i" "task_ptr (k\<lparr>currentTask := c\<rparr>) i = task_ptr k i"
  by (simp_all add: task_def task_ptr_def)

lemma dispatched_task:
  "task (dispatched j k) i =
     (if taskState (task k j) = WAITING \<and> task_ptr k i = task_ptr k j
      then (task k i)\<lparr>taskState := READY, waitPid := 0\<rparr> else task k i)"
  by (simp add: dispatched_def)

lemma getTaskIndex_saved [simp]: "getTaskIndex p (saved cpu k) = getTaskIndex p k"
  by (simp add: getTaskIndex_def)

lemma runnable_saved [simp]: "runnable (saved cpu k) = runnable k"
  by (rule ext) (simp add: runnable_def split: option.split)

lemma cyclic_saved [simp]: "cyclic_order (saved cpu k) = cyclic_order k"
  by (simp add: cyclic_order_def)

lemma Schedule_find:
  assumes "0 < numTasks k"
  shows "Schedule cpu k =
    (case find (runnable k) (cyclic_order k) of
       None \<Rightarrow> (cpu, saved cpu k)
     | Some j \<Rightarrow> (cpustate (task (saved cpu k) j), dispatched j (saved cpu k)))"
proof -
  have "Schedule cpu k =
      schedule_loop (nat (numTasks k)) ((currentTask k + 1) mod numTasks k) cpu (saved cpu k)"
    using assms by (simp add: Schedule_def saved_def Let_def)
  moreover have "map (\<lambda>d. ((currentTask k + 1) mod numTasks k + int d) mod numTasks (saved cpu k))
      [0..<nat (numTasks k)] = cyclic_order k"
    by (simp add: cyclic_order_def mod_simps)
  ultimately show ?thesis
    by (simp add: schedule_loop_find cong: option.case_cong)
qed


subsection \<open>Fairness\<close>

text \<open>How far behind the current task a task comes in the cyclic order.\<close>

definition distance :: "int \<Rightarrow> kernel \<Rightarrow> nat" where
  "distance i k = nat ((i - currentTask k - 1) mod numTasks k)"

lemma distance_less: "0 < numTasks k \<Longrightarrow> distance i k < nat (numTasks k)"
  by (simp add: distance_def)

lemma cyclic_nth:
  "d < nat (numTasks k) \<Longrightarrow> cyclic_order k ! d = (currentTask k + 1 + int d) mod numTasks k"
  by (simp add: cyclic_order_def)

lemma cyclic_distance:
  assumes "0 \<le> i" and "i < numTasks k"
  shows "cyclic_order k ! distance i k = i"
proof -
  have "(currentTask k + 1 + (i - currentTask k - 1) mod numTasks k) mod numTasks k = i"
    using assms by (simp add: mod_simps)
  with assms distance_less [of k i] show ?thesis
    by (simp add: cyclic_nth) (simp add: distance_def)
qed

text \<open>One scheduling round comes closer to every ready task or runs it.\<close>

lemma find_first:
  assumes "P (xs ! d)" and "d < length xs"
  shows "\<exists>e \<le> d. find P xs = Some (xs ! e)"
proof -
  from assms have "\<exists>i < length xs. P (xs ! i)" by blast
  then obtain x where x: "find P xs = Some x"
    by (metis find_None_iff nth_mem option.exhaust)
  then obtain e where e: "e < length xs" "P (xs ! e)" "x = xs ! e" "\<forall>j < e. \<not> P (xs ! j)"
    by (auto simp: find_Some_iff)
  with assms have "e \<le> d" by (meson not_le)
  with x e show ?thesis by blast
qed

lemma schedule_closer:
  assumes n: "0 < numTasks k" and i: "0 \<le> i" "i < numTasks k" and ready: "taskState (task k i) = READY"
  shows "numTasks (snd (Schedule cpu k)) = numTasks k \<and>
    taskState (task (snd (Schedule cpu k)) i) = READY \<and>
    0 \<le> currentTask (snd (Schedule cpu k)) \<and> currentTask (snd (Schedule cpu k)) < numTasks k \<and>
    (currentTask (snd (Schedule cpu k)) = i \<or> distance i (snd (Schedule cpu k)) < distance i k)"
proof -
  have "runnable k (cyclic_order k ! distance i k)"
    using ready cyclic_distance [OF i] by (simp add: runnable_def)
  moreover have "distance i k < length (cyclic_order k)"
    using distance_less [OF n] by (simp add: cyclic_order_def)
  ultimately obtain e where e: "e \<le> distance i k" "find (runnable k) (cyclic_order k) = Some (cyclic_order k ! e)"
    using find_first by blast
  let ?j = "cyclic_order k ! e"
  have after: "snd (Schedule cpu k) = dispatched ?j (saved cpu k)"
    by (simp add: Schedule_find [OF n] e(2))
  have e_less: "e < nat (numTasks k)" using e(1) distance_less [OF n, of i] by simp
  have j: "?j = (currentTask k + 1 + int e) mod numTasks k" by (rule cyclic_nth [OF e_less])
  have "taskState (task (dispatched ?j (saved cpu k)) i) = READY"
    using ready by (simp add: dispatched_task)
  moreover have "?j = i \<or> distance i (dispatched ?j (saved cpu k)) < distance i k"
  proof (cases "e = distance i k")
    case True
    then show ?thesis using cyclic_distance [OF i] by simp
  next
    case False
    with e(1) have less: "int e < (i - currentTask k - 1) mod numTasks k" by (simp add: distance_def)
    have "(i - ?j - 1) mod numTasks k = ((i - 1) - ?j) mod numTasks k" by (simp add: algebra_simps)
    also have "\<dots> = (i - 1 - (currentTask k + 1 + int e)) mod numTasks k"
      unfolding j by (rule mod_diff_right_eq)
    also have "\<dots> = ((i - currentTask k - 1) - (int e + 1)) mod numTasks k" by (simp add: algebra_simps)
    also have "\<dots> = ((i - currentTask k - 1) mod numTasks k - (int e + 1)) mod numTasks k"
      by (rule mod_diff_left_eq [symmetric])
    also have "\<dots> = ((i - currentTask k - 1) mod numTasks k - int e - 1) mod numTasks k"
      by (simp only: diff_diff_eq)
    also have "\<dots> = (i - currentTask k - 1) mod numTasks k - int e - 1"
    proof (rule mod_pos_pos_trivial)
      have "(i - currentTask k - 1) mod numTasks k < numTasks k" using n by simp
      then show "(i - currentTask k - 1) mod numTasks k - int e - 1 < numTasks k" by linarith
    qed (use less in linarith)
    finally show ?thesis using less by (simp add: distance_def)
  qed
  ultimately show ?thesis unfolding after using n j by simp
qed


definition schedule_all :: "u32 list \<Rightarrow> kernel \<Rightarrow> kernel" where
  "schedule_all cpus k = fold (\<lambda>cpu k. snd (Schedule cpu k)) cpus k"

lemma schedule_reaches:
  assumes "0 < numTasks k" and "0 \<le> i" and "i < numTasks k" and "taskState (task k i) = READY"
    and "distance i k \<le> d" and "d < length cpus"
  shows "\<exists>m. 0 < m \<and> m \<le> d + 1 \<and> currentTask (schedule_all (take m cpus) k) = i"
  using assms
proof (induction d arbitrary: k cpus)
  case (0 k)
  then obtain cpu cs' where cpus: "cpus = cpu # cs'" by (cases cpus) auto
  from schedule_closer [OF 0(1-4), of cpu] 0(5) have "currentTask (snd (Schedule cpu k)) = i" by auto
  then show ?case unfolding cpus by (intro exI [of _ 1]) (simp add: schedule_all_def)
next
  case (Suc d k)
  then obtain cpu cs' where cpus: "cpus = cpu # cs'" by (cases cpus) auto
  let ?k = "snd (Schedule cpu k)"
  note closer = schedule_closer [OF Suc.prems(1-4), of cpu]
  show ?case
  proof (cases "currentTask ?k = i")
    case True
    then show ?thesis unfolding cpus by (intro exI [of _ 1]) (simp add: schedule_all_def)
  next
    case False
    with closer Suc.prems have "distance i ?k \<le> d" by auto
    with closer Suc.prems cpus have "\<exists>m. 0 < m \<and> m \<le> d + 1 \<and> currentTask (schedule_all (take m cs') ?k) = i"
      by (intro Suc.IH) auto
    then obtain m where "m \<le> d + 1" "currentTask (schedule_all (take m cs') ?k) = i" by blast
    then show ?thesis unfolding cpus by (intro exI [of _ "Suc m"]) (simp add: schedule_all_def)
  qed
qed

subsection \<open>The table and the heap\<close>

definition task_table_ok :: "kernel \<Rightarrow> bool" where
  "task_table_ok k =
     (length (tasks k) = 256 \<and> 1 \<le> numTasks k \<and> numTasks k \<le> 256 \<and>
      -1 \<le> currentTask k \<and> currentTask k < numTasks k \<and>
      unat (processCounter k) = nat (numTasks k) \<and>
      (\<forall>i. 0 \<le> i \<and> i < numTasks k \<longrightarrow> unat (pid (task k i)) = nat i) \<and>
      (\<forall>i. 0 < i \<and> i < numTasks k \<longrightarrow> unat (ppid (task k i)) < nat i) \<and>
      (\<forall>i. 0 \<le> i \<and> i < numTasks k \<and> taskState (task k i) = WAITING \<longrightarrow>
         waitPid (task k i) \<noteq> 0 \<and> waitPid (task k i) \<noteq> pid (task k i) \<and>
         unat (waitPid (task k i)) < nat (numTasks k)))"

text \<open>
  The first task lies at address 0, below the heap; every other task has a block of its own; and
  what is left of the heap is one free block with room for all tasks that still fit the table.
\<close>

definition heap_ok :: "nat \<Rightarrow> nat \<Rightarrow> kernel \<Rightarrow> bool" where
  "heap_ok start e k =
     (task_ptr k 0 = 0 \<and> 4120 \<le> start \<and>
      (\<exists>mm us f. memory_manager k = Some mm \<and> heap_blocks mm start e (us @ [f]) \<and>
         (\<forall>u \<in> set us. used u) \<and> \<not> used f \<and> (256 - nat (numTasks k)) * 4136 + 16 < bsize f \<and>
         (\<forall>i. 0 < i \<and> i < numTasks k \<longrightarrow>
            (\<exists>u \<in> set us. task_ptr k i = baddr u + HEADER \<and> bsize u = 4120)) \<and>
         inj_on (task_ptr k) {0..<numTasks k}))"

definition kernel_ok :: "nat \<Rightarrow> nat \<Rightarrow> kernel \<Rightarrow> bool" where
  "kernel_ok start e k = (task_table_ok k \<and> heap_ok start e k)"

lemma task_table_ok_set_task:
  assumes "task_table_ok k" and "\<And>t. pid (g t) = pid t \<and> ppid (g t) = ppid t"
    and "\<And>t. taskState (g t) = WAITING \<Longrightarrow> taskState t = WAITING \<and> waitPid (g t) = waitPid t"
  shows "task_table_ok (set_task a g k)"
  using assms unfolding task_table_ok_def by auto

lemma heap_ok_cong:
  "tasks k' = tasks k \<Longrightarrow> numTasks k' = numTasks k \<Longrightarrow> memory_manager k' = memory_manager k \<Longrightarrow>
   heap_ok start e k' = heap_ok start e k"
  by (simp add: heap_ok_def task_ptr_def [abs_def])

lemma task_table_ok_cong:
  "tasks k' = tasks k \<Longrightarrow> numTasks k' = numTasks k \<Longrightarrow> currentTask k' = currentTask k \<Longrightarrow>
   processCounter k' = processCounter k \<Longrightarrow> task_at k' = task_at k \<Longrightarrow> task_table_ok k' = task_table_ok k"
  by (simp add: task_table_ok_def task_def task_ptr_def)

lemma kernel_ok_cong:
  "tasks k' = tasks k \<Longrightarrow> numTasks k' = numTasks k \<Longrightarrow> currentTask k' = currentTask k \<Longrightarrow>
   processCounter k' = processCounter k \<Longrightarrow> task_at k' = task_at k \<Longrightarrow>
   memory_manager k' = memory_manager k \<Longrightarrow> kernel_ok start e k' = kernel_ok start e k"
  unfolding kernel_ok_def using heap_ok_cong [of k' k] task_table_ok_cong [of k' k] by simp

lemma kernel_ok_frames [simp]:
  "kernel_ok start e (k\<lparr>frame_at := fr\<rparr>) = kernel_ok start e k"
  "kernel_ok start e (k\<lparr>screen := scr\<rparr>) = kernel_ok start e k"
  by (rule kernel_ok_cong; simp)+

lemma kernel_ok_set_task:
  assumes "kernel_ok start e k" and "\<And>t. pid (g t) = pid t \<and> ppid (g t) = ppid t"
    and "\<And>t. taskState (g t) = WAITING \<Longrightarrow> taskState t = WAITING \<and> waitPid (g t) = waitPid t"
  shows "kernel_ok start e (set_task a g k)"
  using assms task_table_ok_set_task [of k g a] heap_ok_cong [of "set_task a g k" k]
  unfolding kernel_ok_def by simp

lemma kernel_ok_set_frame [simp]: "kernel_ok start e (set_frame a g k) = kernel_ok start e k"
  by (rule kernel_ok_cong) simp_all

lemma kernel_ok_current:
  assumes "kernel_ok start e k" and "0 \<le> j" and "j < numTasks k"
  shows "kernel_ok start e (k\<lparr>currentTask := j\<rparr>)"
proof -
  have "task_table_ok (k\<lparr>currentTask := j\<rparr>)"
    using assms unfolding kernel_ok_def task_table_ok_def by simp
  moreover have "heap_ok start e (k\<lparr>currentTask := j\<rparr>) = heap_ok start e k"
    by (rule heap_ok_cong) simp_all
  ultimately show ?thesis using assms(1) by (simp add: kernel_ok_def)
qed

lemma kernel_ok_saved: "kernel_ok start e k \<Longrightarrow> kernel_ok start e (saved cpu k)"
  unfolding saved_def by (auto intro!: kernel_ok_set_task)

lemma kernel_ok_numTasks: "kernel_ok start e k \<Longrightarrow> 0 < numTasks k"
  by (simp add: kernel_ok_def task_table_ok_def)

lemma cyclic_range: "j \<in> set (cyclic_order k) \<Longrightarrow> 0 < numTasks k \<Longrightarrow> 0 \<le> j \<and> j < numTasks k"
  by (auto simp: cyclic_order_def)

lemma kernel_ok_Schedule:
  assumes "kernel_ok start e k"
  shows "kernel_ok start e (snd (Schedule cpu k))"
proof (cases "find (runnable k) (cyclic_order k)")
  case None
  then show ?thesis
    using Schedule_find [OF kernel_ok_numTasks [OF assms]] kernel_ok_saved [OF assms] by simp
next
  case (Some j)
  then have "j \<in> set (cyclic_order k)" by (auto simp: find_Some_iff)
  then have j: "0 \<le> j" "j < numTasks k" using cyclic_range kernel_ok_numTasks [OF assms] by blast+
  have "kernel_ok start e (dispatched j (saved cpu k))"
    unfolding dispatched_def
    by (intro kernel_ok_current) (auto simp: j intro!: kernel_ok_set_task kernel_ok_saved assms)
  then show ?thesis
    using Schedule_find [OF kernel_ok_numTasks [OF assms]] Some by simp
qed

lemma printed_screen:
  "print s k = k\<lparr>screen := printf s (screen k)\<rparr>" "print_int n k = k\<lparr>screen := printfInt n (screen k)\<rparr>"
  by (simp_all add: print_def print_int_def)

lemma kernel_ok_print [simp]:
  "kernel_ok start e (print s k) = kernel_ok start e k"
  "kernel_ok start e (print_int n k) = kernel_ok start e k"
  by (rule kernel_ok_cong; simp add: printed_screen)+

lemma kernel_ok_fold_print:
  "(\<And>i k. kernel_ok start e (g i k) = kernel_ok start e k) \<Longrightarrow>
   kernel_ok start e (fold g is k) = kernel_ok start e k"
  by (induction "is" arbitrary: k) simp_all

lemma kernel_ok_table_printed [simp]: "kernel_ok start e (printProcessTable k) = kernel_ok start e k"
  by (simp add: printProcessTable_def kernel_ok_fold_print)

lemma kernel_ok_exit: "kernel_ok start e k \<Longrightarrow> kernel_ok start e (snd (exitTask k))"
  unfolding exitTask_def by (auto intro!: kernel_ok_set_task)

lemma kernel_ok_execve: "kernel_ok start e k \<Longrightarrow> kernel_ok start e (snd (execveTask entry k))"
  unfolding execveTask_def Let_def by (auto intro!: kernel_ok_set_task)


lemma getTaskIndex_Some:
  assumes "getTaskIndex p k = Some c"
  shows "0 \<le> c \<and> c < numTasks k \<and> pid (task k c) = p"
proof -
  from assms have "c \<in> set [0..numTasks k - 1]" and "pid (task k c) = p"
    unfolding getTaskIndex_def find_Some_iff by (metis nth_mem)+
  then show ?thesis by simp
qed

lemma kernel_ok_waitpid:
  assumes "kernel_ok start e k" and "0 \<le> currentTask k"
  shows "kernel_ok start e (snd (waitpidTask cpu k))"
proof -
  let ?p = "ebx (frame_at k cpu)"
  let ?a = "task_ptr k (currentTask k)"
  let ?g = "\<lambda>t. t\<lparr>taskState := WAITING, waitPid := ?p, cpustate := cpu\<rparr>"
  have ok: "kernel_ok start e (set_task ?a ?g k)"
    if p: "?p \<noteq> pid (task k (currentTask k))" "?p \<noteq> 0" and c: "getTaskIndex ?p k = Some c" for c
  proof -
    have t: "task_table_ok k" and h: "heap_ok start e k" using assms(1) by (simp_all add: kernel_ok_def)
    from h have inj: "inj_on (task_ptr k) {0..<numTasks k}" by (auto simp: heap_ok_def)
    have cur: "currentTask k \<in> {0..<numTasks k}" using assms(2) t by (simp add: task_table_ok_def)
    have other: "task k i = task k (currentTask k)"
      if "0 \<le> i" "i < numTasks k" "task_ptr k i = ?a" for i
      using inj_onD [OF inj that(3) _ cur] that by simp
    from getTaskIndex_Some [OF c] t have "unat ?p < nat (numTasks k)"
      unfolding task_table_ok_def by force
    with t p have "task_table_ok (set_task ?a ?g k)"
      unfolding task_table_ok_def using other by auto
    moreover have "heap_ok start e (set_task ?a ?g k)"
      using h heap_ok_cong [of "set_task ?a ?g k" k] by simp
    ultimately show ?thesis by (simp add: kernel_ok_def)
  qed
  with assms(1) show ?thesis
    unfolding waitpidTask_def Let_def by (auto split: option.splits)
qed

subsection \<open>fork\<close>

lemma spec_malloc_last:
  assumes "\<forall>u \<in> set us. used u" and "\<not> used f" and "n + 17 \<le> bsize f"
  shows "spec_malloc n (us @ [f]) =
    (baddr f + HEADER, us @ [\<lparr>baddr = baddr f, bsize = n, used = True\<rparr>,
       \<lparr>baddr = baddr f + HEADER + of_nat n, bsize = bsize f - n - 16, used = False\<rparr>])"
  using assms by (induction us) simp_all

text \<open>What \<open>fork\<close> does when the table is not full and the parent has a descriptor table and an entry.\<close>

definition forked :: "u32 \<Rightarrow> u32 \<Rightarrow> MemoryManager option \<Rightarrow> kernel \<Rightarrow> kernel \<Rightarrow> bool" where
  "forked cpu p mm k k' =
     (tasks k' = (tasks k)[nat (numTasks k) := p] \<and> numTasks k' = numTasks k + 1 \<and>
      currentTask k' = currentTask k \<and> processCounter k' = processCounter k + 1 \<and>
      memory_manager k' = mm \<and> screen k' = screen k \<and>
      task_at k' = (task_at k)(p := \<lparr>cpustate = p + (cpu - task_ptr k (currentTask k)),
        taskState = READY, pid = processCounter k, ppid = pid (task k (currentTask k)),
        gdt = gdt (task k (currentTask k)), waitPid = -1\<rparr>))"


lemma task_assigned:
  "(t :: Task)\<lparr>pid := a, ppid := b, gdt := c, cpustate := d, taskState := e, waitPid := w\<rparr> =
   \<lparr>cpustate = d, taskState = e, pid = a, ppid = b, gdt = c, waitPid = w\<rparr>"
  by (cases t) simp

lemma construct_task_simps:
  "tasks (construct_task p g entry k) = tasks k" "numTasks (construct_task p g entry k) = numTasks k"
  "currentTask (construct_task p g entry k) = currentTask k"
  "processCounter (construct_task p g entry k) = processCounter k + 1"
  "memory_manager (construct_task p g entry k) = memory_manager k"
  "screen (construct_task p g entry k) = screen k"
  "entry \<noteq> 0 \<Longrightarrow> task_at (construct_task p g entry k) =
     (task_at k)(p := \<lparr>cpustate = p + STACK - CPU_SIZE, taskState = READY, pid = processCounter k,
       ppid = -1, gdt = g, waitPid = -1\<rparr>)"
  "a \<noteq> p + STACK - CPU_SIZE \<Longrightarrow> entry \<noteq> 0 \<Longrightarrow> frame_at (construct_task p g entry k) a = frame_at k a"
  by (simp_all add: construct_task_def Let_def set_frame_def set_task_def task_assigned)

lemma forkTask_forked:
  assumes "numTasks k < 256" and "0 \<le> currentTask k" and "currentTask k < numTasks k"
    and "length (tasks k) = 256" and "gdt (task k (currentTask k)) \<noteq> 0" and "eip (frame_at k cpu) \<noteq> 0"
    and "operator_new TASK_SIZE (memory_manager k) = Some (p, mm)" and "p \<noteq> 0"
    and "p \<noteq> task_ptr k (currentTask k)"
  shows "\<exists>k'. forkTask cpu k = Some (processCounter k, k') \<and> forked cpu p mm k k' \<and>
    frame_at k' =
      (let parent = task_ptr k (currentTask k);
           f = copy_stack parent p
             (frame_at (construct_task p (gdt (task k (currentTask k))) (eip (frame_at k cpu)) k));
           c = p + (cpu - parent)
       in f(c := (f c)\<lparr>esp := p + (esp (f cpu) - parent), ecx := 0\<rparr>))"
proof -
  let ?n = "nat (numTasks k)"
  have n: "nat (currentTask k) \<noteq> ?n" "?n < 256" using assms(1-3) by auto
  have fr: "frame_at (construct_task p g en (k\<lparr>memory_manager := mm\<rparr>)) = frame_at (construct_task p g en k)" for g en
    by (simp add: construct_task_def Let_def set_frame_def set_task_def)
  note [simp] = construct_task_simps fr
  from assms(1,5-8) show ?thesis
    using n assms(4,9)
    by (simp add: forkTask_def Let_def task_def task_ptr_def forked_def set_task_def set_frame_def)
qed

lemma malloc_task:
  assumes "heap_ok start e k" and "numTasks k < 256" and "1 \<le> numTasks k"
  shows "\<exists>p mm. operator_new TASK_SIZE (memory_manager k) = Some (p, Some mm) \<and> p \<noteq> 0 \<and>
    (\<forall>i. 0 \<le> i \<and> i < numTasks k \<longrightarrow> task_ptr k i \<noteq> p) \<and>
    (\<exists>us f. heap_blocks mm start e (us @ [f]) \<and> (\<forall>u \<in> set us. used u) \<and> \<not> used f \<and>
       (256 - nat (numTasks k + 1)) * 4136 + 16 < bsize f \<and>
       (\<exists>u \<in> set us. p = baddr u + HEADER \<and> bsize u = 4120) \<and>
       (\<forall>i. 0 < i \<and> i < numTasks k \<longrightarrow>
          (\<exists>u \<in> set us. task_ptr k i = baddr u + HEADER \<and> bsize u = 4120)))"
proof -
  from assms(1) obtain mm us f where mm: "memory_manager k = Some mm" "heap_blocks mm start e (us @ [f])"
    and us: "\<forall>u \<in> set us. used u" "\<not> used f"
    and room: "(256 - nat (numTasks k)) * 4136 + 16 < bsize f"
    and blocks: "\<And>i. 0 < i \<Longrightarrow> i < numTasks k \<Longrightarrow> \<exists>u \<in> set us. task_ptr k i = baddr u + HEADER \<and> bsize u = 4120"
    and zero: "task_ptr k 0 = 0"
    unfolding heap_ok_def by auto
  have left: "256 - nat (numTasks k) = Suc (256 - nat (numTasks k + 1))" using assms(2,3) by linarith
  with room have big: "4120 + 17 \<le> bsize f" "(256 - nat (numTasks k + 1)) * 4136 + 16 < bsize f - 4120 - 16"
    by simp_all
  let ?bs = "us @ [\<lparr>baddr = baddr f, bsize = 4120, used = True\<rparr>,
     \<lparr>baddr = baddr f + HEADER + 4120, bsize = bsize f - 4120 - 16, used = False\<rparr>]"
  have spec: "spec_malloc 4120 (us @ [f]) = (baddr f + HEADER, ?bs)"
    using spec_malloc_last [OF us big(1)] by simp
  have size: "unat TASK_SIZE = 4120" by (simp add: TASK_SIZE_def)
  from malloc_refines [OF mm(2), of TASK_SIZE] obtain mm' where
    mm': "malloc TASK_SIZE mm = Some (baddr f + HEADER, mm')" "heap_blocks mm' start e ?bs"
    unfolding size spec by auto
  from mm(2) have tiles: "tiles start (us @ [f]) e" and small: "e < 2 ^ 32" "0 < start"
    by (auto simp: heap_blocks_def)
  from tiles_addr [OF tiles, of f] small have f: "unat (baddr f + HEADER) = unat (baddr f) + 16"
    by (simp add: unat_sum)
  then have nz: "baddr f + HEADER \<noteq> 0" by (metis add_is_0 unat_0 zero_neq_numeral)
  have "task_ptr k i \<noteq> baddr f + HEADER" if i: "0 \<le> i" "i < numTasks k" for i
  proof (cases "i = 0")
    case True
    with zero nz show ?thesis by simp
  next
    case False
    with i blocks obtain u where u: "u \<in> set us" "task_ptr k i = baddr u + HEADER" by force
    from tiles_distinct [OF tiles] have "baddr f \<notin> baddr ` set us" by simp
    with u(1) have "baddr u \<noteq> baddr f" by (metis imageI)
    with u(2) show ?thesis by simp
  qed
  moreover have "operator_new TASK_SIZE (memory_manager k) = Some (baddr f + HEADER, Some mm')"
    by (simp add: operator_new_def mm(1) mm'(1))
  moreover have "\<exists>us f'. heap_blocks mm' start e (us @ [f']) \<and> (\<forall>u \<in> set us. used u) \<and> \<not> used f' \<and>
       (256 - nat (numTasks k + 1)) * 4136 + 16 < bsize f' \<and>
       (\<exists>u \<in> set us. baddr f + HEADER = baddr u + HEADER \<and> bsize u = 4120) \<and>
       (\<forall>i. 0 < i \<and> i < numTasks k \<longrightarrow>
          (\<exists>u \<in> set us. task_ptr k i = baddr u + HEADER \<and> bsize u = 4120))"
    by (rule exI [of _ "us @ [\<lparr>baddr = baddr f, bsize = 4120, used = True\<rparr>]"],
        rule exI [of _ "\<lparr>baddr = baddr f + HEADER + 4120, bsize = bsize f - 4120 - 16, used = False\<rparr>"])
      (use mm'(2) us big(2) blocks in auto)
  ultimately show ?thesis using nz by blast
qed

lemma forked_ptr:
  assumes "forked cpu p mm k k'" and "length (tasks k) = 256" and "0 \<le> numTasks k" and "numTasks k < 256"
  shows "0 \<le> i \<Longrightarrow> i \<noteq> numTasks k \<Longrightarrow> task_ptr k' i = task_ptr k i" and "task_ptr k' (numTasks k) = p"
  using assms by (auto simp: forked_def task_ptr_def nth_list_update)

lemma forked_task:
  assumes "forked cpu p mm k k'" and "length (tasks k) = 256" and "0 \<le> numTasks k" and "numTasks k < 256"
    and "\<forall>i. 0 \<le> i \<and> i < numTasks k \<longrightarrow> task_ptr k i \<noteq> p"
  shows "0 \<le> i \<Longrightarrow> i < numTasks k \<Longrightarrow> task k' i = task k i"
    and "task k' (numTasks k) = \<lparr>cpustate = p + (cpu - task_ptr k (currentTask k)),
        taskState = READY, pid = processCounter k, ppid = pid (task k (currentTask k)),
        gdt = gdt (task k (currentTask k)), waitPid = -1\<rparr>"
  using assms forked_ptr [OF assms(1-4)] by (auto simp: task_def forked_def)

lemma forked_table_ok:
  assumes "task_table_ok k" and "forked cpu p mm k k'" and "numTasks k < 256" and "0 \<le> currentTask k"
    and "\<forall>i. 0 \<le> i \<and> i < numTasks k \<longrightarrow> task_ptr k i \<noteq> p"
  shows "task_table_ok k'"
proof -
  let ?n = "numTasks k"
  from assms(1) have k: "length (tasks k) = 256" "1 \<le> ?n" "currentTask k < ?n"
    "unat (processCounter k) = nat ?n"
    and pids: "\<And>i. 0 \<le> i \<Longrightarrow> i < ?n \<Longrightarrow> unat (pid (task k i)) = nat i"
    and ppids: "\<And>i. 0 < i \<Longrightarrow> i < ?n \<Longrightarrow> unat (ppid (task k i)) < nat i"
    and waits: "\<And>i. 0 \<le> i \<Longrightarrow> i < ?n \<Longrightarrow> taskState (task k i) = WAITING \<Longrightarrow>
         waitPid (task k i) \<noteq> 0 \<and> waitPid (task k i) \<noteq> pid (task k i) \<and>
         unat (waitPid (task k i)) < nat ?n"
    unfolding task_table_ok_def by auto
  have "0 \<le> ?n" using k(2) by simp
  note old = forked_task(1) [OF assms(2) k(1) this assms(3,5)]
    and new = forked_task(2) [OF assms(2) k(1) this assms(3,5)]
  have k': "numTasks k' = ?n + 1" "currentTask k' = currentTask k" "length (tasks k') = 256"
    "processCounter k' = processCounter k + 1"
    using assms(2) k(1) by (auto simp: forked_def)
  have "unat (processCounter k + 1) = nat (?n + 1)"
    using k(2,4) assms(3) by (simp add: unat_word_ariths nat_add_distrib)
  moreover have "unat (pid (task k' i)) = nat i" if "0 \<le> i" "i < ?n + 1" for i
    using old pids new k(4) that by (cases "i = ?n") auto
  moreover have "unat (ppid (task k' i)) < nat i" if "0 < i" "i < ?n + 1" for i
    using old ppids new pids [OF assms(4) k(3)] k(3) assms(4) that by (cases "i = ?n") auto
  moreover have "waitPid (task k' i) \<noteq> 0 \<and> waitPid (task k' i) \<noteq> pid (task k' i) \<and>
      unat (waitPid (task k' i)) < nat (?n + 1)"
    if "0 \<le> i" "i < ?n + 1" "taskState (task k' i) = WAITING" for i
  proof -
    from that new have "i < ?n" by (cases "i = ?n") auto
    with that old waits [of i] show ?thesis by auto
  qed
  ultimately show ?thesis
    using k k' assms(3,4) unfolding task_table_ok_def by auto
qed

lemma forked_heap_ok:
  assumes "heap_ok start e k" and "task_table_ok k" and "forked cpu p (Some mm) k k'" and "numTasks k < 256"
    and fresh: "\<forall>i. 0 \<le> i \<and> i < numTasks k \<longrightarrow> task_ptr k i \<noteq> p"
    and blocks: "heap_blocks mm start e (us @ [f])" "\<forall>u \<in> set us. used u" "\<not> used f"
      "(256 - nat (numTasks k + 1)) * 4136 + 16 < bsize f"
      "\<exists>u \<in> set us. p = baddr u + HEADER \<and> bsize u = 4120"
      "\<forall>i. 0 < i \<and> i < numTasks k \<longrightarrow> (\<exists>u \<in> set us. task_ptr k i = baddr u + HEADER \<and> bsize u = 4120)"
  shows "heap_ok start e k'"
proof -
  let ?n = "numTasks k"
  from assms(2) have k: "length (tasks k) = 256" "1 \<le> ?n" by (auto simp: task_table_ok_def)
  have "0 \<le> ?n" using k(2) by simp
  note old = forked_ptr(1) [OF assms(3) k(1) this assms(4)]
    and new = forked_ptr(2) [OF assms(3) k(1) this assms(4)]
  from assms(1) have inj: "inj_on (task_ptr k) {0..<?n}" and zero: "task_ptr k 0 = 0" "4120 \<le> start"
    by (auto simp: heap_ok_def)
  have "inj_on (task_ptr k') {0..<?n}" using inj old by (simp add: inj_on_def)
  moreover have "{0..<?n + 1} = insert ?n {0..<?n}" using k(2) by auto
  moreover have "p \<notin> task_ptr k' ` {0..<?n}" using fresh old by auto
  ultimately have "inj_on (task_ptr k') {0..<?n + 1}" using new by simp
  moreover have "\<exists>u \<in> set us. task_ptr k' i = baddr u + HEADER \<and> bsize u = 4120" if "0 < i" "i < ?n + 1" for i
    using that old new blocks(5,6) by (cases "i = ?n") auto
  moreover have "numTasks k' = ?n + 1" "memory_manager k' = Some mm" using assms(3) by (auto simp: forked_def)
  moreover have "task_ptr k' 0 = 0" using old [of 0] k(2) zero by simp
  ultimately show ?thesis
    unfolding heap_ok_def using zero(2) blocks(1-4) by auto
qed

lemma fork_cases:
  assumes "kernel_ok start e k" and "0 \<le> currentTask k"
  obtains "256 \<le> numTasks k \<or> gdt (task k (currentTask k)) = 0 \<or> eip (frame_at k cpu) = 0"
      "\<exists>r. forkTask cpu k = Some (r, k)"
  | p mm k' where "numTasks k < 256" "gdt (task k (currentTask k)) \<noteq> 0" "eip (frame_at k cpu) \<noteq> 0"
      "forkTask cpu k = Some (processCounter k, k')" "forked cpu p (Some mm) k k'" "kernel_ok start e k'"
      "\<forall>i. 0 \<le> i \<and> i < numTasks k \<longrightarrow> task_ptr k i \<noteq> p"
      "frame_at k' =
      (let parent = task_ptr k (currentTask k);
           f = copy_stack parent p
             (frame_at (construct_task p (gdt (task k (currentTask k))) (eip (frame_at k cpu)) k));
           c = p + (cpu - parent)
       in f(c := (f c)\<lparr>esp := p + (esp (f cpu) - parent), ecx := 0\<rparr>))"
proof (cases "256 \<le> numTasks k \<or> gdt (task k (currentTask k)) = 0 \<or> eip (frame_at k cpu) = 0")
  case True
  then have "\<exists>r. forkTask cpu k = Some (r, k)" by (auto simp: forkTask_def Let_def)
  with True that(1) show ?thesis by blast
next
  case False
  then have room: "numTasks k < 256" and g: "gdt (task k (currentTask k)) \<noteq> 0" "eip (frame_at k cpu) \<noteq> 0"
    by auto
  from assms have t: "task_table_ok k" and h: "heap_ok start e k" by (simp_all add: kernel_ok_def)
  from t have k: "length (tasks k) = 256" "1 \<le> numTasks k" "currentTask k < numTasks k"
    by (auto simp: task_table_ok_def)
  from malloc_task [OF h room k(2)] obtain p mm us f where
    m: "operator_new TASK_SIZE (memory_manager k) = Some (p, Some mm)" "p \<noteq> 0"
    and fresh: "\<forall>i. 0 \<le> i \<and> i < numTasks k \<longrightarrow> task_ptr k i \<noteq> p"
    and blocks: "heap_blocks mm start e (us @ [f])" "\<forall>u \<in> set us. used u" "\<not> used f"
      "(256 - nat (numTasks k + 1)) * 4136 + 16 < bsize f"
      "\<exists>u \<in> set us. p = baddr u + HEADER \<and> bsize u = 4120"
      "\<forall>i. 0 < i \<and> i < numTasks k \<longrightarrow> (\<exists>u \<in> set us. task_ptr k i = baddr u + HEADER \<and> bsize u = 4120)"
    by blast
  have "p \<noteq> task_ptr k (currentTask k)" using fresh assms(2) k(3) by blast
  from forkTask_forked [OF room assms(2) k(3) k(1) g m this] obtain k' where
    k': "forkTask cpu k = Some (processCounter k, k')" "forked cpu p (Some mm) k k'"
      "frame_at k' =
      (let parent = task_ptr k (currentTask k);
           f = copy_stack parent p
             (frame_at (construct_task p (gdt (task k (currentTask k))) (eip (frame_at k cpu)) k));
           c = p + (cpu - parent)
       in f(c := (f c)\<lparr>esp := p + (esp (f cpu) - parent), ecx := 0\<rparr>))"
    by blast
  have "kernel_ok start e k'"
    unfolding kernel_ok_def
    using forked_table_ok [OF t k'(2) room assms(2) fresh]
      forked_heap_ok [OF h t k'(2) room fresh blocks] by blast
  with that(2) room g k' fresh show ?thesis by blast
qed

lemma kernel_ok_syscall:
  assumes "kernel_ok start e k" and "0 \<le> currentTask k"
  shows "\<exists>r k'. handle_syscall cpu k = Some (r, k') \<and> kernel_ok start e k'"
proof -
  have fork: "\<exists>r k'. forkTask cpu k = Some (r, k') \<and> kernel_ok start e k'"
    using assms by (rule fork_cases [where cpu = cpu]) (use assms in blast)+
  have sched: "\<exists>r k'. Schedule cpu k1 = (r, k') \<and> kernel_ok start e k'" if "kernel_ok start e k1" for k1
    using kernel_ok_Schedule [OF that, of cpu] by (cases "Schedule cpu k1") simp
  consider "eax (frame_at k cpu) = 1" | "eax (frame_at k cpu) = 7" | "eax (frame_at k cpu) = 11"
    | "eax (frame_at k cpu) = 20" | "eax (frame_at k cpu) = 2"
    | "eax (frame_at k cpu) \<notin> {1, 7, 11, 20, 2}" by blast
  then show ?thesis
  proof cases
    case 1
    with sched [OF kernel_ok_exit [OF assms(1)]] show ?thesis
      by (auto simp: handle_syscall_def Let_def exitTask_def)
  next
    case 2
    with sched kernel_ok_waitpid [OF assms, of cpu] show ?thesis
      by (cases "waitpidTask cpu k") (auto simp: handle_syscall_def Let_def)
  next
    case 3
    with kernel_ok_execve [OF assms(1), of "ebx (frame_at k cpu)"] show ?thesis
      by (cases "execveTask (ebx (frame_at k cpu)) k") (auto simp: handle_syscall_def Let_def)
  next
    case 4
    with assms show ?thesis by (auto simp: handle_syscall_def Let_def)
  next
    case 5
    with fork sched show ?thesis by (auto simp: handle_syscall_def Let_def)
  next
    case 6
    with assms show ?thesis by (auto simp: handle_syscall_def Let_def)
  qed
qed

subsection \<open>The frame of the child\<close>

text \<open>A frame on the stack of the parent does not lie on the stack of the child.\<close>

lemma not_on_stack:
  assumes apart: "unat p + 4120 \<le> unat parent \<or> unat parent + 4120 \<le> unat (p :: u32)"
    and inside: "unat p + 4120 \<le> 2 ^ 32" "unat parent + 4120 \<le> 2 ^ 32"
    and frame: "unat (cpu - parent) + 52 \<le> 4096"
  shows "\<not> unat (cpu - p) + 52 \<le> 4096" and "cpu \<noteq> p + STACK - CPU_SIZE"
proof -
  let ?c = "unat (cpu - parent)"
  have "unat (parent + (cpu - parent)) = unat parent + ?c"
    using inside(2) frame by (intro unat_sum) simp
  then have cpu: "unat cpu = unat parent + ?c" by simp
  show off: "\<not> unat (cpu - p) + 52 \<le> 4096"
  proof (cases "unat p \<le> unat cpu")
    case True
    then have "unat (cpu - p) = unat cpu - unat p" by (rule unat_diff)
    with True cpu apart frame show ?thesis by linarith
  next
    case False
    then have "unat (cpu - p) = unat cpu + 2 ^ LENGTH(32) - unat p" by (simp add: unat_sub_if')
    then have "unat (cpu - p) = unat cpu + 4294967296 - unat p" by simp
    with False cpu inside show ?thesis by simp
  qed
  show "cpu \<noteq> p + STACK - CPU_SIZE"
  proof
    assume "cpu = p + STACK - CPU_SIZE"
    then have "cpu - p = 4044" by (simp add: STACK_def CPU_SIZE_def)
    with off show False by simp
  qed
qed


text \<open>Printing the table changes nothing but the screen.\<close>

lemma fold_table_same:
  assumes "\<And>i k. numTasks (g i k) = numTasks k \<and> currentTask (g i k) = currentTask k \<and>
    tasks (g i k) = tasks k \<and> frame_at (g i k) = frame_at k \<and> (\<forall>j. task (g i k) j = task k j)"
  shows "numTasks (fold g is k) = numTasks k \<and> currentTask (fold g is k) = currentTask k \<and>
    tasks (fold g is k) = tasks k \<and> frame_at (fold g is k) = frame_at k \<and> (\<forall>i. task (fold g is k) i = task k i)"
  using assms by (induction "is" arbitrary: k) auto

lemma print_same [simp]:
  "numTasks (print s k) = numTasks k" "currentTask (print s k) = currentTask k" "tasks (print s k) = tasks k"
  "task (print s k) i = task k i" "numTasks (print_int n k) = numTasks k"
  "currentTask (print_int n k) = currentTask k" "tasks (print_int n k) = tasks k"
  "task (print_int n k) i = task k i" "frame_at (print s k) = frame_at k" "frame_at (print_int n k) = frame_at k"
  by (simp_all add: printed_screen task_def task_ptr_def)

lemma table_printed_same [simp]:
  "numTasks (printProcessTable k) = numTasks k" "currentTask (printProcessTable k) = currentTask k"
  "tasks (printProcessTable k) = tasks k" "task (printProcessTable k) i = task k i"
  "frame_at (printProcessTable k) = frame_at k"
  by (simp_all add: printProcessTable_def fold_table_same)

text \<open>Unless every task is stuck, the scheduler leaves a task that cannot run.\<close>

lemma schedule_away:
  assumes ok: "kernel_ok start e k" and cur: "\<not> runnable k (currentTask k)"
    and i: "0 \<le> i" "i < numTasks k" "runnable k i"
  obtains j where "j \<noteq> currentTask k" "0 \<le> j" "j < numTasks k" "runnable k j"
    "Schedule cpu k = (cpustate (task (saved cpu k) j), dispatched j (saved cpu k))"
proof -
  have n: "0 < numTasks k" using i by simp
  have "i = cyclic_order k ! distance i k" using cyclic_distance [OF i(1,2)] by simp
  moreover have "distance i k < length (cyclic_order k)"
    using distance_less [OF n] by (simp add: cyclic_order_def)
  ultimately have "i \<in> set (cyclic_order k)" by (metis nth_mem)
  with i(3) have "find (runnable k) (cyclic_order k) \<noteq> None" by (auto simp: find_None_iff)
  then obtain j where j: "find (runnable k) (cyclic_order k) = Some j" by blast
  then have "runnable k j" "j \<in> set (cyclic_order k)" by (auto simp: find_Some_iff)
  with j cur n cyclic_range Schedule_find [OF n, of cpu] show ?thesis by (intro that [of j]) auto
qed

lemma task_ptr_inj:
  assumes "kernel_ok start e k" and "0 \<le> i" "i < numTasks k" and "0 \<le> j" "j < numTasks k"
  shows "task_ptr k i = task_ptr k j \<longleftrightarrow> i = j"
proof -
  have "inj_on (task_ptr k) {0..<numTasks k}" using assms(1) by (auto simp: kernel_ok_def heap_ok_def)
  with assms(2-) show ?thesis by (auto simp: inj_on_def)
qed

lemma switched_tasks:
  assumes ok: "kernel_ok start e k" and cur: "0 \<le> currentTask k" "currentTask k < numTasks k"
    and j: "0 \<le> j" "j < numTasks k" "j \<noteq> currentTask k"
  shows "task (saved cpu k) j = task k j"
    and "task (dispatched j (saved cpu k)) (currentTask k) = (task k (currentTask k))\<lparr>cpustate := cpu\<rparr>"
    and "runnable k j \<Longrightarrow> taskState (task (dispatched j (saved cpu k)) j) = READY"
    and "0 \<le> i \<Longrightarrow> i < numTasks k \<Longrightarrow> i \<noteq> currentTask k \<Longrightarrow> i \<noteq> j \<Longrightarrow>
      task (dispatched j (saved cpu k)) i = task k i"
    and "frame_at (dispatched j (saved cpu k)) = frame_at k"
    and "getTaskIndex p (dispatched j (saved cpu k)) = getTaskIndex p k"
proof -
  note ptr = task_ptr_inj [OF ok]
  have sv: "task_ptr (saved cpu k) i = task_ptr k i" for i by (simp add: task_ptr_def)
  show "task (saved cpu k) j = task k j" using ptr [OF j(1,2) cur] j(3) by (simp add: saved_def)
  then show "taskState (task (dispatched j (saved cpu k)) j) = READY" if "runnable k j"
    using that by (auto simp: dispatched_task runnable_def)
  show "task (dispatched j (saved cpu k)) (currentTask k) = (task k (currentTask k))\<lparr>cpustate := cpu\<rparr>"
    using ptr [OF cur j(1,2)] j(3) cur(1) by (simp add: dispatched_task sv) (simp add: saved_def)
  show "task (dispatched j (saved cpu k)) i = task k i"
    if "0 \<le> i" "i < numTasks k" "i \<noteq> currentTask k" "i \<noteq> j"
    using ptr [OF that(1,2) cur] ptr [OF that(1,2) j(1,2)] that
    by (simp add: dispatched_task sv) (simp add: saved_def)
  show "frame_at (dispatched j (saved cpu k)) = frame_at k" by (simp add: dispatched_def saved_def)
  show "getTaskIndex p (dispatched j (saved cpu k)) = getTaskIndex p k"
    by (simp add: getTaskIndex_def dispatched_task if_distrib cong: if_cong)
qed

section \<open>Properties\<close>

text \<open>C27. The scheduler runs the first runnable task after the current one in cyclic order, where a task
  is runnable if it is ready or waits for a child that has finished; it saves the frame of the
  interrupted task, hands out the saved frame of the chosen one and makes it ready. Without a
  runnable task it hands the interrupted frame back and changes nothing else.
\<close>

theorem schedule_round_robin:
  assumes "0 < numTasks k"
  shows "Schedule cpu k =
    (case find (runnable k) (cyclic_order k) of
       None \<Rightarrow> (cpu, saved cpu k)
     | Some j \<Rightarrow> (cpustate (task (saved cpu k) j), dispatched j (saved cpu k)))"
  by (rule Schedule_find [OF assms])

text \<open>Three tasks: the first runs, the second waits for the third, the third is ready.\<close>

definition blank_frame :: CPUState where
  "blank_frame = \<lparr>eax = 0, ebx = 0, ecx = 0, edx = 0, esi = 0, edi = 0, ebp = 0, err_code = 0,
     eip = 0, cs = 0, eflags = 0, esp = 0, ss = 0\<rparr>"

definition three_tasks :: kernel where
  "three_tasks =
     \<lparr>tasks = [0, 10000, 20000] @ replicate 253 0, numTasks = 3, currentTask = 0, processCounter = 3,
      task_at = (\<lambda>a.
        if a = 0 then \<lparr>cpustate = 44, taskState = READY, pid = 0, ppid = -1, gdt = 1, waitPid = -1\<rparr>
        else if a = 10000 then \<lparr>cpustate = 10044, taskState = WAITING, pid = 1, ppid = 0, gdt = 1, waitPid = 2\<rparr>
        else \<lparr>cpustate = 20044, taskState = READY, pid = 2, ppid = 1, gdt = 1, waitPid = -1\<rparr>),
      frame_at = (\<lambda>_. blank_frame), memory_manager = None, screen = blank_screen\<rparr>"

lemma three_tasks_task:
  "task three_tasks 0 = \<lparr>cpustate = 44, taskState = READY, pid = 0, ppid = -1, gdt = 1, waitPid = -1\<rparr>"
  "task three_tasks 1 = \<lparr>cpustate = 10044, taskState = WAITING, pid = 1, ppid = 0, gdt = 1, waitPid = 2\<rparr>"
  "task three_tasks 2 = \<lparr>cpustate = 20044, taskState = READY, pid = 2, ppid = 1, gdt = 1, waitPid = -1\<rparr>"
  "numTasks three_tasks = 3" "currentTask three_tasks = 0"
  by (simp_all add: three_tasks_def task_def task_ptr_def)

lemma three_tasks_next: "find (runnable three_tasks) (cyclic_order three_tasks) = Some 2"
proof -
  have "[0..2] = [0, 1, 2 :: int]" by code_simp
  moreover have "[0..<3] = [0, 1, 2 :: nat]" by code_simp
  ultimately show ?thesis
    by (simp add: cyclic_order_def runnable_def getTaskIndex_def three_tasks_task)
qed

theorem schedule_round_robin_witness:
  "currentTask (snd (Schedule 99 three_tasks)) = 2 \<and> fst (Schedule 99 three_tasks) = 20044"
  using schedule_round_robin [of three_tasks 99]
  by (simp add: three_tasks_next three_tasks_task saved_def)
    (simp add: three_tasks_def task_ptr_def)

text \<open>C28. No ready task starves: whatever the frames the interrupts bring, a ready task runs after at
  most as many scheduling rounds as there are tasks.
\<close>

theorem schedule_fair:
  assumes "0 \<le> i" and "i < numTasks k" and "taskState (task k i) = READY"
    and "length cpus = nat (numTasks k)"
  shows "\<exists>m. 0 < m \<and> m \<le> nat (numTasks k) \<and> currentTask (schedule_all (take m cpus) k) = i"
proof -
  have n: "0 < numTasks k" using assms by simp
  then have "distance i k \<le> nat (numTasks k) - 1" using distance_less [of k i] by simp
  moreover have "nat (numTasks k) - 1 < length cpus" using n assms(4) by simp
  ultimately have "\<exists>m. 0 < m \<and> m \<le> nat (numTasks k) - 1 + 1 \<and> currentTask (schedule_all (take m cpus) k) = i"
    by (intro schedule_reaches [OF n assms(1-3)])
  with n show ?thesis by simp
qed

theorem schedule_fair_witness:
  "\<exists>m. 0 < m \<and> m \<le> 3 \<and> currentTask (schedule_all (take m [7, 8, 9]) three_tasks) = 0"
  using schedule_fair [of 0 three_tasks "[7, 8, 9]"] by (simp add: three_tasks_task)

text \<open>
  When no task is runnable the interrupted frame comes back, even that of a task that has just
  exited: a single task that calls \<open>exit\<close> goes on running.
\<close>

theorem exit_returns:
  assumes "numTasks k = 1" and "currentTask k = 0"
  shows "fst (Schedule cpu (snd (exitTask k))) = cpu"
proof -
  let ?k = "snd (exitTask k)"
  have "numTasks ?k = 1" "currentTask ?k = 0" "taskState (task ?k 0) = FINISHED"
    using assms by (simp_all add: exitTask_def)
  then have "find (runnable ?k) (cyclic_order ?k) = None"
    by (simp add: cyclic_order_def runnable_def)
  then show ?thesis using Schedule_find [of ?k cpu] \<open>numTasks ?k = 1\<close> by simp
qed

end
