(* ===== verification/Kernel_Interrupts_Properties.thy ===== *)
theory Kernel_Interrupts_Properties
  imports Kernel_Interrupts Kernel_Tasks_Properties
begin

text \<open>
  Where every interrupt vector leads, and the invariant of the whole kernel: from \<open>kernelMain\<close> on,
  through any sequence of timer ticks, system calls and work of the tasks on their own stacks.
\<close>

subsection \<open>Vectors\<close>

lemma of_nat_byte: "m < 256 \<Longrightarrow> (of_nat m :: byte) = i \<longleftrightarrow> unat i = m"
  by (auto simp: word_unat_eq_iff unat_of_nat)

lemma fold_vectors:
  "b + n \<le> 256 \<Longrightarrow>
   fold (\<lambda>(i, s) t. t(i \<mapsto> s)) (map (\<lambda>i. (of_nat (b + i), g i)) [0..<n]) t (i :: byte) =
     (if b \<le> unat i \<and> unat i < b + n then Some (g (unat i - b)) else t i)"
proof (induction n)
  case (Suc n)
  then have "of_nat (b + n) = i \<longleftrightarrow> unat i = b + n" by (intro of_nat_byte) simp
  with Suc show ?case by (cases "unat i = b + n") (auto simp del: of_nat_add)
qed auto

lemma fold_vectors_down:
  "n \<le> 256 \<Longrightarrow>
   fold (\<lambda>(i, s) t. t(i \<mapsto> s)) (map (\<lambda>i. (of_nat i, c)) (rev [1..<n])) t (i :: byte) =
     (if 0 < unat i \<and> unat i < n then Some c else t i)"
proof (induction n arbitrary: t)
  case (Suc n)
  show ?case
  proof (cases "n = 0")
    case False
    have "of_nat n = i \<longleftrightarrow> unat i = n" using Suc.prems by (intro of_nat_byte) simp
    with False Suc show ?thesis by auto
  qed auto
qed simp

lemma vector_table_eq:
  "vector_table 0x20 i = Some
     (if unat i < 0x14 then HandleException i
      else if 0x20 \<le> unat i \<and> unat i < 0x30 then HandleInterruptRequest (i - 0x20)
      else if i = 0x80 then HandleInterruptRequest 0x80
      else InterruptIgnore)"
proof -
  have ignored: "fold (\<lambda>(i, s) t. t(i \<mapsto> s)) (map (\<lambda>i. (of_nat i, InterruptIgnore)) (rev [1..<256])) t i =
      (if 0 < unat i \<and> unat i < 256 then Some InterruptIgnore else t i)" for t
    by (rule fold_vectors_down) simp
  have exceptions: "fold (\<lambda>(i, s) t. t(i \<mapsto> s))
        (map (\<lambda>i. (of_nat i :: byte, HandleException (of_nat i))) [0..<0x14]) t i =
      (if unat i < 0x14 then Some (HandleException i) else t i)" for t
    using fold_vectors [of 0 "0x14" "\<lambda>i. HandleException (of_nat i)" t i] by simp
  have sub: "(of_nat (unat i - 32) :: byte) = i - 0x20" if "32 \<le> unat i"
    using that by (simp add: of_nat_diff)
  have requests: "fold (\<lambda>(i, s) t. t(i \<mapsto> s))
        (map (\<lambda>i. (ucast (0x20 :: u16) + of_nat i :: byte, HandleInterruptRequest (of_nat i))) [0..<0x10]) t i =
      (if 0x20 \<le> unat i \<and> unat i < 0x30 then Some (HandleInterruptRequest (i - 0x20)) else t i)" for t
    using fold_vectors [of "0x20" "0x10" "\<lambda>i. HandleInterruptRequest (of_nat i)" t i] sub by simp
  have "unat i = 0 \<longleftrightarrow> i = 0" "unat i < 256" by (simp_all add: unat_eq_0)
  then show ?thesis
    unfolding vector_table_def vector_entries_def fold_append comp_apply fold.simps id_apply case_prod_conv
    by (simp only: fun_upd_apply requests exceptions ignored) auto
qed


lemma half_masks: "(0xFFFF :: u32) = mask 16" by (simp add: mask_eq_exp_minus_1)

lemma gate_address:
  "push_bit 16 (ucast (handlerAddressHighBits (gate_descriptor c h d t))) OR
     ucast (handlerAddressLowBits (gate_descriptor c h d t)) = h"
  unfolding gate_descriptor_def half_masks
  by (rule bit_word_eqI) (auto simp: bit_simps)

subsection \<open>Start of the system\<close>

text \<open>What the loader and the linker must provide: enough memory and a real entry point.\<close>

definition bootable :: "u32 \<Rightarrow> u32 \<Rightarrow> u32 \<Rightarrow> kernel \<Rightarrow> bool" where
  "bootable memupper init_task entry k =
     (11300 \<le> unat memupper \<and> unat memupper < 2 ^ 22 \<and> init_task \<noteq> 0 \<and> entry \<noteq> 0 \<and>
      tasks k = replicate 256 0 \<and> processCounter k = 0)"

definition heap_top :: "u32 \<Rightarrow> nat" where
  "heap_top memupper = unat memupper * 1024 - 10240"

definition booted :: "machine \<Rightarrow> bool" where
  "booted m = (active m \<and> handlers m = [0xA0 \<mapsto> SyscallHandler] \<and> hardwareInterruptOffset m = 0x20)"

lemma boot_heap:
  assumes "11300 \<le> unat (memupper :: u32)" and "unat memupper < 2 ^ 22"
  shows "\<exists>mm. malloc 1024 (new_manager heap_base (memupper * 1024 - heap_base - 10 * 1024) h) =
      Some (heap_base + HEADER, mm) \<and>
    heap_blocks mm 10485760 (heap_top memupper)
      [\<lparr>baddr = heap_base, bsize = 1024, used = True\<rparr>,
       \<lparr>baddr = heap_base + HEADER + 1024, bsize = heap_top memupper - 10485760 - 16 - 1024 - 16, used = False\<rparr>]"
proof -
  let ?n = "memupper * 1024 - heap_base - 10 * 1024"
  have base: "unat heap_base = 10485760" by (simp add: heap_base_def)
  have mul: "unat (memupper * 1024) = unat memupper * 1024"
    using assms(2) by (simp add: unat_word_ariths)
  have d1: "unat (memupper * 1024 - heap_base) = unat memupper * 1024 - 10485760"
    using assms(1) mul base by (simp add: unat_diff)
  have n: "unat ?n = unat memupper * 1024 - 10496000"
    using assms(1) d1 unat_diff [of "10 * 1024" "memupper * 1024 - heap_base"] by simp
  have top: "unat heap_base + unat ?n = heap_top memupper"
    using assms(1) base n by (simp add: heap_top_def)
  have size: "unat ?n - 16 = heap_top memupper - 10485760 - 16" using top base by simp
  have "heap_blocks (new_manager heap_base ?n h) (unat heap_base) (unat heap_base + unat ?n)
      [\<lparr>baddr = heap_base, bsize = unat ?n - 16, used = False\<rparr>]"
    using assms base n by (intro new_manager_blocks) auto
  from malloc_refines [OF this, of 1024] obtain mm where
    "malloc 1024 (new_manager heap_base ?n h) = Some (fst (spec_malloc 1024 [\<lparr>baddr = heap_base, bsize = unat ?n - 16, used = False\<rparr>]), mm)"
    "heap_blocks mm (unat heap_base) (unat heap_base + unat ?n)
      (snd (spec_malloc 1024 [\<lparr>baddr = heap_base, bsize = unat ?n - 16, used = False\<rparr>]))"
    by auto
  moreover have "1024 + 17 \<le> unat ?n - 16" using assms(1) n by simp
  moreover have "10485760 + unat ?n = heap_top memupper" using top base by simp
  ultimately show ?thesis
    unfolding base size by simp
qed

lemma kernelMain_booted:
  assumes "bootable memupper init_task entry k"
  shows "\<exists>m. kernelMain memupper h init_task g entry k = Some m \<and> booted m \<and>
    kernel_ok 10485760 (heap_top memupper) (kern m) \<and> numTasks (kern m) = 1 \<and> currentTask (kern m) = -1 \<and>
    gdt (task (kern m) 0) = gdt (task_at k 0) \<and> taskState (task (kern m) 0) = READY \<and>
    cpustate (task (kern m) 0) = STACK - CPU_SIZE \<and> eip (frame_at (kern m) (STACK - CPU_SIZE)) = entry"
proof -
  from assms have b: "11300 \<le> unat memupper" "unat memupper < 2 ^ 22" "init_task \<noteq> 0" "entry \<noteq> 0"
    "tasks k = replicate 256 0" "processCounter k = 0" by (auto simp: bootable_def)
  from boot_heap [OF b(1,2), of h] obtain mm where
    mm: "malloc 1024 (new_manager heap_base (memupper * 1024 - heap_base - 10 * 1024) h) =
        Some (heap_base + HEADER, mm)"
      "heap_blocks mm 10485760 (heap_top memupper)
      ([\<lparr>baddr = heap_base, bsize = 1024, used = True\<rparr>] @
       [\<lparr>baddr = heap_base + HEADER + 1024, bsize = heap_top memupper - 10485760 - 16 - 1024 - 16, used = False\<rparr>])"
    by auto
  let ?k2 = "construct_task init_task g entry
    (print ''Welcome to aydOS - Aydin Operating System! \<newline>'' (TaskManager k)\<lparr>memory_manager := Some mm\<rparr>)"
  define k3 where "k3 = snd (AddTask init_task ?k2)"
  note defs = AddTask_def Let_def construct_task_def set_task_def set_frame_def print_def TaskManager_def
    task_def task_ptr_def
  have k3: "tasks k3 = replicate 256 0" "numTasks k3 = 1" "currentTask k3 = -1" "processCounter k3 = 1"
    "memory_manager k3 = Some mm" "pid (task k3 0) = 0" "taskState (task k3 0) = READY"
    "gdt (task k3 0) = gdt (task_at k 0)" "cpustate (task k3 0) = STACK - CPU_SIZE"
    "eip (frame_at k3 (STACK - CPU_SIZE)) = entry"
    using b(3-6) unfolding k3_def by (simp_all add: defs)
  have first: "i = 0" if "0 \<le> i" "i < 1" for i :: int using that by simp
  have "task_table_ok k3" unfolding task_table_ok_def k3(1-4) using k3(6,7) by (auto dest!: first)
  moreover have "heap_ok 10485760 (heap_top memupper) k3"
    unfolding heap_ok_def k3(2,5)
  proof (intro conjI exI)
    show "heap_blocks mm 10485760 (heap_top memupper)
      ([\<lparr>baddr = heap_base, bsize = 1024, used = True\<rparr>] @
       [\<lparr>baddr = heap_base + HEADER + 1024, bsize = heap_top memupper - 10485760 - 16 - 1024 - 16, used = False\<rparr>])"
      by (rule mm(2))
  qed (use b(1) k3(1) in \<open>auto simp: task_ptr_def heap_top_def inj_on_def\<close>)
  ultimately have ok: "kernel_ok 10485760 (heap_top memupper) k3" by (simp add: kernel_ok_def)
  let ?m = "\<lparr>kern = k3, handlers = (\<lambda>_. None), hardwareInterruptOffset = 0, active = False, ports = []\<rparr>"
  let ?m1 = "Activate (register_syscalls 0x80 (InterruptManager 0x20 ?m))"
  have "kernelMain memupper h init_task g entry k =
      Some (?m1\<lparr>kern := print ''Interrupts activated...\<newline>'' (kern ?m1)\<rparr>)"
    by (simp only: kernelMain_def Let_def mm(1) option.case prod.case k3_def)
  moreover have "kern ?m1 = k3" "booted ?m1"
    by (simp_all add: booted_def Activate_def register_syscalls_def InterruptManager_def write_port_def fun_eq_iff)
  ultimately show ?thesis
    using ok k3 by (simp add: booted_def)
qed


subsection \<open>Runs of the system\<close>

text \<open>
  Between interrupts a task computes on the stacks and on the screen; it does not write into the
  tables of the kernel. Interrupt 0xA0 is the system call: it comes from a task, so a current task
  exists then.
\<close>

inductive machine_step :: "machine \<Rightarrow> machine \<Rightarrow> bool" where
  compute: "machine_step m (m\<lparr>kern := (kern m)\<lparr>frame_at := fr, screen := scr\<rparr>\<rparr>)"
| interrupt: "HandleInterrupt nr cpu m = Some (cpu', m') \<Longrightarrow>
    nr = 0xA0 \<longrightarrow> 0 \<le> currentTask (kern m) \<Longrightarrow> machine_step m m'"

definition system_start :: "u32 \<Rightarrow> machine \<Rightarrow> bool" where
  "system_start memupper m =
     (\<exists>h init_task g entry k. bootable memupper init_task entry k \<and>
        kernelMain memupper h init_task g entry k = Some m)"

definition system_inv :: "u32 \<Rightarrow> machine \<Rightarrow> bool" where
  "system_inv memupper m = (booted m \<and> kernel_ok 10485760 (heap_top memupper) (kern m))"

lemma acknowledge_fields [simp]:
  "kern (acknowledge nr m) = kern m" "booted (acknowledge nr m) = booted m"
  by (simp_all add: acknowledge_def write_port_def booted_def Let_def)

lemma handle_ok:
  assumes "system_inv memupper m" and "nr = 0xA0 \<longrightarrow> 0 \<le> currentTask (kern m)"
  shows "\<exists>cpu' m'. HandleInterrupt nr cpu m = Some (cpu', m') \<and> system_inv memupper m'"
proof -
  let ?ok = "kernel_ok 10485760 (heap_top memupper)"
  from assms(1) have b: "booted m" and ok: "?ok (kern m)" by (simp_all add: system_inv_def)
  have handled: "\<exists>cpu1 k1. (case handlers m nr of
           Some SyscallHandler \<Rightarrow> handle_syscall cpu (kern m)
         | None \<Rightarrow>
             Some (cpu, if is_timer then kern m
                        else (let k = print ''UNHANDLED INTERRUPT 0x'' (kern m)
                              in k\<lparr>screen := printfHex nr (screen k)\<rparr>))) = Some (cpu1, k1) \<and> ?ok k1"
    for is_timer
  proof (cases "nr = 0xA0")
    case True
    with kernel_ok_syscall [OF ok] assms(2) b show ?thesis by (simp add: booted_def)
  next
    case False
    with b ok show ?thesis by (simp add: booted_def print_def Let_def)
  qed
  let ?timer = "uint nr = uint (hardwareInterruptOffset m)"
  from handled [of ?timer] obtain cpu1 k1 where h: "(case handlers m nr of
           Some SyscallHandler \<Rightarrow> handle_syscall cpu (kern m)
         | None \<Rightarrow>
             Some (cpu, if ?timer then kern m
                        else (let k = print ''UNHANDLED INTERRUPT 0x'' (kern m)
                              in k\<lparr>screen := printfHex nr (screen k)\<rparr>))) = Some (cpu1, k1)" "?ok k1" by blast
  obtain cpu2 k2 where s: "(if ?timer then Schedule cpu1 k1 else (cpu1, k1)) = (cpu2, k2)" by force
  have "?ok k2"
    using s h(2) kernel_ok_Schedule [OF h(2), of cpu1] by (auto split: if_splits)
  moreover have "HandleInterrupt nr cpu m = Some (cpu2, acknowledge nr (m\<lparr>kern := k2\<rparr>))"
    using b h(1) s by (simp only: HandleInterrupt_def booted_def DoHandleInterrupt_def Let_def
        if_True option.case prod.case)
  moreover have "booted (m\<lparr>kern := k2\<rparr>)" using b by (simp add: booted_def)
  ultimately show ?thesis by (simp add: system_inv_def)
qed

interpretation system: inductive_invariant "system_start memupper" machine_step "system_inv memupper"
  for memupper
proof unfold_locales
  fix m assume "system_start memupper m"
  then show "system_inv memupper m"
    unfolding system_start_def system_inv_def using kernelMain_booted by (metis option.inject)
next
  fix m m' assume inv: "system_inv memupper m" and "machine_step m m'"
  from this(2) show "system_inv memupper m'"
  proof cases
    case (compute fr scr)
    with inv show ?thesis by (simp add: system_inv_def booted_def)
  next
    case (interrupt nr cpu cpu')
    with handle_ok [OF inv, of nr cpu] show ?thesis by auto
  qed
qed

text \<open>Two tasks of the table have disjoint memory.\<close>

lemma tasks_apart:
  assumes "heap_ok start e k" and "0 \<le> i" "i < numTasks k" "0 \<le> j" "j < numTasks k" and "i \<noteq> j"
  shows "unat (task_ptr k i) + 4120 \<le> unat (task_ptr k j) \<or> unat (task_ptr k j) + 4120 \<le> unat (task_ptr k i)"
proof -
  from assms(1) obtain mm us f where h: "heap_blocks mm start e (us @ [f])"
    and blocks: "\<And>i. 0 < i \<Longrightarrow> i < numTasks k \<Longrightarrow> \<exists>u \<in> set us. task_ptr k i = baddr u + HEADER \<and> bsize u = 4120"
    and zero: "task_ptr k 0 = 0" "4120 \<le> start" and inj: "inj_on (task_ptr k) {0..<numTasks k}"
    unfolding heap_ok_def by auto
  from h have tiles: "tiles start (us @ [f]) e" and small: "e < 2 ^ 32" by (auto simp: heap_blocks_def)
  have block: "\<exists>u \<in> set (us @ [f]). task_ptr k i = baddr u + HEADER \<and> unat (task_ptr k i) = unat (baddr u) + 16 \<and>
      bsize u = 4120 \<and> start \<le> unat (baddr u)" if i: "0 < i" "i < numTasks k" for i
  proof -
    from blocks [OF i] obtain u where u: "u \<in> set us" "task_ptr k i = baddr u + HEADER" "bsize u = 4120" by blast
    with tiles_addr [OF tiles, of u] small have "unat (task_ptr k i) = unat (baddr u) + 16"
      by (simp add: unat_sum)
    with u tiles_addr [OF tiles, of u] show ?thesis by auto
  qed
  have diff: "task_ptr k i \<noteq> task_ptr k j" using inj assms(2-6) by (auto simp: inj_on_def)
  consider "i = 0" | "j = 0" | "0 < i" "0 < j" using assms by linarith
  then show ?thesis
  proof cases
    case 1
    with block [of j] assms zero show ?thesis by auto
  next
    case 2
    with block [of i] assms zero show ?thesis by auto
  next
    case 3
    from block [OF 3(1) assms(3)] obtain u where u: "u \<in> set (us @ [f])" "task_ptr k i = baddr u + HEADER"
      "unat (task_ptr k i) = unat (baddr u) + 16" "bsize u = 4120" by blast
    from block [OF 3(2) assms(5)] obtain v where v: "v \<in> set (us @ [f])" "task_ptr k j = baddr v + HEADER"
      "unat (task_ptr k j) = unat (baddr v) + 16" "bsize v = 4120" by blast
    from diff u(2) v(2) have "baddr u \<noteq> baddr v" by auto
    from block_disjoint [OF tiles u(1) v(1) this] u v show ?thesis by auto
  qed
qed


lemma task_inside:
  assumes "heap_ok start e k" and "0 \<le> i" and "i < numTasks k"
  shows "unat (task_ptr k i) + 4120 \<le> 2 ^ 32"
proof -
  from assms(1) obtain mm us f where h: "heap_blocks mm start e (us @ [f])"
    and blocks: "\<And>i. 0 < i \<Longrightarrow> i < numTasks k \<Longrightarrow> \<exists>u \<in> set us. task_ptr k i = baddr u + HEADER \<and> bsize u = 4120"
    and zero: "task_ptr k 0 = 0"
    unfolding heap_ok_def by auto
  from h have tiles: "tiles start (us @ [f]) e" and small: "e < 2 ^ 32" by (auto simp: heap_blocks_def)
  show ?thesis
  proof (cases "i = 0")
    case True
    with zero show ?thesis by simp
  next
    case False
    with assms(2,3) blocks obtain u where u: "u \<in> set us" "task_ptr k i = baddr u + HEADER" "bsize u = 4120"
      by force
    with tiles_addr [OF tiles, of u] small show ?thesis by (simp add: unat_sum)
  qed
qed

text \<open>The frames of parent and child after the stack was copied.\<close>

lemma copied_frames:
  assumes "unat p + 4120 \<le> unat parent \<or> unat parent + 4120 \<le> unat (p :: u32)"
    and "unat p + 4120 \<le> 2 ^ 32" "unat parent + 4120 \<le> 2 ^ 32"
    and "unat (cpu - parent) + 52 \<le> 4096" and "eip (frame_at k cpu) \<noteq> 0"
    and frames: "frames =
      (let parent = parent;
           f = copy_stack parent p (frame_at (construct_task p g (eip (frame_at k cpu)) k));
           c = p + (cpu - parent)
       in f(c := (f c)\<lparr>esp := p + (esp (f cpu) - parent), ecx := 0\<rparr>))"
  shows "frames (p + (cpu - parent)) = (frame_at k cpu)\<lparr>esp := p + (esp (frame_at k cpu) - parent), ecx := 0\<rparr>"
    and "frames cpu = frame_at k cpu"
proof -
  note off = not_on_stack [OF assms(1-4)]
  let ?k1 = "construct_task p g (eip (frame_at k cpu)) k"
  let ?c = "p + (cpu - parent)"
  have same: "frame_at ?k1 cpu = frame_at k cpu"
    by (rule construct_task_simps(8) [OF off(2) assms(5)])
  have "copy_stack parent p (frame_at ?k1) ?c = frame_at k cpu"
    using assms(4) same by (simp add: copy_stack_def STACK_def CPU_SIZE_def)
  moreover have "copy_stack parent p (frame_at ?k1) cpu = frame_at k cpu"
    using off(1) same by (simp add: copy_stack_def STACK_def CPU_SIZE_def)
  moreover have "cpu \<noteq> ?c"
  proof
    assume "cpu = ?c"
    then have "cpu - p = cpu - parent" by (metis add_diff_cancel_left')
    with off(1) assms(4) show False by simp
  qed
  ultimately show "frames ?c = (frame_at k cpu)\<lparr>esp := p + (esp (frame_at k cpu) - parent), ecx := 0\<rparr>"
    "frames cpu = frame_at k cpu"
    unfolding frames Let_def by simp_all
qed

lemma fork_copies:
  assumes "kernel_ok start e k" and "0 \<le> currentTask k" and "numTasks k < 256"
    and "gdt (task k (currentTask k)) \<noteq> 0" and "eip (frame_at k cpu) \<noteq> 0"
    and "unat (cpu - task_ptr k (currentTask k)) + 52 \<le> 4096"
  shows "\<exists>k'. forkTask cpu k = Some (of_nat (nat (numTasks k)), k') \<and> numTasks k' = numTasks k + 1 \<and>
    taskState (task k' (numTasks k)) = READY \<and> pid (task k' (numTasks k)) = of_nat (nat (numTasks k)) \<and>
    ppid (task k' (numTasks k)) = pid (task k (currentTask k)) \<and>
    cpustate (task k' (numTasks k)) = task_ptr k' (numTasks k) + (cpu - task_ptr k (currentTask k)) \<and>
    frame_at k' (cpustate (task k' (numTasks k))) = (frame_at k cpu)
      \<lparr>ecx := 0, esp := task_ptr k' (numTasks k) + (esp (frame_at k cpu) - task_ptr k (currentTask k))\<rparr> \<and>
    frame_at k' cpu = frame_at k cpu \<and>
    (\<forall>i. 0 \<le> i \<and> i < numTasks k \<longrightarrow> task k' i = task k i \<and> task_ptr k' i = task_ptr k i)"
proof (rule fork_cases [OF assms(1,2), where cpu = cpu])
  assume "256 \<le> numTasks k \<or> gdt (task k (currentTask k)) = 0 \<or> eip (frame_at k cpu) = 0"
  with assms(3-5) show ?thesis by simp
next
  fix p mm k'
  let ?n = "numTasks k" and ?cur = "currentTask k"
  let ?parent = "task_ptr k ?cur"
  assume fork: "forkTask cpu k = Some (processCounter k, k')" and f: "forked cpu p (Some mm) k k'"
    and ok: "kernel_ok start e k'" and fresh: "\<forall>i. 0 \<le> i \<and> i < ?n \<longrightarrow> task_ptr k i \<noteq> p"
    and frames: "frame_at k' =
      (let parent = ?parent;
           f = copy_stack parent p (frame_at (construct_task p (gdt (task k ?cur)) (eip (frame_at k cpu)) k));
           c = p + (cpu - parent)
       in f(c := (f c)\<lparr>esp := p + (esp (f cpu) - parent), ecx := 0\<rparr>))"
  from assms(1) have t: "length (tasks k) = 256" "1 \<le> ?n" "?cur < ?n" "unat (processCounter k) = nat ?n"
    by (auto simp: kernel_ok_def task_table_ok_def)
  have "0 \<le> ?n" using t(2) by simp
  note ptr = forked_ptr [OF f t(1) this assms(3)] and tsk = forked_task [OF f t(1) this assms(3) fresh]
  have cnt: "processCounter k = of_nat (nat ?n)" by (simp only: t(4) [symmetric]) simp
  have h: "heap_ok start e k'" using ok by (simp add: kernel_ok_def)
  have n': "numTasks k' = ?n + 1" using f by (simp add: forked_def)
  have cur: "task_ptr k' ?cur = ?parent" using ptr(1) assms(2) t(3) by simp
  from tasks_apart [OF h, of ?n ?cur] assms(2) t(2,3) n' cur ptr(2)
  have apart: "unat p + 4120 \<le> unat ?parent \<or> unat ?parent + 4120 \<le> unat p" by simp
  have "unat p + 4120 \<le> 2 ^ 32" "unat ?parent + 4120 \<le> 2 ^ 32"
    using task_inside [OF h, of ?n] task_inside [OF h, of ?cur] assms(2) t(2,3) n' cur ptr(2) by auto
  note fr = copied_frames [OF apart this assms(6,5) frames]
  have "(frame_at k cpu)\<lparr>esp := p + (esp (frame_at k cpu) - ?parent), ecx := 0\<rparr> =
      (frame_at k cpu)\<lparr>ecx := 0, esp := p + (esp (frame_at k cpu) - ?parent)\<rparr>" by simp
  with fr fork n' tsk ptr cnt show ?thesis by (intro exI [of _ k']) simp
qed

section \<open>Properties\<close>

text \<open>Every vector of the interrupt table leads where the manager expects it: the 20 exceptions and
  the 16 hardware interrupts report their own vector, \<open>int 0x80\<close> reports 0xA0, the number the
  system call handler is registered for, every other vector is ignored, and the two halves of a
  gate are the address of its stub.
\<close>

theorem interrupts_route:
  "vector_table 0x20 i = Some
     (if unat i < 0x14 then HandleException i
      else if 0x20 \<le> unat i \<and> unat i < 0x30 then HandleInterruptRequest (i - 0x20)
      else if i = 0x80 then HandleInterruptRequest 0x80
      else InterruptIgnore) \<and>
   map_option stub_number (vector_table 0x20 i) = Some
     (if unat i < 0x14 \<or> 0x20 \<le> unat i \<and> unat i < 0x30 then Some i
      else if i = 0x80 then Some 0xA0 else None) \<and>
   map_option (\<lambda>g. push_bit 16 (ucast (handlerAddressHighBits g)) OR ucast (handlerAddressLowBits g) :: u32)
     (idt_gate stub_addr 0x20 i) = map_option stub_addr (vector_table 0x20 i)"
proof (intro conjI)
  show "map_option (\<lambda>g. push_bit 16 (ucast (handlerAddressHighBits g)) OR ucast (handlerAddressLowBits g) :: u32)
     (idt_gate stub_addr 0x20 i) = map_option stub_addr (vector_table 0x20 i)"
    by (simp add: idt_gate_def gate_address option.map_comp comp_def)
qed (simp_all add: vector_table_eq stub_number_def)


text \<open>A machine with 16 MiB above the first, whose tables were empty.\<close>

definition empty_kernel :: kernel where
  "empty_kernel =
     \<lparr>tasks = replicate 256 0, numTasks = 0, currentTask = 0, processCounter = 0,
      task_at = (\<lambda>_. \<lparr>cpustate = 0, taskState = FINISHED, pid = 0, ppid = 0, gdt = 5, waitPid = 0\<rparr>),
      frame_at = (\<lambda>_. blank_frame), memory_manager = None, screen = blank_screen\<rparr>"

definition zero_memory :: memory where
  "zero_memory = (\<lambda>_. \<lparr>next_chunk = 0, prev_chunk = 0, allocated = False, chunk_size = 0\<rparr>)"

lemma empty_bootable: "bootable 16384 500000 7 empty_kernel"
  by (simp add: bootable_def empty_kernel_def)




text \<open>
  With a full table \<open>fork\<close> returns 0, which a program takes for the child's result.
\<close>

theorem fork_full_table: "256 \<le> numTasks k \<Longrightarrow> forkTask cpu k = Some (0, k)"
  by (simp add: forkTask_def)

text \<open>
  \<open>AddTask\<close> leaves the descriptor table of the first task as the memory at address 0 had it; if that
  was 0, \<open>fork\<close> of the first task fails.
\<close>

theorem first_fork_fails:
  assumes "bootable memupper init_task entry k" and "gdt (task_at k 0) = 0"
    and "kernelMain memupper h init_task g entry k = Some m"
  shows "forkTask cpu ((kern m)\<lparr>currentTask := 0\<rparr>) = Some (-1, (kern m)\<lparr>currentTask := 0\<rparr>)"
  using kernelMain_booted [OF assms(1), of h g] assms(2,3)
  by (auto simp: forkTask_def Let_def)

end
