(* ===== verification/Kernel_Syscalls_Properties.thy ===== *)
theory Kernel_Syscalls_Properties
  imports Kernel_Syscalls Kernel_Interrupts_Properties
begin

text \<open>
  System calls from end to end, on a machine in any state it can reach: what the program that makes
  a call finds when it goes on, and which program goes on.
\<close>

definition called :: "u32 \<Rightarrow> CPUState \<Rightarrow> machine \<Rightarrow> kernel" where
  "called cpu regs m = set_frame cpu (\<lambda>_. regs\<lparr>err_code := 0\<rparr>) (kern m)"

lemma called_simps [simp]:
  "tasks (called cpu regs m) = tasks (kern m)" "numTasks (called cpu regs m) = numTasks (kern m)"
  "currentTask (called cpu regs m) = currentTask (kern m)" "task (called cpu regs m) = task (kern m)"
  "task_ptr (called cpu regs m) = task_ptr (kern m)"
  "frame_at (called cpu regs m) = (frame_at (kern m))(cpu := regs\<lparr>err_code := 0\<rparr>)"
  by (simp_all add: called_def fun_eq_iff)

text \<open>The vector of \<open>int 0x80\<close> leads to the system call handler and no interrupt controller is touched.\<close>

lemma int80_call:
  assumes "booted m"
  shows "int80 cpu regs m =
    map_option (\<lambda>(cpu1, k). (cpu1, m\<lparr>kern := k\<rparr>)) (handle_syscall cpu (called cpu regs m))"
  using assms
  by (simp add: int80_def called_def booted_def vector_table_eq stub_number_def HandleInterrupt_def
      DoHandleInterrupt_def Let_def acknowledge_def map_option_case split: option.splits)

lemma running_task:
  assumes "system_inv memupper m" and "0 \<le> currentTask (kern m)"
  shows "booted m" and "0 < numTasks (kern m)" and "currentTask (kern m) < numTasks (kern m)"
    and "pid (task (kern m) (currentTask (kern m))) = of_nat (nat (currentTask (kern m)))"
proof -
  let ?k = "kern m"
  from assms show "booted m" "0 < numTasks ?k" "currentTask ?k < numTasks ?k"
    by (auto simp: system_inv_def kernel_ok_def task_table_ok_def)
  from assms have u: "unat (pid (task ?k (currentTask ?k))) = nat (currentTask ?k)"
    by (auto simp: system_inv_def kernel_ok_def task_table_ok_def)
  show "pid (task ?k (currentTask ?k)) = of_nat (nat (currentTask ?k))"
    by (simp only: u [symmetric]) simp
qed

text \<open>\<open>exit\<close> and a \<open>waitpid\<close> that has to wait hand the processor to another task that can run.\<close>

lemma exit_switches:
  assumes inv: "system_inv memupper m" and cur: "0 \<le> currentTask (kern m)"
    and i: "0 \<le> i" "i < numTasks (kern m)" "i \<noteq> currentTask (kern m)"
    and i_runnable: "taskState (task (kern m) i) = READY \<or> taskState (task (kern m) i) = WAITING \<and>
      getTaskIndex (waitPid (task (kern m) i)) (kern m) = Some (currentTask (kern m))"
  obtains j m' where "j \<noteq> currentTask (kern m)" "0 \<le> j" "j < numTasks (kern m)"
    "exit cpu regs m = Some (cpustate (task (kern m) j), m')" "currentTask (kern m') = j"
    "taskState (task (kern m') (currentTask (kern m))) = FINISHED" "taskState (task (kern m') j) = READY"
    "frame_at (kern m') = (frame_at (kern m))(cpu := regs\<lparr>eax := 1, err_code := 0\<rparr>)"
proof -
  note run = running_task [OF inv cur]
  let ?k = "called cpu (regs\<lparr>eax := 1\<rparr>) m" and ?cur = "currentTask (kern m)"
  let ?k1 = "snd (exitTask ?k)"
  have ok: "kernel_ok 10485760 (heap_top memupper) ?k" using inv by (simp add: system_inv_def called_def)
  have same: "currentTask ?k1 = ?cur" "numTasks ?k1 = numTasks (kern m)" by (simp_all add: exitTask_def)
  have ptr: "task_ptr (kern m) j = task_ptr (kern m) ?cur \<longleftrightarrow> j = ?cur" if "0 \<le> j" "j < numTasks (kern m)" for j
    using task_ptr_inj [OF ok, of j ?cur] that cur run(3) by simp
  have task: "task ?k1 j = (if j = ?cur then (task (kern m) j)\<lparr>taskState := FINISHED\<rparr> else task (kern m) j)"
    if "0 \<le> j" "j < numTasks (kern m)" for j
    using ptr [OF that] by (simp add: exitTask_def)
  have frames: "frame_at ?k1 = frame_at ?k" by (simp add: exitTask_def)
  have index: "getTaskIndex p ?k1 = getTaskIndex p (kern m)" for p
    by (simp add: getTaskIndex_def exitTask_def if_distrib cong: if_cong)
  have "\<not> runnable ?k1 (currentTask ?k1)" using same(1) task [of ?cur] cur run(3) by (simp add: runnable_def)
  moreover have "runnable ?k1 i"
    using i_runnable task [OF i(1,2)] task [of ?cur] i(3) cur run(3) by (auto simp: runnable_def index)
  ultimately obtain j where j: "j \<noteq> ?cur" "0 \<le> j" "j < numTasks (kern m)" "runnable ?k1 j"
      "Schedule cpu ?k1 = (cpustate (task (saved cpu ?k1) j), dispatched j (saved cpu ?k1))"
    using schedule_away [OF kernel_ok_exit [OF ok], of i cpu] i(1,2) same by auto
  have cur1: "0 \<le> currentTask ?k1" "currentTask ?k1 < numTasks ?k1" "j < numTasks ?k1" "j \<noteq> currentTask ?k1"
    using same cur run(3) j(1,3) by simp_all
  note sw = switched_tasks [OF kernel_ok_exit [OF ok] cur1(1,2) j(2) cur1(3,4), where cpu = cpu]
  have call: "exit cpu regs m = Some (case Schedule cpu ?k1 of (cpu1, k) \<Rightarrow> (cpu1, m\<lparr>kern := k\<rparr>))"
    by (simp add: exit_def int80_call [OF run(1)] handle_syscall_def split: prod.splits)
      (simp add: exitTask_def)
  show ?thesis
  proof (rule that [OF j(1-3)])
    show "exit cpu regs m = Some (cpustate (task (kern m) j), m\<lparr>kern := dispatched j (saved cpu ?k1)\<rparr>)"
      by (simp add: call j(5) sw(1) task j(1-3))
  qed (use sw(2,3,5) j(4) same task [of ?cur] cur run(3) in \<open>simp_all add: frames\<close>)
qed

lemma waitpid_task:
  assumes ok: "kernel_ok start e k" and cur: "0 \<le> currentTask k"
    and c: "getTaskIndex p k = Some c" "c \<noteq> currentTask k" "p \<noteq> 0" "taskState (task k c) \<noteq> FINISHED"
    and p: "ebx (frame_at k cpu) = p"
  shows "waitpidTask cpu k = (True, set_task (task_ptr k (currentTask k))
    (\<lambda>t. t\<lparr>taskState := WAITING, waitPid := p, cpustate := cpu\<rparr>) k)"
proof -
  have range: "0 \<le> c" "c < numTasks k" "pid (task k c) = p" using getTaskIndex_Some [OF c(1)] by auto
  have "pid (task k (currentTask k)) \<noteq> p"
  proof
    assume "pid (task k (currentTask k)) = p"
    moreover have "unat (pid (task k (currentTask k))) = nat (currentTask k)" "unat (pid (task k c)) = nat c"
      using ok cur range by (auto simp: kernel_ok_def task_table_ok_def)
    ultimately show False using range c(2) cur by simp
  qed
  then show ?thesis using c by (simp add: waitpidTask_def Let_def p)
qed

lemma waitpid_switches:
  assumes inv: "system_inv memupper m" and cur: "0 \<le> currentTask (kern m)"
    and c: "getTaskIndex p (kern m) = Some c" "c \<noteq> currentTask (kern m)" "p \<noteq> 0"
      "taskState (task (kern m) c) = READY"
  obtains j m' where "j \<noteq> currentTask (kern m)" "0 \<le> j" "j < numTasks (kern m)"
    "waitpid p cpu regs m = Some (cpustate (task (kern m) j), m')" "currentTask (kern m') = j"
    "numTasks (kern m') = numTasks (kern m)"
    "task (kern m') (currentTask (kern m)) =
      (task (kern m) (currentTask (kern m)))\<lparr>taskState := WAITING, waitPid := p, cpustate := cpu\<rparr>"
    "taskState (task (kern m') j) = READY"
    "\<And>q. getTaskIndex q (kern m') = getTaskIndex q (kern m)"
    "frame_at (kern m') = (frame_at (kern m))(cpu := regs\<lparr>eax := 7, ebx := p, err_code := 0\<rparr>)"
proof -
  note run = running_task [OF inv cur]
  let ?k = "called cpu (regs\<lparr>eax := 7, ebx := p\<rparr>) m" and ?cur = "currentTask (kern m)"
  let ?k1 = "snd (waitpidTask cpu ?k)"
  have ok: "kernel_ok 10485760 (heap_top memupper) ?k" using inv by (simp add: system_inv_def called_def)
  have index: "getTaskIndex q ?k = getTaskIndex q (kern m)" for q by (simp add: getTaskIndex_def)
  have c_range: "0 \<le> c" "c < numTasks (kern m)" "pid (task (kern m) c) = p"
    using getTaskIndex_Some [OF c(1)] by auto
  have ptr: "task_ptr (kern m) j = task_ptr (kern m) ?cur \<longleftrightarrow> j = ?cur" if "0 \<le> j" "j < numTasks (kern m)" for j
    using task_ptr_inj [OF ok, of j ?cur] that cur run(3) by simp
  have wait: "waitpidTask cpu ?k = (True, set_task (task_ptr (kern m) ?cur)
      (\<lambda>t. t\<lparr>taskState := WAITING, waitPid := p, cpustate := cpu\<rparr>) ?k)"
    using waitpid_task [OF ok, of p c cpu] cur c by (simp add: index)
  have same: "currentTask ?k1 = ?cur" "numTasks ?k1 = numTasks (kern m)" "frame_at ?k1 = frame_at ?k"
    by (simp_all add: wait)
  have task: "task ?k1 j = (if j = ?cur
      then (task (kern m) j)\<lparr>taskState := WAITING, waitPid := p, cpustate := cpu\<rparr> else task (kern m) j)"
    if "0 \<le> j" "j < numTasks (kern m)" for j
    using ptr [OF that] by (simp add: wait)
  have index1: "getTaskIndex q ?k1 = getTaskIndex q (kern m)" for q
    by (simp add: getTaskIndex_def wait if_distrib cong: if_cong)
  have ok1: "kernel_ok 10485760 (heap_top memupper) ?k1"
    by (rule kernel_ok_waitpid [OF ok]) (use cur in simp)
  have "\<not> runnable ?k1 (currentTask ?k1)" and "runnable ?k1 c"
    using same(1) task [of ?cur] task [of c] cur run(3) c c_range by (auto simp: runnable_def index1)
  then obtain j where j: "j \<noteq> ?cur" "0 \<le> j" "j < numTasks (kern m)" "runnable ?k1 j"
      "Schedule cpu ?k1 = (cpustate (task (saved cpu ?k1) j), dispatched j (saved cpu ?k1))"
    using schedule_away [OF ok1, of c cpu] c_range same by auto
  have cur1: "0 \<le> currentTask ?k1" "currentTask ?k1 < numTasks ?k1" "j < numTasks ?k1" "j \<noteq> currentTask ?k1"
    using same cur run(3) j(1,3) by simp_all
  note sw = switched_tasks [OF ok1 cur1(1,2) j(2) cur1(3,4), where cpu = cpu]
  have call: "waitpid p cpu regs m = Some (case Schedule cpu ?k1 of (cpu1, k) \<Rightarrow> (cpu1, m\<lparr>kern := k\<rparr>))"
    by (simp add: waitpid_def int80_call [OF run(1)] handle_syscall_def wait split: prod.splits)
  show ?thesis
  proof (rule that [OF j(1-3)])
    show "waitpid p cpu regs m =
        Some (cpustate (task (kern m) j), m\<lparr>kern := dispatched j (saved cpu ?k1)\<rparr>)"
      by (simp add: call j(5) sw(1) task j(1-3))
  qed (use sw(2,3,5,6) j(4) same task [of ?cur] cur run(3) index1 in simp_all)
qed

lemma int80_reachable:
  assumes "reachable (system_start memupper) machine_step m" and "0 \<le> currentTask (kern m)"
    and "int80 cpu regs m = Some (cpu', m')"
  shows "reachable (system_start memupper) machine_step m'"
proof -
  let ?m = "m\<lparr>kern := set_frame cpu (\<lambda>_. regs\<lparr>err_code := 0\<rparr>) (kern m)\<rparr>"
  from system.reachable_inv [OF assms(1)] have "booted m" by (simp add: system_inv_def)
  with assms(3) have h: "HandleInterrupt 0xA0 cpu ?m = Some (cpu', m')"
    by (simp add: int80_def booted_def vector_table_eq stub_number_def)
  have "?m = m\<lparr>kern := (kern m)\<lparr>frame_at := (frame_at (kern m))(cpu := regs\<lparr>err_code := 0\<rparr>), screen := screen (kern m)\<rparr>\<rparr>"
    by (simp add: set_frame_def)
  then have "machine_step m ?m" by (metis compute)
  moreover have "machine_step ?m m'" using h assms(2) by (intro interrupt) simp_all
  ultimately show ?thesis using assms(1) by (meson reach_step)
qed

subsection \<open>A machine with two tasks\<close>

lemma timer_tick:
  assumes "booted m"
  shows "HandleInterrupt 0x20 cpu m =
    Some (fst (Schedule cpu (kern m)), acknowledge 0x20 (m\<lparr>kern := snd (Schedule cpu (kern m))\<rparr>))"
  using assms by (simp add: HandleInterrupt_def DoHandleInterrupt_def booted_def Let_def split: prod.splits)

lemma schedule_gdt: "0 < numTasks k \<Longrightarrow> gdt (task (snd (Schedule cpu k)) i) = gdt (task k i)"
  by (auto simp: Schedule_find dispatched_task saved_def split: option.split)

lemma tick_reachable:
  assumes r: "reachable (system_start memupper) machine_step m" and i: "0 \<le> i" "i < numTasks (kern m)"
    and next_task: "(i - currentTask (kern m) - 1) mod numTasks (kern m) = 0"
    and ready: "\<And>j. 0 \<le> j \<Longrightarrow> j < numTasks (kern m) \<Longrightarrow> taskState (task (kern m) j) = READY"
  shows "\<exists>m'. reachable (system_start memupper) machine_step m' \<and> currentTask (kern m') = i \<and>
    numTasks (kern m') = numTasks (kern m) \<and>
    (\<forall>j. 0 \<le> j \<and> j < numTasks (kern m) \<longrightarrow> taskState (task (kern m') j) = READY) \<and>
    gdt (task (kern m') i) = gdt (task (kern m) i)"
proof -
  let ?k = "snd (Schedule 0 (kern m))" and ?m = "acknowledge 0x20 (m\<lparr>kern := snd (Schedule 0 (kern m))\<rparr>)"
  from system.reachable_inv [OF r] have "booted m" by (simp add: system_inv_def)
  then have "machine_step m ?m" using timer_tick [of m 0] by (intro interrupt [of "0x20" 0]) simp_all
  with r have "reachable (system_start memupper) machine_step ?m" by (meson reach_step)
  moreover have n: "0 < numTasks (kern m)" using i by simp
  moreover have "distance i (kern m) = 0" using next_task by (simp add: distance_def)
  ultimately show ?thesis
    using schedule_closer [OF n, of i 0] schedule_closer [OF n, of _ 0] ready i schedule_gdt [OF n, of 0 i]
    by (intro exI [of _ ?m]) auto
qed

lemma two_tasks_machine:
  "\<exists>m. reachable (system_start 16384) machine_step m \<and> currentTask (kern m) = 0 \<and>
     numTasks (kern m) = 2 \<and> taskState (task (kern m) 1) = READY"
proof -
  from kernelMain_booted [OF empty_bootable, of zero_memory 600000] obtain m where m:
    "kernelMain 16384 zero_memory 500000 600000 7 empty_kernel = Some m" "numTasks (kern m) = 1"
    "currentTask (kern m) = -1" "gdt (task (kern m) 0) = gdt (task_at empty_kernel 0)"
    "taskState (task (kern m) 0) = READY" by blast
  have r: "reachable (system_start 16384) machine_step m"
    unfolding system_start_def using m(1) empty_bootable by (intro reach_init) blast
  have "taskState (task (kern m) j) = READY" if "0 \<le> j" "j < numTasks (kern m)" for j
    using that m(2,5) by (cases "j = 0") simp_all
  from tick_reachable [OF r, of 0, OF _ _ _ this] m(2-4) obtain m1 where
    r1: "reachable (system_start 16384) machine_step m1" and m1: "currentTask (kern m1) = 0" "numTasks (kern m1) = 1"
      "taskState (task (kern m1) 0) = READY" "gdt (task (kern m1) 0) \<noteq> 0"
    by (auto simp: empty_kernel_def)
  let ?k = "called 0 (blank_frame\<lparr>eip := 7, eax := 2\<rparr>) m1"
  from system.reachable_inv [OF r1] have b: "booted m1" and ok: "kernel_ok 10485760 (heap_top 16384) ?k"
    by (simp_all add: system_inv_def called_def)
  have "task_ptr ?k 0 = 0" using ok by (simp add: kernel_ok_def heap_ok_def)
  with fork_copies [OF ok, of 0] m1 obtain k2 where f: "forkTask 0 ?k = Some (1, k2)" "numTasks k2 = 2"
    "taskState (task k2 1) = READY" "task k2 0 = task ?k 0"
    by (auto simp: blank_frame_def)
  let ?k3 = "set_frame 0 (\<lambda>c. c\<lparr>ecx := 1\<rparr>) k2"
  let ?m2 = "m1\<lparr>kern := snd (Schedule 0 ?k3)\<rparr>"
  have "int80 0 (blank_frame\<lparr>eip := 7, eax := 2\<rparr>) m1 = Some (fst (Schedule 0 ?k3), ?m2)"
    using f(1) by (simp add: int80_call [OF b] handle_syscall_def split: prod.splits)
  from int80_reachable [OF r1 _ this] m1(1) have r2: "reachable (system_start 16384) machine_step ?m2" by simp
  have c: "numTasks (kern ?m2) = 2" "taskState (task (kern ?m2) 0) = READY" "taskState (task (kern ?m2) 1) = READY"
    "0 \<le> currentTask (kern ?m2)" "currentTask (kern ?m2) < 2"
    using schedule_closer [of ?k3 0 0] schedule_closer [of ?k3 1 0] f m1 by auto
  have "taskState (task (kern ?m2) j) = READY" if "0 \<le> j" "j < numTasks (kern ?m2)" for j
  proof -
    from that c(1) have "j = 0 \<or> j = 1" by linarith
    with c show ?thesis by blast
  qed
  note tick = tick_reachable [OF r2, of 0, OF _ _ _ this]
  from c(4,5) have "currentTask (kern ?m2) = 0 \<or> currentTask (kern ?m2) = 1" by linarith
  then show ?thesis
  proof
    assume "currentTask (kern ?m2) = 1"
    with tick c show ?thesis by auto
  qed (use r2 c in blast)
qed

section \<open>Properties\<close>

text \<open>C30. On every machine the system can reach, a call of a running task does what its name says:
  \<open>getpid\<close> gives the caller its index in the table and the caller goes on with its other
  registers as they were; \<open>execve\<close> goes on at the new entry point with an empty stack of the same
  task; \<open>waitpid\<close> of the caller itself, of process 0 or of a process that has finished comes back
  at once. None of them changes another task, or which task runs.
\<close>

theorem calls_answered:
  assumes "reachable (system_start memupper) machine_step m" and "0 \<le> currentTask (kern m)"
  shows "(\<exists>m'. getpid cpu regs m = Some (of_nat (nat (currentTask (kern m))), cpu, m') \<and>
      frame_at (kern m') cpu =
        regs\<lparr>eax := 20, err_code := 0, ecx := of_nat (nat (currentTask (kern m)))\<rparr> \<and>
      currentTask (kern m') = currentTask (kern m) \<and> (\<forall>i. task (kern m') i = task (kern m) i)) \<and>
    (\<exists>cpu' m'. execve entry cpu regs m = Some (cpu', m') \<and>
      eip (frame_at (kern m') cpu') = entry \<and>
      cpu' = task_ptr (kern m) (currentTask (kern m)) + 4044 \<and>
      esp (frame_at (kern m') cpu') = task_ptr (kern m) (currentTask (kern m)) + 4096 \<and>
      currentTask (kern m') = currentTask (kern m) \<and>
      (\<forall>i. 0 \<le> i \<and> i < numTasks (kern m) \<and> i \<noteq> currentTask (kern m) \<longrightarrow>
         task (kern m') i = task (kern m) i)) \<and>
    (p = of_nat (nat (currentTask (kern m))) \<or> p = 0 \<or>
       (\<exists>c. getTaskIndex p (kern m) = Some c \<and> taskState (task (kern m) c) = FINISHED) \<longrightarrow>
     (\<exists>m'. waitpid p cpu regs m = Some (cpu, m') \<and>
        currentTask (kern m') = currentTask (kern m) \<and> (\<forall>i. task (kern m') i = task (kern m) i)))"
proof -
  from system.reachable_inv [OF assms(1)] have inv: "system_inv memupper m" .
  then have ok: "kernel_ok 10485760 (heap_top memupper) (kern m)" by (simp add: system_inv_def)
  note run = running_task [OF inv assms(2)] and ptr = task_ptr_inj [OF ok]
  have index: "getTaskIndex p (called cpu regs' m) = getTaskIndex p (kern m)" for regs'
    by (simp add: getTaskIndex_def)
  have g: "\<exists>m'. getpid cpu regs m = Some (of_nat (nat (currentTask (kern m))), cpu, m') \<and>
      frame_at (kern m') cpu =
        regs\<lparr>eax := 20, err_code := 0, ecx := of_nat (nat (currentTask (kern m)))\<rparr> \<and>
      currentTask (kern m') = currentTask (kern m) \<and> (\<forall>i. task (kern m') i = task (kern m) i)"
    by (simp add: getpid_def int80_call [OF run(1)] handle_syscall_def Let_def getCurrentTaskPid_def run(4))
  have e: "\<exists>cpu' m'. execve entry cpu regs m = Some (cpu', m') \<and>
      eip (frame_at (kern m') cpu') = entry \<and>
      cpu' = task_ptr (kern m) (currentTask (kern m)) + 4044 \<and>
      esp (frame_at (kern m') cpu') = task_ptr (kern m) (currentTask (kern m)) + 4096 \<and>
      currentTask (kern m') = currentTask (kern m) \<and>
      (\<forall>i. 0 \<le> i \<and> i < numTasks (kern m) \<and> i \<noteq> currentTask (kern m) \<longrightarrow>
         task (kern m') i = task (kern m) i)"
    using ptr assms(2) run(3)
    by (simp add: execve_def int80_call [OF run(1)] handle_syscall_def execveTask_def Let_def
        STACK_def CPU_SIZE_def task_def [symmetric])
  have w: "\<exists>m'. waitpid p cpu regs m = Some (cpu, m') \<and>
        currentTask (kern m') = currentTask (kern m) \<and> (\<forall>i. task (kern m') i = task (kern m) i)"
    if "p = of_nat (nat (currentTask (kern m))) \<or> p = 0 \<or>
       (\<exists>c. getTaskIndex p (kern m) = Some c \<and> taskState (task (kern m) c) = FINISHED)"
    using that
    by (auto simp: waitpid_def int80_call [OF run(1)] handle_syscall_def waitpidTask_def Let_def run(4) index)
  from g e w show ?thesis by blast
qed

theorem calls_answered_witness:
  "\<exists>m m'. getpid 5000 blank_frame m = Some (0, 5000, m') \<and> numTasks (kern m) = 2"
proof -
  from two_tasks_machine obtain m where m: "reachable (system_start 16384) machine_step m"
    "currentTask (kern m) = 0" "numTasks (kern m) = 2" by blast
  then have "0 \<le> currentTask (kern m)" by simp
  from calls_answered [OF m(1) this, of 5000 blank_frame 7 0] m(2)
  have "\<exists>m'. getpid 5000 blank_frame m = Some (0, 5000, m')" by auto
  with m(3) show ?thesis by blast
qed



text \<open>The text of \<open>testExec\<close> ends with the process number, and the process exits.\<close>

theorem test_exec_prints:
  assumes "reachable (system_start memupper) machine_step m" and "0 \<le> currentTask (kern m)"
  shows "\<exists>m1. testExec cpu regs cpu' regs' m = exit cpu' regs' m1 \<and>
    screen (kern m1) = printf ''Exec test is finished...\<newline>'' (printf ''\<newline>''
      (printfHex (ucast (of_nat (nat (currentTask (kern m))) :: u32))
        (printf ''PID: '' (printf ''Exec test is running...\<newline>'' (screen (kern m))))))"
proof -
  from system.reachable_inv [OF assms(1)] have inv: "system_inv memupper m" .
  note run = running_task [OF inv assms(2)]
  have b: "booted (m\<lparr>kern := k\<rparr>)" for k using run(1) by (simp add: booted_def)
  have "int80 cpu r (m\<lparr>kern := k\<rparr>) =
      map_option (\<lambda>(cpu1, k'). (cpu1, m\<lparr>kern := k'\<rparr>)) (handle_syscall cpu (called cpu r (m\<lparr>kern := k\<rparr>)))" for r k
    using int80_call [OF b] by simp
  then have "testExec cpu regs cpu' regs' m = exit cpu' regs'
      (m\<lparr>kern := (kern m)\<lparr>frame_at := (frame_at (kern m))(cpu := regs
          \<lparr>eax := 20, err_code := 0, ecx := of_nat (nat (currentTask (kern m)))\<rparr>),
        screen := printf ''Exec test is finished...\<newline>'' (printf ''\<newline>''
          (printfHex (ucast (of_nat (nat (currentTask (kern m))) :: u32))
            (printf ''PID: '' (printf ''Exec test is running...\<newline>'' (screen (kern m))))))\<rparr>\<rparr>)"
    by (simp add: testExec_def getpid_def show_text_def show_hex_def handle_syscall_def Let_def
        getCurrentTaskPid_def run(4) called_def)
      (simp add: set_frame_def print_def)
  then show ?thesis by (intro exI conjI) (assumption, simp)
qed

end
