(* ===== verification/Kernel_Programs_Properties.thy ===== *)
theory Kernel_Programs_Properties
  imports Kernel_Programs Kernel_Syscalls_Properties
begin

text \<open>
  The user programs on the machine: every action is carried out and leads to a state the system can
  reach, and the calls that a parent and its children make in \<open>init\<close>.
\<close>

lemma int80_returns:
  assumes "reachable (system_start memupper) machine_step m" and "0 \<le> currentTask (kern m)"
  shows "int80 cpu regs m \<noteq> None"
proof -
  let ?m = "m\<lparr>kern := set_frame cpu (\<lambda>_. regs\<lparr>err_code := 0\<rparr>) (kern m)\<rparr>"
  from system.reachable_inv [OF assms(1)] have inv: "system_inv memupper m" .
  then have "booted m" and "system_inv memupper ?m" by (auto simp: system_inv_def booted_def)
  moreover from this(2) have "HandleInterrupt 0xA0 cpu ?m \<noteq> None"
    using handle_ok [of memupper ?m "0xA0" cpu] assms(2) by auto
  ultimately show ?thesis by (simp add: int80_def booted_def vector_table_eq stub_number_def)
qed

lemma screen_reachable:
  assumes "reachable S machine_step m"
  shows "reachable S machine_step (m\<lparr>kern := (kern m)\<lparr>screen := scr\<rparr>\<rparr>)"
proof -
  have "m\<lparr>kern := (kern m)\<lparr>screen := scr\<rparr>\<rparr> = m\<lparr>kern := (kern m)\<lparr>frame_at := frame_at (kern m), screen := scr\<rparr>\<rparr>"
    by simp
  then have "machine_step m (m\<lparr>kern := (kern m)\<lparr>screen := scr\<rparr>\<rparr>)" by (metis compute)
  with assms show ?thesis by (rule reach_step)
qed

lemmas call_defs = getpid_def fork_def exit_def execve_def waitpid_def

section \<open>Properties\<close>



text \<open>The calls \<open>init\<close> makes: the parent waits for each child before it forks the next one; the first
  child of a round becomes the program \<open>collatz\<close>, and the second ends with the long running program.
\<close>

fun is_call :: "user_action \<Rightarrow> bool" where
  "is_call (Show s) = False"
| "is_call (Sleep s) = False"
| "is_call _ = True"

lemma init_loop_parent:
  assumes "\<forall>i \<in> set is. 0 < childPid1 i \<and> 0 < childPid2 i"
  shows "filter is_call (init_loop childPid1 childPid2 is rest) =
    concat (map (\<lambda>i. [Fork, Wait (childPid1 i), Fork, Wait (childPid2 i)]) is) @ filter is_call rest"
  using assms by (induction "is") auto

theorem init_parent_waits:
  assumes "\<forall>i < 3. 0 < childPid1 i \<and> 0 < childPid2 i"
  shows "filter is_call (init childPid1 childPid2 idle) =
    concat (map (\<lambda>i. [Fork, Wait (childPid1 i), Fork, Wait (childPid2 i)]) [0..<3])"
  using assms by (simp add: init_def init_loop_parent)

theorem init_child_leaves:
  assumes "\<forall>i < n. 0 < childPid1 i \<and> 0 < childPid2 i" and "n < 3"
  shows "childPid1 n = 0 \<Longrightarrow> \<exists>as rest. init childPid1 childPid2 idle = as @ [Fork, Execve Collatz] @ rest \<and>
      Execve Collatz \<notin> set as \<and> Exit \<notin> set as"
    and "0 < childPid1 n \<Longrightarrow> childPid2 n = 0 \<Longrightarrow> \<exists>as rest. init childPid1 childPid2 idle =
        as @ [Fork, Show ''******* Long running program is running *******\<newline>'', Long_run 1000] @ rest \<and>
      Execve Collatz \<notin> set as \<and> Exit \<notin> set as"
proof -
  have before: "\<exists>as. (\<forall>rest js. init_loop childPid1 childPid2 ([0..<k] @ js) rest =
      as @ init_loop childPid1 childPid2 js rest) \<and> Execve Collatz \<notin> set as \<and> Exit \<notin> set as"
    if "k \<le> n" for k
    using that
  proof (induction k)
    case (Suc k)
    then obtain as where as: "\<forall>rest js. init_loop childPid1 childPid2 ([0..<k] @ js) rest =
      as @ init_loop childPid1 childPid2 js rest" "Execve Collatz \<notin> set as" "Exit \<notin> set as" by auto
    have p: "0 < childPid1 k" "0 < childPid2 k" using Suc.prems assms(1) by simp_all
    let ?as = "as @ [Fork, Show ''Parent process is waiting for children to finish...\<newline>'', Wait (childPid1 k),
      Fork, Wait (childPid2 k), Show ''Init process continues...\<newline>'']"
    have "init_loop childPid1 childPid2 ([0..<Suc k] @ js) rest = ?as @ init_loop childPid1 childPid2 js rest"
      for rest js
      using as(1) [rule_format, of "k # js" rest] p by simp
    with as(2,3) show ?case by (intro exI [of _ ?as]) simp
  qed simp
  from before [of n] obtain as where as: "\<forall>rest js. init_loop childPid1 childPid2 ([0..<n] @ js) rest =
      as @ init_loop childPid1 childPid2 js rest" "Execve Collatz \<notin> set as" "Exit \<notin> set as" by auto
  have "[0..<3] = [0..<n] @ n # [Suc n..<3]"
    using assms(2) upt_add_eq_append [of 0 n "3 - n"] by (simp add: upt_conv_Cons)
  then have i: "init childPid1 childPid2 idle =
      as @ init_loop childPid1 childPid2 (n # [Suc n..<3]) (replicate idle (Sleep 50))"
    using as(1) by (simp add: init_def del: init_loop.simps)
  show "\<exists>as rest. init childPid1 childPid2 idle = as @ [Fork, Execve Collatz] @ rest \<and>
      Execve Collatz \<notin> set as \<and> Exit \<notin> set as" if "childPid1 n = 0"
    unfolding i using as(2,3) that by - (rule exI [of _ as], simp)
  show "\<exists>as rest. init childPid1 childPid2 idle =
        as @ [Fork, Show ''******* Long running program is running *******\<newline>'', Long_run 1000] @ rest \<and>
      Execve Collatz \<notin> set as \<and> Exit \<notin> set as" if "0 < childPid1 n" "childPid2 n = 0"
    unfolding i using as(2,3) that
    by - (rule exI [of _ "as @ [Fork, Show ''Parent process is waiting for children to finish...\<newline>'',
      Wait (childPid1 n)]"], simp)
qed

end
