(* ===== verification/Kernel_Ports.thy ===== *)
theory Kernel_Ports
  imports Prelude
begin

text \<open>
  The I/O ports of the kernel (os01, \<open>port.cpp\<close> and \<open>port.h\<close>). What a device answers may depend on
  everything that was read from and written to the machine's ports before: a device is a function
  of the history of accesses, and stays a parameter wherever a driver is modelled.
\<close>

datatype access = In8 u16 | In16 u16 | In32 u16 | Out8 u16 byte | Out16 u16 u16 | Out32 u16 u32

type_synonym trace = "access list"
type_synonym device = "trace \<Rightarrow> u32"

text \<open>A \<open>Port\<close> is its number; the constructors of the derived classes store nothing else.\<close>

type_synonym port = u16

definition Port8Bit_Read :: "device \<Rightarrow> port \<Rightarrow> trace \<Rightarrow> byte \<times> trace" where
  "Port8Bit_Read dev portnumber h = (ucast (dev (h @ [In8 portnumber])), h @ [In8 portnumber])"

definition Port8Bit_Write :: "port \<Rightarrow> byte \<Rightarrow> trace \<Rightarrow> trace" where
  "Port8Bit_Write portnumber data h = h @ [Out8 portnumber data]"

definition Port16Bit_Read :: "device \<Rightarrow> port \<Rightarrow> trace \<Rightarrow> u16 \<times> trace" where
  "Port16Bit_Read dev portnumber h = (ucast (dev (h @ [In16 portnumber])), h @ [In16 portnumber])"

definition Port16Bit_Write :: "port \<Rightarrow> u16 \<Rightarrow> trace \<Rightarrow> trace" where
  "Port16Bit_Write portnumber data h = h @ [Out16 portnumber data]"

definition Port32Bit_Read :: "device \<Rightarrow> port \<Rightarrow> trace \<Rightarrow> u32 \<times> trace" where
  "Port32Bit_Read dev portnumber h = (dev (h @ [In32 portnumber]), h @ [In32 portnumber])"

definition Port32Bit_Write :: "port \<Rightarrow> u32 \<Rightarrow> trace \<Rightarrow> trace" where
  "Port32Bit_Write portnumber data h = h @ [Out32 portnumber data]"

text \<open>The slow port writes the same byte and then jumps twice, to give the device time.\<close>

definition Port8BitSlow_Write :: "port \<Rightarrow> byte \<Rightarrow> trace \<Rightarrow> trace" where
  "Port8BitSlow_Write portnumber data h = h @ [Out8 portnumber data]"

lemmas port_defs = Port8Bit_Read_def Port8Bit_Write_def Port16Bit_Read_def Port16Bit_Write_def
  Port32Bit_Read_def Port32Bit_Write_def

text \<open>Reading one port again and again while a bit pattern says that the device is not ready.\<close>

partial_function (option) poll :: "device \<Rightarrow> port \<Rightarrow> (byte \<Rightarrow> bool) \<Rightarrow> byte \<Rightarrow> trace \<Rightarrow> (byte \<times> trace) option" where
  [code]: "poll dev p busy status h =
     (if busy status then (case Port8Bit_Read dev p h of (status', h') \<Rightarrow> poll dev p busy status' h')
      else Some (status, h))"

text \<open>It ends as soon as one of the next answers is not busy, and only then.\<close>

definition answers :: "device \<Rightarrow> port \<Rightarrow> trace \<Rightarrow> nat \<Rightarrow> byte" where
  "answers dev p h n = ucast (dev (h @ replicate (Suc n) (In8 p)))"

lemma poll_idle: "\<not> busy status \<Longrightarrow> poll dev p busy status h = Some (status, h)"
  by (subst poll.simps) simp

lemma answers_Suc: "answers dev p (h @ [In8 p]) n = answers dev p h (Suc n)"
  by (simp add: answers_def)

lemma poll_ready:
  assumes "busy status" and "\<And>i. i < n \<Longrightarrow> busy (answers dev p h i)" and "\<not> busy (answers dev p h n)"
  shows "poll dev p busy status h = Some (answers dev p h n, h @ replicate (Suc n) (In8 p))"
  using assms
proof (induction n arbitrary: status h)
  case 0
  then show ?case
    by (subst poll.simps) (simp add: Port8Bit_Read_def poll_idle answers_def)
next
  case (Suc n)
  from Suc.prems(2) [of 0] have "busy (ucast (dev (h @ [In8 p])))" by (simp add: answers_def)
  moreover have "busy (answers dev p (h @ [In8 p]) i)" if "i < n" for i
    using Suc.prems(2) [of "Suc i"] that by (simp add: answers_Suc)
  moreover have "\<not> busy (answers dev p (h @ [In8 p]) n)"
    using Suc.prems(3) by (simp add: answers_Suc)
  ultimately have "poll dev p busy (ucast (dev (h @ [In8 p]))) (h @ [In8 p]) =
      Some (answers dev p (h @ [In8 p]) n, (h @ [In8 p]) @ replicate (Suc n) (In8 p))"
    by (rule Suc.IH)
  then show ?case
    using Suc.prems(1) by (subst poll.simps) (simp add: Port8Bit_Read_def answers_Suc)
qed

lemma poll_returns: "poll dev p busy status h = Some r \<Longrightarrow> \<not> busy (fst r)"
proof (rule poll.raw_induct [where P = "\<lambda>_ _ busy _ _ r. \<not> busy (fst r)"], goal_cases)
  case (1 poll dev p busy status h y)
  show ?case
    using 1(3) 1(2) [of dev p busy _ _ y] by (cases y) (simp split: if_splits prod.splits)
qed

end
