(* ===== verification/Kernel_Drivers.thy ===== *)
theory Kernel_Drivers
  imports Kernel_Ports Kernel_Console
begin

text \<open>
  The input drivers of the kernel (os01, \<open>keyboard.cpp\<close>, \<open>mouse.cpp\<close>, \<open>driver.cpp\<close>): scan codes
  to characters, the three-byte packets of the mouse to moves and buttons, and the list of drivers
  that is activated at the start. A handler is a record of its virtual functions, each a function on
  the state \<open>'s\<close> of its object together with the console.
\<close>

unbundle bit_operations_syntax

subsection \<open>Keyboard\<close>

record 's key_handler =
  on_key_down :: "char \<Rightarrow> console \<times> 's \<Rightarrow> console \<times> 's"
  on_key_up :: "char \<Rightarrow> console \<times> 's \<Rightarrow> console \<times> 's"

text \<open>The base class ignores every key; \<open>PrintfKeyboardEventHandler\<close> prints those that go down.\<close>

definition KeyboardEventHandler :: "'s key_handler" where
  "KeyboardEventHandler = \<lparr>on_key_down = \<lambda>_. id, on_key_up = \<lambda>_. id\<rparr>"

definition PrintfKeyboardEventHandler :: "unit key_handler" where
  "PrintfKeyboardEventHandler = KeyboardEventHandler\<lparr>on_key_down := \<lambda>c (con, u). (OnKeyDown c con, u)\<rparr>"

definition key_table :: "(byte \<times> char) list" where
  "key_table =
     [(0x02, CHR ''1''), (0x03, CHR ''2''), (0x04, CHR ''3''), (0x05, CHR ''4''), (0x06, CHR ''5''),
      (0x07, CHR ''6''), (0x08, CHR ''7''), (0x09, CHR ''8''), (0x0A, CHR ''9''), (0x0B, CHR ''0''),
      (0x10, CHR ''q''), (0x11, CHR ''w''), (0x12, CHR ''e''), (0x13, CHR ''r''), (0x14, CHR ''t''),
      (0x15, CHR ''z''), (0x16, CHR ''u''), (0x17, CHR ''i''), (0x18, CHR ''o''), (0x19, CHR ''p''),
      (0x1E, CHR ''a''), (0x1F, CHR ''s''), (0x20, CHR ''d''), (0x21, CHR ''f''), (0x22, CHR ''g''),
      (0x23, CHR ''h''), (0x24, CHR ''j''), (0x25, CHR ''k''), (0x26, CHR ''l''),
      (0x2C, CHR ''y''), (0x2D, CHR ''x''), (0x2E, CHR ''c''), (0x2F, CHR ''v''), (0x30, CHR ''b''),
      (0x31, CHR ''n''), (0x32, CHR ''m''), (0x33, CHR '',''), (0x34, CHR ''.''), (0x35, CHR ''-''),
      (0x1C, CHR ''\<newline>''), (0x39, CHR '' '')]"

definition keyboard_HandleInterrupt ::
  "device \<Rightarrow> 's key_handler option \<Rightarrow> u32 \<Rightarrow> trace \<times> console \<times> 's \<Rightarrow> u32 \<times> trace \<times> console \<times> 's" where
  "keyboard_HandleInterrupt dev handler esp st =
     (case st of (h, con, s) \<Rightarrow>
      case Port8Bit_Read dev 0x60 h of (key, h) \<Rightarrow>
      (case handler of None \<Rightarrow> (esp, h, con, s)
       | Some hnd \<Rightarrow>
           if key < 0x80
           then (case map_of key_table key of
                   Some c \<Rightarrow> (esp, h, on_key_down hnd c (con, s))
                 | None \<Rightarrow> (esp, h, printfHex key (printf ''KEYBOARD 0x'' con), s))
           else (esp, h, con, s)))"

text \<open>The loop that empties the controller's buffer; it need not end.\<close>

partial_function (option) drain :: "device \<Rightarrow> trace \<Rightarrow> trace option" where
  [code]: "drain dev h =
     (case Port8Bit_Read dev 0x64 h of (status, h) \<Rightarrow>
       if status AND 0x1 = 0 then Some h
       else (case Port8Bit_Read dev 0x60 h of (_, h) \<Rightarrow> drain dev h))"

definition keyboard_Activate :: "device \<Rightarrow> trace \<Rightarrow> trace option" where
  "keyboard_Activate dev h =
     (case drain dev h of None \<Rightarrow> None
      | Some h \<Rightarrow>
          (let h = Port8Bit_Write 0x64 0xae h;
               h = Port8Bit_Write 0x64 0x20 h;
               (r, h) = Port8Bit_Read dev 0x60 h;
               status = (r OR 1) AND NOT 0x10;
               h = Port8Bit_Write 0x64 0x60 h;
               h = Port8Bit_Write 0x60 status h
           in Some (Port8Bit_Write 0x60 0xf4 h)))"

subsection \<open>Mouse\<close>

record 's mouse_handler =
  on_activate :: "'s \<Rightarrow> 's"
  on_mouse_down :: "byte \<Rightarrow> 's \<Rightarrow> 's"
  on_mouse_up :: "byte \<Rightarrow> 's \<Rightarrow> 's"
  on_mouse_move :: "int \<Rightarrow> int \<Rightarrow> 's \<Rightarrow> 's"

definition MouseEventHandler :: "'s mouse_handler" where
  "MouseEventHandler =
     \<lparr>on_activate = id, on_mouse_down = \<lambda>_. id, on_mouse_up = \<lambda>_. id, on_mouse_move = \<lambda>_ _. id\<rparr>"

definition MouseToConsole_handler :: "(Kernel_Console.mouse \<times> video) mouse_handler" where
  "MouseToConsole_handler = MouseEventHandler\<lparr>on_mouse_move := OnMouseMove\<rparr>"

record mouse_driver =
  packet :: bytes
  offset :: nat
  buttons :: byte

definition mouse_Activate :: "device \<Rightarrow> 's mouse_handler option \<Rightarrow> mouse_driver \<times> trace \<times> 's \<Rightarrow> mouse_driver \<times> trace \<times> 's" where
  "mouse_Activate dev handler st =
     (case st of (m, h, s) \<Rightarrow>
      let m = m\<lparr>offset := 0, buttons := 0\<rparr>;
          s = (case handler of None \<Rightarrow> s | Some hnd \<Rightarrow> on_activate hnd s);
          h = Port8Bit_Write 0x64 0xA8 h;
          h = Port8Bit_Write 0x64 0x20 h;
          (r, h) = Port8Bit_Read dev 0x60 h;
          h = Port8Bit_Write 0x64 0x60 h;
          h = Port8Bit_Write 0x60 (r OR 2) h;
          h = Port8Bit_Write 0x64 0xD4 h;
          h = Port8Bit_Write 0x60 0xF4 h;
          (_, h) = Port8Bit_Read dev 0x60 h
      in (m, h, s))"

text \<open>The button bits of a finished packet against those of the one before.\<close>

definition button_changes :: "'s mouse_handler \<Rightarrow> byte \<Rightarrow> byte \<Rightarrow> 's \<Rightarrow> 's" where
  "button_changes hnd new old s =
     fold (\<lambda>i s.
       if new AND push_bit i 0x1 \<noteq> old AND push_bit i 0x1
       then (if old AND push_bit i 0x1 \<noteq> 0 then on_mouse_up hnd (of_nat (i + 1)) s
             else on_mouse_down hnd (of_nat (i + 1)) s)
       else s) [0..<3] s"

definition finish_packet :: "'s mouse_handler \<Rightarrow> mouse_driver \<times> 's \<Rightarrow> mouse_driver \<times> 's" where
  "finish_packet hnd st =
     (case st of (m, s) \<Rightarrow>
      let s = (if packet m ! 1 \<noteq> 0 \<or> packet m ! 2 \<noteq> 0
               then on_mouse_move hnd (sint (packet m ! 1)) (- sint (packet m ! 2)) s else s);
          s = button_changes hnd (packet m ! 0) (buttons m) s
      in (m\<lparr>buttons := packet m ! 0\<rparr>, s))"

definition mouse_HandleInterrupt ::
  "device \<Rightarrow> 's mouse_handler option \<Rightarrow> u32 \<Rightarrow> mouse_driver \<times> trace \<times> 's \<Rightarrow> u32 \<times> mouse_driver \<times> trace \<times> 's" where
  "mouse_HandleInterrupt dev handler esp st =
     (case st of (m, h, s) \<Rightarrow>
      case Port8Bit_Read dev 0x64 h of (status, h) \<Rightarrow>
      if status AND 0x20 = 0 then (esp, m, h, s)
      else
        (case Port8Bit_Read dev 0x60 h of (data, h) \<Rightarrow>
         let m = m\<lparr>packet := (packet m)[offset m := data]\<rparr> in
         case handler of None \<Rightarrow> (esp, m, h, s)
         | Some hnd \<Rightarrow>
             let m = m\<lparr>offset := (offset m + 1) mod 3\<rparr> in
             if offset m = 0 then (case finish_packet hnd (m, s) of (m, s) \<Rightarrow> (esp, m, h, s))
             else (esp, m, h, s)))"

subsection \<open>The list of drivers\<close>

text \<open>265 places and no check: a store beyond them is \<open>None\<close>.\<close>

record 'd driver_manager =
  drivers :: "'d list"
  numDrivers :: nat

definition DriverManager :: "'d list \<Rightarrow> 'd driver_manager" where
  "DriverManager places = \<lparr>drivers = places, numDrivers = 0\<rparr>"

definition AddDriver :: "'d \<Rightarrow> 'd driver_manager \<Rightarrow> 'd driver_manager option" where
  "AddDriver drv dm =
     (if numDrivers dm < length (drivers dm)
      then Some (dm\<lparr>drivers := (drivers dm)[numDrivers dm := drv], numDrivers := numDrivers dm + 1\<rparr>)
      else None)"

definition ActivateAll :: "('d \<Rightarrow> 's \<Rightarrow> 's) \<Rightarrow> 'd driver_manager \<Rightarrow> 's \<Rightarrow> 's" where
  "ActivateAll activate dm s = fold (\<lambda>i. activate (drivers dm ! i)) [0..<numDrivers dm] s"

end
