(* ===== verification/Kernel_Drivers_Properties.thy ===== *)
theory Kernel_Drivers_Properties
  imports Kernel_Drivers Kernel_Console_Properties
begin

text \<open>
  What the input drivers make of what the devices send: keys become the characters typed, packets
  become moves and button events, and the mouse cursor of the console leaves the text intact.
  Hypotheses about a device say which bytes it delivers next, and nothing else.
\<close>

unbundle bit_operations_syntax

lemma byte_through [simp]: "ucast (ucast (b :: byte) :: u32) = b"
  by (rule bit_word_eqI) (auto simp: bit_simps)

subsection \<open>Typing\<close>

definition typable :: "char set" where
  "typable = snd ` set key_table"

definition scan_code :: "char \<Rightarrow> byte" where
  "scan_code c = the (map_of (map (\<lambda>(k, c). (c, k)) key_table) c)"

text \<open>A key goes down and up again: the make code and the break code.\<close>

definition key_strokes :: "string \<Rightarrow> bytes" where
  "key_strokes cs = concat (map (\<lambda>c. [scan_code c, scan_code c OR 0x80]) cs)"

fun delivers_keys :: "device \<Rightarrow> trace \<Rightarrow> bytes \<Rightarrow> bool" where
  "delivers_keys dev h [] = True"
| "delivers_keys dev h (k # ks) =
     (ucast (dev (h @ [In8 0x60])) = k \<and> delivers_keys dev (h @ [In8 0x60]) ks)"

definition key_interrupts ::
  "device \<Rightarrow> 's key_handler option \<Rightarrow> nat \<Rightarrow> trace \<times> console \<times> 's \<Rightarrow> trace \<times> console \<times> 's" where
  "key_interrupts dev handler n = (\<lambda>st. snd (keyboard_HandleInterrupt dev handler 0 st)) ^^ n"

lemma table_codes:
  "\<forall>c \<in> typable. map_of key_table (scan_code c) = Some c \<and> scan_code c < 0x80 \<and>
     \<not> (scan_code c OR 0x80) < 0x80 \<and> c \<noteq> CHR 0x00"
  unfolding typable_def by code_simp

lemma key_interrupts_Suc:
  "key_interrupts dev handler (Suc n) st =
     key_interrupts dev handler n (snd (keyboard_HandleInterrupt dev handler 0 st))"
  by (simp add: key_interrupts_def funpow_Suc_right del: funpow.simps)

lemma key_pressed:
  assumes "c \<in> typable" and "ucast (dev (h @ [In8 0x60])) = scan_code c"
  shows "keyboard_HandleInterrupt dev (Some hnd) esp (h, con, s) = (esp, h @ [In8 0x60], on_key_down hnd c (con, s))"
  using assms table_codes by (simp add: keyboard_HandleInterrupt_def Port8Bit_Read_def)

lemma key_released:
  assumes "c \<in> typable" and "ucast (dev (h @ [In8 0x60])) = scan_code c OR 0x80"
  shows "keyboard_HandleInterrupt dev (Some hnd) esp (h, con, s) = (esp, h @ [In8 0x60], con, s)"
  using assms table_codes by (simp add: keyboard_HandleInterrupt_def Port8Bit_Read_def)

lemma typed_text:
  assumes "set cs \<subseteq> typable" and "delivers_keys dev h (key_strokes cs)"
  shows "fst (snd (key_interrupts dev (Some PrintfKeyboardEventHandler) (length (key_strokes cs)) (h, con, u))) =
    fold put_char cs con"
  using assms
proof (induction cs arbitrary: h con u)
  case Nil
  then show ?case by (simp add: key_strokes_def key_interrupts_def)
next
  case (Cons c cs)
  have c: "c \<in> typable" "ucast (dev (h @ [In8 0x60])) = scan_code c"
    "ucast (dev ((h @ [In8 0x60]) @ [In8 0x60])) = scan_code c OR 0x80"
    and rest: "delivers_keys dev (h @ [In8 0x60, In8 0x60]) (key_strokes cs)"
    using Cons.prems by (auto simp: key_strokes_def)
  have "on_key_down PrintfKeyboardEventHandler c (con, u) = (put_char c con, u)"
    using c(1) table_codes
    by (simp add: PrintfKeyboardEventHandler_def OnKeyDown_def printf_def c_str_def)
  with key_pressed [of c dev h PrintfKeyboardEventHandler]
    key_released [of c dev "h @ [In8 0x60]" PrintfKeyboardEventHandler] c Cons.IH [OF _ rest] Cons.prems(1)
  show ?case by (simp add: key_strokes_def key_interrupts_Suc)
qed

text \<open>
  Typing a text of the supported characters, every key pressed and released, leaves the console as
  printing that text does.
\<close>

theorem keyboard_types:
  assumes "set cs \<subseteq> typable" and "delivers_keys dev h (key_strokes cs)"
  shows "fst (snd (key_interrupts dev (Some PrintfKeyboardEventHandler) (length (key_strokes cs)) (h, con, ()))) =
    printf cs con"
proof -
  have "nul_free cs" using assms(1) table_codes by (auto simp: nul_free_def)
  then show ?thesis using typed_text [OF assms] by (simp add: printed_chars)
qed

definition keyboard_sending :: "bytes \<Rightarrow> device" where
  "keyboard_sending ks h = ucast (ks ! (length h - 1))"

theorem keyboard_types_witness:
  "fst (snd (key_interrupts (keyboard_sending (key_strokes ''ok'')) (Some PrintfKeyboardEventHandler) 4
     ([], blank_screen, ()))) = printf ''ok'' blank_screen"
proof -
  have s: "set ''ok'' \<subseteq> typable" unfolding typable_def by code_simp
  have l: "length (key_strokes ''ok'') = 4" by (simp add: key_strokes_def)
  have "delivers_keys (keyboard_sending (key_strokes ''ok'')) [] (key_strokes ''ok'')"
    by (simp add: key_strokes_def keyboard_sending_def)
  from keyboard_types [OF s this] show ?thesis unfolding l .
qed

subsection \<open>Mouse packets\<close>

datatype mouse_event = Moved int int | Pressed nat | Released nat

definition button_event :: "byte \<Rightarrow> byte \<Rightarrow> nat \<Rightarrow> mouse_event list" where
  "button_event new held i =
     (if bit new i = bit held i then [] else if bit held i then [Released (i + 1)] else [Pressed (i + 1)])"

text \<open>What a packet says, given the buttons held before it.\<close>

definition packet_events :: "byte \<Rightarrow> byte \<times> byte \<times> byte \<Rightarrow> mouse_event list" where
  "packet_events held p =
     (case p of (b, dx, dy) \<Rightarrow>
       (if dx \<noteq> 0 \<or> dy \<noteq> 0 then [Moved (sint dx) (- sint dy)] else []) @
       concat (map (button_event b held) [0..<3]))"

fun packets_events :: "byte \<Rightarrow> (byte \<times> byte \<times> byte) list \<Rightarrow> mouse_event list" where
  "packets_events held [] = []"
| "packets_events held (p # ps) = packet_events held p @ packets_events (fst p) ps"

fun on_event :: "'s mouse_handler \<Rightarrow> mouse_event \<Rightarrow> 's \<Rightarrow> 's" where
  "on_event hnd (Moved dx dy) = on_mouse_move hnd dx dy"
| "on_event hnd (Pressed i) = on_mouse_down hnd (of_nat i)"
| "on_event hnd (Released i) = on_mouse_up hnd (of_nat i)"

fun delivers_mouse :: "device \<Rightarrow> trace \<Rightarrow> bytes \<Rightarrow> bool" where
  "delivers_mouse dev h [] = True"
| "delivers_mouse dev h (b # bs) =
     ((ucast (dev (h @ [In8 0x64])) :: byte) AND 0x20 \<noteq> 0 \<and>
      ucast (dev (h @ [In8 0x64, In8 0x60])) = b \<and> delivers_mouse dev (h @ [In8 0x64, In8 0x60]) bs)"

definition mouse_interrupts ::
  "device \<Rightarrow> 's mouse_handler option \<Rightarrow> nat \<Rightarrow> mouse_driver \<times> trace \<times> 's \<Rightarrow> mouse_driver \<times> trace \<times> 's" where
  "mouse_interrupts dev handler n = (\<lambda>st. snd (mouse_HandleInterrupt dev handler 0 st)) ^^ n"

lemma mouse_interrupts_Suc:
  "mouse_interrupts dev handler (Suc n) st =
     mouse_interrupts dev handler n (snd (mouse_HandleInterrupt dev handler 0 st))"
  by (simp add: mouse_interrupts_def funpow_Suc_right del: funpow.simps)

lemma button_bit: "(v AND push_bit i 0x1 :: byte) = (if bit v i then push_bit i 1 else 0)"
  by (rule bit_word_eqI) (auto simp: bit_simps)

lemma button_mask: "i < 8 \<Longrightarrow> (push_bit i 1 :: byte) \<noteq> 0"
proof
  assume "i < 8" and "(push_bit i 1 :: byte) = 0"
  then have "bit (push_bit i 1 :: byte) i = bit (0 :: byte) i" by simp
  with \<open>i < 8\<close> show False by (simp add: bit_simps)
qed

lemma button_events:
  assumes "\<forall>i \<in> set is. i < 8"
  shows "fold (\<lambda>i s.
       if new AND push_bit i 0x1 \<noteq> held AND push_bit i 0x1
       then (if held AND push_bit i 0x1 \<noteq> 0 then on_mouse_up hnd (of_nat (i + 1)) s
             else on_mouse_down hnd (of_nat (i + 1)) s)
       else s) is s = fold (on_event hnd) (concat (map (button_event new held) is)) s"
  using assms
proof (induction "is" arbitrary: s)
  case (Cons i "is")
  then have "(push_bit i 1 :: byte) \<noteq> 0" by (intro button_mask) simp
  with Cons show ?case by (simp add: button_bit button_event_def del: push_bit_of_1)
qed simp

lemma button_changes_events:
  "button_changes hnd new held s = fold (on_event hnd) (concat (map (button_event new held) [0..<3])) s"
  unfolding button_changes_def by (rule button_events) simp

lemma finish_events:
  assumes "packet m = [b, dx, dy]"
  shows "finish_packet hnd (m, s) =
    (m\<lparr>buttons := b\<rparr>, fold (on_event hnd) (packet_events (buttons m) (b, dx, dy)) s)"
  using assms by (simp add: finish_packet_def packet_events_def button_changes_events)

lemma byte_received:
  assumes "(ucast (dev (h @ [In8 0x64])) :: byte) AND 0x20 \<noteq> 0"
    and "ucast (dev (h @ [In8 0x64, In8 0x60])) = b"
  shows "snd (mouse_HandleInterrupt dev (Some hnd) esp (m, h, s)) =
    (let m = m\<lparr>packet := (packet m)[offset m := b], offset := (offset m + 1) mod 3\<rparr> in
     if offset m = 0 then (case finish_packet hnd (m, s) of (m, s) \<Rightarrow> (m, h @ [In8 0x64, In8 0x60], s))
     else (m, h @ [In8 0x64, In8 0x60], s))"
  using assms by (simp add: mouse_HandleInterrupt_def Port8Bit_Read_def Let_def case_prod_beta)

lemma three_bytes:
  assumes "delivers_mouse dev h (b # dx # dy # bs)" and "length (packet m) = 3" and "offset m = 0"
  defines "h' \<equiv> h @ [In8 0x64, In8 0x60, In8 0x64, In8 0x60, In8 0x64, In8 0x60]"
  shows "mouse_interrupts dev (Some hnd) 3 (m, h, s) =
      (m\<lparr>packet := [b, dx, dy], offset := 0, buttons := b\<rparr>, h',
       fold (on_event hnd) (packet_events (buttons m) (b, dx, dy)) s)"
    and "delivers_mouse dev h' bs"
proof -
  obtain x y z where p: "packet m = [x, y, z]"
    using assms(2) by (auto simp: length_Suc_conv numeral_3_eq_3)
  have d: "(ucast (dev (h @ [In8 0x64])) :: byte) AND 0x20 \<noteq> 0" "ucast (dev (h @ [In8 0x64, In8 0x60])) = b"
    "(ucast (dev ((h @ [In8 0x64, In8 0x60]) @ [In8 0x64])) :: byte) AND 0x20 \<noteq> 0"
    "ucast (dev ((h @ [In8 0x64, In8 0x60]) @ [In8 0x64, In8 0x60])) = dx"
    "(ucast (dev ((h @ [In8 0x64, In8 0x60, In8 0x64, In8 0x60]) @ [In8 0x64])) :: byte) AND 0x20 \<noteq> 0"
    "ucast (dev ((h @ [In8 0x64, In8 0x60, In8 0x64, In8 0x60]) @ [In8 0x64, In8 0x60])) = dy"
    using assms(1) by simp_all
  have n: "3 = Suc (Suc (Suc 0))" by simp
  show "mouse_interrupts dev (Some hnd) 3 (m, h, s) =
      (m\<lparr>packet := [b, dx, dy], offset := 0, buttons := b\<rparr>, h',
       fold (on_event hnd) (packet_events (buttons m) (b, dx, dy)) s)"
    unfolding n mouse_interrupts_Suc
    by (simp add: byte_received [where hnd = hnd, OF d(1,2)] byte_received [where hnd = hnd, OF d(3,4), simplified]
        byte_received [where hnd = hnd, OF d(5,6), simplified] p assms(3) finish_events h'_def mouse_interrupts_def)
  show "delivers_mouse dev h' bs" using assms(1) by (simp add: h'_def)
qed

lemma mouse_interrupts_add:
  "mouse_interrupts dev handler (n + k) st = mouse_interrupts dev handler k (mouse_interrupts dev handler n st)"
  by (simp add: mouse_interrupts_def add.commute [of n] funpow_add)

definition packet_bytes :: "byte \<times> byte \<times> byte \<Rightarrow> bytes" where
  "packet_bytes p = (case p of (b, dx, dy) \<Rightarrow> [b, dx, dy])"

lemma packet_bytes_eq [simp]: "packet_bytes (b, dx, dy) = [b, dx, dy]"
  by (simp add: packet_bytes_def)

lemma packets_decoded:
  assumes "delivers_mouse dev h (concat (map packet_bytes ps))" and "length (packet m) = 3" and "offset m = 0"
  shows "\<exists>m' h'. mouse_interrupts dev (Some hnd) (3 * length ps) (m, h, s) =
      (m', h', fold (on_event hnd) (packets_events (buttons m) ps) s) \<and>
    offset m' = 0 \<and> buttons m' = last (buttons m # map fst ps)"
  using assms
proof (induction ps arbitrary: m h s)
  case (Cons p ps)
  obtain b dx dy where p: "p = (b, dx, dy)" by (cases p)
  let ?bs = "concat (map packet_bytes ps)"
  have d: "delivers_mouse dev h (b # dx # dy # ?bs)" using Cons.prems(1) by (simp add: p)
  note t = three_bytes [OF d Cons.prems(2,3)]
  have "3 * length (p # ps) = 3 + 3 * length ps" by simp
  with t(1) [of hnd s] Cons.IH [OF t(2), of "m\<lparr>packet := [b, dx, dy], offset := 0, buttons := b\<rparr>"]
  show ?case by (simp only: mouse_interrupts_add) (simp add: p)
qed (simp add: mouse_interrupts_def)

text \<open>C40. A mouse that is activated and then sends packets of three bytes calls the handler with the moves
  and the button changes these packets stand for, in that order, and leaves the driver at the start
  of a packet with the buttons of the last one.
\<close>

theorem mouse_decodes:
  assumes "mouse_Activate dev (Some hnd) (m, h0, s0) = (m1, h, s)" and "length (packet m) = 3"
    and "delivers_mouse dev h (concat (map packet_bytes ps))"
  shows "\<exists>m' h'. mouse_interrupts dev (Some hnd) (3 * length ps) (m1, h, s) =
      (m', h', fold (on_event hnd) (packets_events 0 ps) (on_activate hnd s0)) \<and>
    offset m' = 0 \<and> buttons m' = last (0 # map fst ps)"
proof -
  have "length (packet m1) = 3" "offset m1 = 0" "buttons m1 = 0" "s = on_activate hnd s0"
    using assms(1,2) by (auto simp: mouse_Activate_def Let_def case_prod_beta)
  with packets_decoded [OF assms(3), of m1 hnd s] show ?thesis by simp
qed

text \<open>A mouse whose data port gives the bytes \<open>bs\<close> in turn once it has been activated.\<close>

definition mouse_sending :: "bytes \<Rightarrow> device" where
  "mouse_sending bs h = (if last h = In8 0x64 then 0x20 else ucast (bs ! ((length h - 10) div 2)))"

definition event_log :: "mouse_event list mouse_handler" where
  "event_log =
     \<lparr>on_activate = id, on_mouse_down = \<lambda>b es. es @ [Pressed (unat b)],
      on_mouse_up = \<lambda>b es. es @ [Released (unat b)], on_mouse_move = \<lambda>dx dy es. es @ [Moved dx dy]\<rparr>"

theorem mouse_decodes_witness:
  "\<exists>m' h'. mouse_interrupts (mouse_sending [9, 5, 0xFE, 8, 0, 0]) (Some event_log) 6
       (mouse_Activate (mouse_sending [9, 5, 0xFE, 8, 0, 0]) (Some event_log)
          (\<lparr>packet = [0, 0, 0], offset = 0, buttons = 0\<rparr>, [], [])) =
     (m', h', [Moved 5 2, Pressed 1, Released 1])"
proof -
  let ?dev = "mouse_sending [9, 5, 0xFE, 8, 0, 0]"
  let ?m = "\<lparr>packet = [0, 0, 0], offset = 0, buttons = 0\<rparr>"
  let ?ps = "[(9, 5, 0xFE), (8, 0, 0)] :: (byte \<times> byte \<times> byte) list"
  obtain m1 h s where a: "mouse_Activate ?dev (Some event_log) (?m, [], []) = (m1, h, s)"
    by (cases "mouse_Activate ?dev (Some event_log) (?m, [], [])") auto
  then have "length h = 8" by (auto simp: mouse_Activate_def Let_def case_prod_beta port_defs)
  then have d: "delivers_mouse ?dev h (concat (map packet_bytes ?ps))"
    by (simp add: mouse_sending_def)
  have "fold (on_event event_log) (packets_events 0 ?ps) (on_activate event_log []) = [Moved 5 2, Pressed 1, Released 1]"
    unfolding event_log_def by code_simp
  with mouse_decodes [OF a _ d] show ?thesis by (auto simp: a)
qed

lemma console_handler:
  "on_mouse_move MouseToConsole_handler = OnMouseMove"
  "button_changes MouseToConsole_handler new held s = s"
  by (simp_all add: MouseToConsole_handler_def MouseEventHandler_def button_changes_def fold_same)

lemma mouse_interrupt_screen:
  assumes "mouse_inv v s"
  shows "mouse_inv v (snd (snd (snd (mouse_HandleInterrupt dev (Some MouseToConsole_handler) esp (m, h, s)))))"
  using assms
  by (simp add: mouse_HandleInterrupt_def finish_packet_def console_handler mouse_move_inv Let_def case_prod_beta)

lemma mouse_interrupts_screen:
  "mouse_inv v (snd (snd st)) \<Longrightarrow> mouse_inv v (snd (snd (mouse_interrupts dev (Some MouseToConsole_handler) n st)))"
proof (induction n arbitrary: st)
  case (Suc n)
  obtain m h s where "st = (m, h, s)" by (cases st)
  with Suc.IH [OF mouse_interrupt_screen [where v = v and s = s and m = m and h = h and esp = 0]] Suc.prems show ?case
    by (simp add: mouse_interrupts_Suc)
qed (simp add: mouse_interrupts_def)

text \<open>
  With the handler that moves the cursor of the console: whatever a mouse sends, complete packets or
  not, the cursor is one cell of the screen and every other cell is as it was.
\<close>

theorem mouse_keeps_screen:
  "\<exists>m' h' x y. mouse_interrupts dev (Some MouseToConsole_handler) n (m, h, MouseToConsole v) =
      (m', h', \<lparr>mouse_x = x, mouse_y = y\<rparr>, flip_cell x y v) \<and>
    0 \<le> x \<and> x < 80 \<and> 0 \<le> y \<and> y < 25"
proof -
  obtain m' h' c v' where r: "mouse_interrupts dev (Some MouseToConsole_handler) n (m, h, MouseToConsole v) = (m', h', c, v')"
    by (cases "mouse_interrupts dev (Some MouseToConsole_handler) n (m, h, MouseToConsole v)")
  have "mouse_inv v (MouseToConsole v)" by (simp add: mouse_inv_def MouseToConsole_def)
  with mouse_interrupts_screen [of v "(m, h, MouseToConsole v)" dev n] have "mouse_inv v (c, v')" by (simp add: r)
  then show ?thesis by (cases c) (simp add: r mouse_inv_def)
qed

subsection \<open>The keyboard controller and the list of drivers\<close>

text \<open>
  Once the controller has nothing left after \<open>n\<close> bytes, its command byte is written back with the
  interrupt on and the keyboard enabled.
\<close>

definition drained :: "nat \<Rightarrow> trace" where
  "drained n = concat (replicate n [In8 0x64, In8 0x60])"

lemma drained_Suc: "drained (Suc n) = [In8 0x64, In8 0x60] @ drained n"
  by (simp add: drained_def)

lemma drain_ends:
  assumes "\<And>i. i < n \<Longrightarrow> (ucast (dev (h @ drained i @ [In8 0x64])) :: byte) AND 1 \<noteq> 0"
    and "(ucast (dev (h @ drained n @ [In8 0x64])) :: byte) AND 1 = 0"
  shows "drain dev h = Some (h @ drained n @ [In8 0x64])"
  using assms
proof (induction n arbitrary: h)
  case 0
  then show ?case by (subst drain.simps) (simp add: drained_def Port8Bit_Read_def)
next
  case (Suc n)
  from Suc.prems(1) [of 0] have "(ucast (dev (h @ [In8 0x64])) :: byte) AND 1 \<noteq> 0" by (simp add: drained_def)
  moreover have "drain dev (h @ [In8 0x64, In8 0x60]) = Some ((h @ [In8 0x64, In8 0x60]) @ drained n @ [In8 0x64])"
    using Suc.prems(1) [of "Suc i" for i] Suc.prems(2) by (intro Suc.IH) (simp_all add: drained_Suc)
  ultimately show ?case by (subst drain.simps) (simp add: Port8Bit_Read_def drained_Suc)
qed

theorem keyboard_activates:
  assumes "\<And>i. i < n \<Longrightarrow> (ucast (dev (h @ drained i @ [In8 0x64])) :: byte) AND 1 \<noteq> 0"
    and "(ucast (dev (h @ drained n @ [In8 0x64])) :: byte) AND 1 = 0"
  shows "\<exists>status. keyboard_Activate dev h =
      Some (h @ drained n @ [In8 0x64, Out8 0x64 0xae, Out8 0x64 0x20, In8 0x60, Out8 0x64 0x60,
        Out8 0x60 status, Out8 0x60 0xf4]) \<and> bit status 0 \<and> \<not> bit status 4"
  using drain_ends [of n dev h, OF assms]
  by (simp add: keyboard_Activate_def Let_def port_defs) (simp add: bit_simps)

fun add_all :: "'d list \<Rightarrow> 'd driver_manager \<Rightarrow> 'd driver_manager option" where
  "add_all [] dm = Some dm"
| "add_all (d # ds) dm = (case AddDriver d dm of None \<Rightarrow> None | Some dm \<Rightarrow> add_all ds dm)"

lemma add_all_drivers:
  assumes "numDrivers dm + length ds \<le> length (drivers dm)"
  shows "\<exists>dm'. add_all ds dm = Some dm' \<and> numDrivers dm' = numDrivers dm + length ds \<and>
    length (drivers dm') = length (drivers dm) \<and>
    take (numDrivers dm') (drivers dm') = take (numDrivers dm) (drivers dm) @ ds"
  using assms
proof (induction ds arbitrary: dm)
  case (Cons d ds)
  define dm1 where "dm1 = dm\<lparr>drivers := (drivers dm)[numDrivers dm := d], numDrivers := numDrivers dm + 1\<rparr>"
  then have "AddDriver d dm = Some dm1" using Cons.prems by (simp add: AddDriver_def)
  moreover have "take (numDrivers dm1) (drivers dm1) = take (numDrivers dm) (drivers dm) @ [d]"
    using Cons.prems by (simp add: dm1_def take_Suc_conv_app_nth)
  moreover have "numDrivers dm1 + length ds \<le> length (drivers dm1)" "numDrivers dm1 = numDrivers dm + 1"
    "length (drivers dm1) = length (drivers dm)"
    using Cons.prems by (simp_all add: dm1_def)
  ultimately show ?case using Cons.IH [of dm1] by simp
qed simp

theorem drivers_activated_in_order:
  assumes "length ds \<le> length places"
  shows "\<exists>dm. add_all ds (DriverManager places) = Some dm \<and> ActivateAll activate dm s = fold activate ds s"
proof -
  obtain dm where dm: "add_all ds (DriverManager places) = Some dm" "numDrivers dm = length ds"
    "take (length ds) (drivers dm) = ds" "length (drivers dm) = length places"
    using add_all_drivers [of "DriverManager places" ds] assms by (auto simp: DriverManager_def)
  have "map (\<lambda>i. drivers dm ! i) [0..<length ds] = take (length ds) (drivers dm)"
    using dm(4) assms by (intro nth_equalityI) simp_all
  then have "fold activate (map (\<lambda>i. drivers dm ! i) [0..<length ds]) s = fold activate ds s" using dm(3) by simp
  then show ?thesis using dm(1,2) by (auto simp: ActivateAll_def fold_map comp_def)
qed

end
