(* ===== verification/Kernel_Vga.thy ===== *)
theory Kernel_Vga
  imports Kernel_Ports
begin

text \<open>
  The graphics driver of the kernel (os01, \<open>vga.cpp\<close>): the register sequence that selects the
  320 x 200 mode, pixels and rectangles. Coordinates are 32-bit words, read as signed or unsigned
  where the code does so; memory is a map from addresses to bytes.
\<close>

unbundle bit_operations_syntax

type_synonym graphics = "(u32 \<Rightarrow> byte) \<times> trace"

lemma unat_next: "i < stop \<Longrightarrow> unat (i + 1) = unat i + 1" for i stop :: u32
proof -
  assume "i < stop"
  moreover have "unat stop < 2 ^ LENGTH(32)" by (rule unsigned_less)
  ultimately have "unat i + unat (1 :: u32) < 2 ^ LENGTH(32)" by (simp add: word_less_nat_alt)
  then show ?thesis using unat_add_lem [of i "1 :: u32"] by simp
qed

lemma word_loop_measure: "i < stop \<Longrightarrow> unat (stop - (i + 1)) < unat (stop - i)" for i stop :: u32
proof -
  assume i: "i < stop"
  then have "i + 1 \<le> stop" "i \<le> stop" by (simp_all add: word_le_nat_alt unat_next word_less_nat_alt)
  then show ?thesis using i by (simp add: unat_sub unat_next word_less_nat_alt)
qed

text \<open>The loop \<open>for(int32_t i = start; i < stop; i++)\<close> with an unsigned \<open>stop\<close>.\<close>

function word_loop :: "(u32 \<Rightarrow> 's \<Rightarrow> 's) \<Rightarrow> u32 \<Rightarrow> u32 \<Rightarrow> 's \<Rightarrow> 's" where
  "word_loop f i stop s = (if i < stop then word_loop f (i + 1) stop (f i s) else s)"
  by auto
termination by (relation "measure (\<lambda>(f, i, stop, s). unat (stop - i))") (simp_all add: word_loop_measure)

definition write_indexed :: "port \<Rightarrow> port \<Rightarrow> nat \<Rightarrow> byte \<Rightarrow> trace \<Rightarrow> trace" where
  "write_indexed index_port data_port i v h = Port8Bit_Write data_port v (Port8Bit_Write index_port (of_nat i) h)"

definition WriteRegisters :: "device \<Rightarrow> bytes \<Rightarrow> trace \<Rightarrow> trace" where
  "WriteRegisters dev registers h =
     (let h = Port8Bit_Write 0x3c2 (registers ! 0) h;
          h = fold (\<lambda>i. write_indexed 0x3c4 0x3c5 i (registers ! (1 + i))) [0..<5] h;
          h = Port8Bit_Write 0x3d4 0x03 h;
          (r, h) = Port8Bit_Read dev 0x3d5 h;
          h = Port8Bit_Write 0x3d5 (r OR 0x80) h;
          h = Port8Bit_Write 0x3d4 0x11 h;
          (r, h) = Port8Bit_Read dev 0x3d5 h;
          h = Port8Bit_Write 0x3d5 (r AND NOT 0x80) h;
          registers = registers[6 + 0x03 := registers ! (6 + 0x03) OR 0x80];
          registers = registers[6 + 0x11 := registers ! (6 + 0x11) AND NOT 0x80];
          h = fold (\<lambda>i. write_indexed 0x3d4 0x3d5 i (registers ! (6 + i))) [0..<25] h;
          h = fold (\<lambda>i. write_indexed 0x3ce 0x3cf i (registers ! (31 + i))) [0..<9] h;
          h = fold (\<lambda>i h. write_indexed 0x3c0 0x3c0 i (registers ! (40 + i)) (snd (Port8Bit_Read dev 0x3da h)))
                [0..<21] h;
          (_, h) = Port8Bit_Read dev 0x3da h
      in Port8Bit_Write 0x3c0 0x20 h)"

definition SupportsMode :: "u32 \<Rightarrow> u32 \<Rightarrow> u32 \<Rightarrow> bool" where
  "SupportsMode width height colordepth = (width = 320 \<and> height = 200 \<and> colordepth = 8)"

definition g_320x200x256 :: bytes where
  "g_320x200x256 =
     [0x63,
      0x03, 0x01, 0x0F, 0x00, 0x0E,
      0x5F, 0x4F, 0x50, 0x82, 0x54, 0x80, 0xBF, 0x1F,
      0x00, 0x41, 0x00, 0x00, 0x00, 0x00, 0x00, 0x00,
      0x9C, 0x0E, 0x8F, 0x28, 0x40, 0x96, 0xB9, 0xA3,
      0xFF,
      0x00, 0x00, 0x00, 0x00, 0x00, 0x40, 0x05, 0x0F,
      0xFF,
      0x00, 0x01, 0x02, 0x03, 0x04, 0x05, 0x06, 0x07,
      0x08, 0x09, 0x0A, 0x0B, 0x0C, 0x0D, 0x0E, 0x0F,
      0x41, 0x00, 0x0F, 0x00, 0x00]"

definition SetMode :: "device \<Rightarrow> u32 \<Rightarrow> u32 \<Rightarrow> u32 \<Rightarrow> trace \<Rightarrow> bool \<times> trace" where
  "SetMode dev width height colordepth h =
     (if \<not> SupportsMode width height colordepth then (False, h)
      else (True, WriteRegisters dev g_320x200x256 h))"

definition GetFrameBufferSegment :: "device \<Rightarrow> trace \<Rightarrow> u32 \<times> trace" where
  "GetFrameBufferSegment dev h =
     (let h = Port8Bit_Write 0x3ce 0x06 h;
          (r, h) = Port8Bit_Read dev 0x3cf h;
          segmentNumber = r AND push_bit 2 3
      in (if segmentNumber = push_bit 2 1 then 0xA0000
          else if segmentNumber = push_bit 2 2 then 0xB0000
          else if segmentNumber = push_bit 2 3 then 0xB8000
          else 0, h))"

definition PutPixelIndex :: "device \<Rightarrow> u32 \<Rightarrow> u32 \<Rightarrow> byte \<Rightarrow> graphics \<Rightarrow> graphics" where
  "PutPixelIndex dev x y colorIndex g =
     (if sint x < 0 \<or> 320 \<le> sint x \<or> sint y < 0 \<or> 200 \<le> sint y then g
      else (case GetFrameBufferSegment dev (snd g) of (segment, h) \<Rightarrow>
        ((fst g)(segment + 320 * y + x := colorIndex), h)))"

definition GetColorIndex :: "byte \<Rightarrow> byte \<Rightarrow> byte \<Rightarrow> byte" where
  "GetColorIndex r g b =
     (if r = 0x00 \<and> g = 0x00 \<and> b = 0x00 then 0x00
      else if r = 0x00 \<and> g = 0x00 \<and> b = 0xA8 then 0x01
      else if r = 0x00 \<and> g = 0xA8 \<and> b = 0x00 then 0x02
      else if r = 0xA8 \<and> g = 0x00 \<and> b = 0x00 then 0x04
      else if r = 0xFF \<and> g = 0xFF \<and> b = 0xFF then 0x3F
      else 0x00)"

definition PutPixel :: "device \<Rightarrow> u32 \<Rightarrow> u32 \<Rightarrow> byte \<Rightarrow> byte \<Rightarrow> byte \<Rightarrow> graphics \<Rightarrow> graphics" where
  "PutPixel dev x y r g b = PutPixelIndex dev x y (GetColorIndex r g b)"

definition FillRectangle ::
  "device \<Rightarrow> u32 \<Rightarrow> u32 \<Rightarrow> u32 \<Rightarrow> u32 \<Rightarrow> byte \<Rightarrow> byte \<Rightarrow> byte \<Rightarrow> graphics \<Rightarrow> graphics" where
  "FillRectangle dev x y w h r g b =
     word_loop (\<lambda>Y. word_loop (\<lambda>X. PutPixel dev X Y r g b) x (x + w)) y (y + h)"

end
