(* ===== verification/Kernel_Gui.thy ===== *)
theory Kernel_Gui
  imports Kernel_Vga "HOL-Library.Signed_Division"
begin

text \<open>
  The windows of the kernel (os01, \<open>widget.cpp\<close>, \<open>window.cpp\<close>, \<open>desktop.cpp\<close>): widgets that know their
  parent and composites that know their children, so a graph of pointers. Calls follow the pointers,
  which need not end: a call that does not return is \<open>None\<close>. A virtual call is a case distinction on
  the class of the object. Coordinates are integers: an overflow of \<open>int32_t\<close> is undefined in C++
  and the moves of a mouse stay far from it.
\<close>

type_synonym ptr = nat

datatype widget_class = PlainWidget | CompositeWidget | Window | Desktop

record widget =
  widget_class :: widget_class
  parent :: ptr
  wx :: int
  wy :: int
  ww :: int
  wh :: int
  colour :: "byte \<times> byte \<times> byte"
  Focussable :: bool
  children :: "ptr list"
  focussedChild :: ptr
  Dragging :: bool

type_synonym gui = "ptr \<Rightarrow> widget"

text \<open>The null pointer, and the constructors: the class decides which members there are.\<close>

abbreviation null :: ptr where "null \<equiv> 0"

definition Widget :: "widget_class \<Rightarrow> ptr \<Rightarrow> int \<Rightarrow> int \<Rightarrow> int \<Rightarrow> int \<Rightarrow> byte \<times> byte \<times> byte \<Rightarrow> widget" where
  "Widget c par x y w h rgb =
     \<lparr>widget_class = c, parent = par, wx = x, wy = y, ww = w, wh = h, colour = rgb, Focussable = True,
      children = [], focussedChild = null, Dragging = False\<rparr>"

definition AddChild :: "ptr \<Rightarrow> ptr \<Rightarrow> gui \<Rightarrow> bool \<times> gui" where
  "AddChild this child s =
     (if 100 \<le> length (children (s this)) then (False, s)
      else (True, s(this := (s this)\<lparr>children := children (s this) @ [child]\<rparr>)))"

subsection \<open>Widgets and composites\<close>

partial_function (option) GetFocus :: "ptr \<Rightarrow> ptr \<Rightarrow> gui \<Rightarrow> gui option" where
  [code]: "GetFocus this w s =
     (if widget_class (s this) = PlainWidget
      then (if parent (s this) \<noteq> null then GetFocus (parent (s this)) w s else Some s)
      else (let s' = s(this := (s this)\<lparr>focussedChild := w\<rparr>) in
        if parent (s this) \<noteq> null then GetFocus (parent (s this)) this s' else Some s'))"

partial_function (option) ModelToScreen :: "ptr \<Rightarrow> int \<times> int \<Rightarrow> gui \<Rightarrow> (int \<times> int) option" where
  [code]: "ModelToScreen this p s =
     Option.bind (if parent (s this) \<noteq> null then ModelToScreen (parent (s this)) p s else Some p)
       (\<lambda>(x, y). Some (x + wx (s this), y + wy (s this)))"

definition ContainsCoordinate :: "widget \<Rightarrow> int \<Rightarrow> int \<Rightarrow> bool" where
  "ContainsCoordinate w x y = (wx w \<le> x \<and> x < wx w + ww w \<and> wy w \<le> y \<and> y < wy w + wh w)"

text \<open>The child the loops over \<open>children\<close> stop at.\<close>

definition child_at :: "gui \<Rightarrow> ptr \<Rightarrow> int \<Rightarrow> int \<Rightarrow> ptr option" where
  "child_at s this x y =
     find (\<lambda>c. ContainsCoordinate (s c) (x - wx (s this)) (y - wy (s this))) (children (s this))"

text \<open>\<open>Widget::Draw\<close>, and \<open>CompositeWidget::Draw\<close> for a list of widgets.\<close>

definition draw_self :: "device \<Rightarrow> gui \<Rightarrow> ptr \<Rightarrow> graphics \<Rightarrow> graphics option" where
  "draw_self dev s this gc =
     (case ModelToScreen this (0, 0) s of None \<Rightarrow> None
      | Some (X, Y) \<Rightarrow>
          (case colour (s this) of (r, g, b) \<Rightarrow>
            Some (FillRectangle dev (word_of_int X) (word_of_int Y) (word_of_int (ww (s this)))
              (word_of_int (wh (s this))) r g b gc)))"

partial_function (option) Draw :: "device \<Rightarrow> gui \<Rightarrow> ptr list \<Rightarrow> graphics \<Rightarrow> graphics option" where
  [code]: "Draw dev s ws gc =
     (case ws of [] \<Rightarrow> Some gc
      | this # ws \<Rightarrow>
          Option.bind (draw_self dev s this gc)
            (\<lambda>gc. Option.bind (Draw dev s (rev (children (s this))) gc) (Draw dev s ws)))"

partial_function (option) OnMouseDown :: "ptr \<Rightarrow> int \<Rightarrow> int \<Rightarrow> byte \<Rightarrow> gui \<Rightarrow> gui option" where
  [code]: "OnMouseDown this x y button s =
     (if widget_class (s this) = PlainWidget
      then (if Focussable (s this) then GetFocus this this s else Some s)
      else (let s = (if widget_class (s this) = Window then s(this := (s this)\<lparr>Dragging := button = 1\<rparr>) else s) in
        case child_at s this x y of None \<Rightarrow> Some s
        | Some c \<Rightarrow> OnMouseDown c (x - wx (s this)) (y - wy (s this)) button s))"

partial_function (option) OnMouseUp :: "ptr \<Rightarrow> int \<Rightarrow> int \<Rightarrow> byte \<Rightarrow> gui \<Rightarrow> gui option" where
  [code]: "OnMouseUp this x y button s =
     (if widget_class (s this) = PlainWidget then Some s
      else (let s = (if widget_class (s this) = Window then s(this := (s this)\<lparr>Dragging := False\<rparr>) else s) in
        case child_at s this x y of None \<Rightarrow> Some s
        | Some c \<Rightarrow> OnMouseUp c (x - wx (s this)) (y - wy (s this)) button s))"

definition drag :: "ptr \<Rightarrow> int \<Rightarrow> int \<Rightarrow> gui \<Rightarrow> gui" where
  "drag this dx dy s =
     (if widget_class (s this) = Window \<and> Dragging (s this)
      then s(this := (s this)\<lparr>wx := wx (s this) + dx, wy := wy (s this) + dy\<rparr>) else s)"

text \<open>
  The offsets are taken from \<open>this\<close> at each use, but nothing below a widget moves it: the second
  loop sees the same \<open>this->x\<close> and \<open>this->y\<close>.
\<close>

partial_function (option) OnMouseMove :: "ptr \<Rightarrow> int \<Rightarrow> int \<Rightarrow> int \<Rightarrow> int \<Rightarrow> gui \<Rightarrow> gui option" where
  [code]: "OnMouseMove this oldx oldy newx newy s =
     (if widget_class (s this) = PlainWidget then Some s
      else (let s = drag this (newx - oldx) (newy - oldy) s in
        Option.bind
          (case child_at s this oldx oldy of None \<Rightarrow> Some s
           | Some c \<Rightarrow> OnMouseMove c (oldx - wx (s this)) (oldy - wy (s this))
               (newx - wx (s this)) (newy - wy (s this)) s)
          (\<lambda>s'.
            case child_at s' this newx newy of None \<Rightarrow> Some s'
             | Some c \<Rightarrow>
                 if child_at s this oldx oldy = Some c then Some s'
                 else OnMouseMove c (oldx - wx (s' this)) (oldy - wy (s' this))
                   (newx - wx (s' this)) (newy - wy (s' this)) s')))"

text \<open>
  Keys go down the chain of focussed children; no widget does anything with them, so the result is
  the widget whose inherited handler is called at the end, if any. \<open>OnKeyUp\<close> is the same code.
\<close>

partial_function (option) OnKeyDown :: "ptr \<Rightarrow> gui \<Rightarrow> ptr option option" where
  [code]: "OnKeyDown this s =
     (if widget_class (s this) = PlainWidget then Some (Some this)
      else if focussedChild (s this) \<noteq> null then OnKeyDown (focussedChild (s this)) s
      else Some None)"

subsection \<open>The desktop\<close>

record desktop =
  root :: ptr
  MouseX :: int
  MouseY :: int
  widgets :: gui

definition new_desktop :: "ptr \<Rightarrow> int \<Rightarrow> int \<Rightarrow> byte \<times> byte \<times> byte \<Rightarrow> gui \<Rightarrow> desktop" where
  "new_desktop p w h rgb s =
     \<lparr>root = p, MouseX = w sdiv 2, MouseY = h sdiv 2, widgets = s(p := Widget Desktop null 0 0 w h rgb)\<rparr>"

definition draw_cross :: "device \<Rightarrow> int \<Rightarrow> int \<Rightarrow> graphics \<Rightarrow> graphics" where
  "draw_cross dev mx my gc =
     fold (\<lambda>i gc.
       PutPixel dev (word_of_int mx) (word_of_int (my + i)) 0xFF 0xFF 0xFF
        (PutPixel dev (word_of_int mx) (word_of_int (my - i)) 0xFF 0xFF 0xFF
        (PutPixel dev (word_of_int (mx + i)) (word_of_int my) 0xFF 0xFF 0xFF
        (PutPixel dev (word_of_int (mx - i)) (word_of_int my) 0xFF 0xFF 0xFF gc)))) [0..3] gc"

definition Desktop_Draw :: "device \<Rightarrow> desktop \<Rightarrow> graphics \<Rightarrow> graphics option" where
  "Desktop_Draw dev d gc =
     map_option (draw_cross dev (MouseX d) (MouseY d)) (Draw dev (widgets d) [root d] gc)"

definition Desktop_OnMouseDown :: "byte \<Rightarrow> desktop \<Rightarrow> desktop option" where
  "Desktop_OnMouseDown button d =
     map_option (\<lambda>s. d\<lparr>widgets := s\<rparr>) (OnMouseDown (root d) (MouseX d) (MouseY d) button (widgets d))"

definition Desktop_OnMouseUp :: "byte \<Rightarrow> desktop \<Rightarrow> desktop option" where
  "Desktop_OnMouseUp button d =
     map_option (\<lambda>s. d\<lparr>widgets := s\<rparr>) (OnMouseUp (root d) (MouseX d) (MouseY d) button (widgets d))"

definition clamp :: "int \<Rightarrow> int \<Rightarrow> int" where
  "clamp limit p = (let p = (if p < 0 then 0 else p) in if limit \<le> p then limit - 1 else p)"

definition Desktop_OnMouseMove :: "int \<Rightarrow> int \<Rightarrow> desktop \<Rightarrow> desktop option" where
  "Desktop_OnMouseMove x y d =
     (let newMouseX = clamp (ww (widgets d (root d))) (MouseX d + x sdiv 4);
          newMouseY = clamp (wh (widgets d (root d))) (MouseY d + y sdiv 4)
      in map_option (\<lambda>s. d\<lparr>widgets := s, MouseX := newMouseX, MouseY := newMouseY\<rparr>)
           (OnMouseMove (root d) (MouseX d) (MouseY d) newMouseX newMouseY (widgets d)))"

end
