(* ===== verification/Kernel_Gui_Properties.thy ===== *)
theory Kernel_Gui_Properties
  imports Kernel_Gui
begin

text \<open>
  The widgets stay a well-formed tree under every mouse event, and every event returns; a click on
  a widget gives it the keyboard; a window that is dragged follows the mouse.
\<close>

subsection \<open>Well-formed trees of widgets\<close>

text \<open>
  The parent of a child is the composite that holds it, the focussed child is a child, and depths
  grow from parent to child up to a bound.
\<close>

definition linked :: "gui \<Rightarrow> ptr set \<Rightarrow> (ptr \<Rightarrow> nat) \<Rightarrow> nat \<Rightarrow> ptr \<Rightarrow> bool" where
  "linked s W d B w =
     (w \<noteq> null \<and> d w \<le> B \<and>
      (widget_class (s w) = PlainWidget \<longrightarrow> children (s w) = []) \<and>
      (\<forall>c \<in> set (children (s w)). c \<in> W \<and> parent (s c) = w \<and> d w < d c) \<and>
      (parent (s w) \<noteq> null \<longrightarrow> parent (s w) \<in> W \<and> w \<in> set (children (s (parent (s w))))) \<and>
      (focussedChild (s w) = null \<or> focussedChild (s w) \<in> set (children (s w))) \<and>
      length (children (s w)) \<le> 100)"

definition links :: "gui \<Rightarrow> ptr set \<Rightarrow> (ptr \<Rightarrow> nat) \<Rightarrow> nat \<Rightarrow> bool" where
  "links s W d B = (\<forall>w \<in> W. linked s W d B w)"

definition well_formed :: "gui \<Rightarrow> ptr set \<Rightarrow> bool" where
  "well_formed s W = (\<exists>d B. links s W d B)"

text \<open>What no event changes.\<close>

definition same_shape :: "gui \<Rightarrow> gui \<Rightarrow> bool" where
  "same_shape s t =
     (\<forall>w. widget_class (t w) = widget_class (s w) \<and> parent (t w) = parent (s w) \<and>
          children (t w) = children (s w) \<and> ww (t w) = ww (s w) \<and> wh (t w) = wh (s w) \<and>
          colour (t w) = colour (s w) \<and> Focussable (t w) = Focussable (s w))"

lemma same_shape_refl [simp]: "same_shape s s"
  by (simp add: same_shape_def)

lemma same_shape_trans: "same_shape s t \<Longrightarrow> same_shape t u \<Longrightarrow> same_shape s u"
  by (simp add: same_shape_def)

lemma same_shape_update [simp]:
  "same_shape s (s(w := (s w)\<lparr>Dragging := b\<rparr>))"
  "same_shape s (s(w := (s w)\<lparr>focussedChild := c\<rparr>))"
  "same_shape s (s(w := (s w)\<lparr>wx := x, wy := y\<rparr>))"
  by (simp_all add: same_shape_def)

lemma links_shape:
  assumes "links s W d B" and "same_shape s t"
    and "\<And>w. w \<in> W \<Longrightarrow> focussedChild (t w) = focussedChild (s w) \<or> focussedChild (t w) \<in> set (children (s w))"
  shows "links t W d B"
proof -
  have eqs: "widget_class (t w) = widget_class (s w)" "parent (t w) = parent (s w)"
    "children (t w) = children (s w)" for w
    using assms(2) by (simp_all add: same_shape_def)
  show ?thesis
    unfolding links_def
  proof
    fix w assume w: "w \<in> W"
    then have "linked s W d B w" using assms(1) by (simp add: links_def)
    then show "linked t W d B w" using assms(3) [OF w] by (auto simp: linked_def eqs)
  qed
qed

lemma linksD:
  assumes "links s W d B" and "w \<in> W"
  shows "d w \<le> B" and "c \<in> set (children (s w)) \<Longrightarrow> c \<in> W \<and> parent (s c) = w \<and> d w < d c \<and> c \<noteq> null"
    and "parent (s w) \<noteq> null \<Longrightarrow> parent (s w) \<in> W \<and> w \<in> set (children (s (parent (s w)))) \<and> d (parent (s w)) < d w"
    and "c \<in> set (children (s w)) \<Longrightarrow> widget_class (s w) \<noteq> PlainWidget"
proof -
  have all: "linked s W d B v" if "v \<in> W" for v using assms(1) that by (simp add: links_def)
  note w = all [OF assms(2)]
  have nn: "v \<noteq> null" if "v \<in> W" for v using all [OF that] unfolding linked_def by blast
  have down: "c \<in> W \<and> parent (s c) = v \<and> d v < d c" if "v \<in> W" "c \<in> set (children (s v))" for v c
    using all [OF that(1)] that(2) unfolding linked_def by blast
  show "d w \<le> B" using w unfolding linked_def by blast
  show "c \<in> W \<and> parent (s c) = w \<and> d w < d c \<and> c \<noteq> null" if "c \<in> set (children (s w))"
    using down [OF assms(2) that] nn by blast
  show "widget_class (s w) \<noteq> PlainWidget" if "c \<in> set (children (s w))"
    using w that by (auto simp: linked_def)
  show "parent (s w) \<in> W \<and> w \<in> set (children (s (parent (s w)))) \<and> d (parent (s w)) < d w"
    if "parent (s w) \<noteq> null"
  proof -
    have "parent (s w) \<in> W" "w \<in> set (children (s (parent (s w))))"
      using w that unfolding linked_def by blast+
    then show ?thesis using down by blast
  qed
qed

lemma child_at_child: "child_at s w x y = Some c \<Longrightarrow> c \<in> set (children (s w))"
  by (auto simp: child_at_def find_Some_iff)

subsection \<open>Focus\<close>

text \<open>The widget that keys reach when they follow the focussed children.\<close>

inductive focus_chain :: "gui \<Rightarrow> ptr \<Rightarrow> ptr \<Rightarrow> bool" for s where
  chain_end: "focus_chain s w w"
| chain_step: "widget_class (s w) \<noteq> PlainWidget \<Longrightarrow> focussedChild (s w) \<noteq> null \<Longrightarrow>
    focus_chain s (focussedChild (s w)) v \<Longrightarrow> focus_chain s w v"

inductive ancestor :: "gui \<Rightarrow> ptr \<Rightarrow> ptr \<Rightarrow> bool" for s where
  ancestor_self: "ancestor s w w"
| ancestor_parent: "parent (s w) \<noteq> null \<Longrightarrow> ancestor s (parent (s w)) a \<Longrightarrow> ancestor s w a"

lemma chain_one: "widget_class (s w) \<noteq> PlainWidget \<Longrightarrow> focussedChild (s w) = v \<Longrightarrow> v \<noteq> null \<Longrightarrow> focus_chain s w v"
  using chain_step [of s w v] chain_end [of s v] by simp

lemma chain_trans: "focus_chain s a b \<Longrightarrow> focus_chain s b c \<Longrightarrow> focus_chain s a c"
  by (induction rule: focus_chain.induct) (auto intro: focus_chain.intros)

lemma ancestor_shape: "ancestor s w a \<Longrightarrow> same_shape s t \<Longrightarrow> ancestor t w a"
proof (induction rule: ancestor.induct)
  case (ancestor_parent w a)
  then have "parent (t w) = parent (s w)" by (simp add: same_shape_def)
  with ancestor_parent show ?case using ancestor.ancestor_parent by metis
qed (rule ancestor_self)

lemma keys_follow: "focus_chain s w v \<Longrightarrow> widget_class (s v) = PlainWidget \<Longrightarrow> OnKeyDown w s = Some (Some v)"
proof (induction rule: focus_chain.induct)
  case (chain_end w)
  then show ?case by (subst OnKeyDown.simps) simp
next
  case (chain_step w v)
  then show ?case by (subst OnKeyDown.simps) simp
qed

lemma focus_up:
  assumes "links s W d B" and "p \<in> W" and "widget_class (s p) \<noteq> PlainWidget" and "v \<in> set (children (s p))"
  shows "\<exists>t. GetFocus p v s = Some t \<and> same_shape s t \<and> links t W d B \<and>
    (\<forall>w. d p < d w \<longrightarrow> t w = s w) \<and> (\<forall>w. t w = (s w)\<lparr>focussedChild := focussedChild (t w)\<rparr>) \<and>
    (\<forall>a. ancestor s p a \<longrightarrow> focus_chain t a v)"
  using assms
proof (induction "d p" arbitrary: p v s rule: less_induct)
  case less
  define s1 where "s1 = s(p := (s p)\<lparr>focussedChild := v\<rparr>)"
  have shape: "same_shape s s1" by (simp add: s1_def)
  have links1: "links s1 W d B"
    using less.prems(4) by (intro links_shape [OF less.prems(1) shape]) (simp add: s1_def)
  have v: "v \<noteq> null" "d p < d v" using linksD(2) [OF less.prems(1,2,4)] by auto
  show ?case
  proof (cases "parent (s p) = null")
    case True
    then have "GetFocus p v s = Some s1" using less.prems(3) by (subst GetFocus.simps) (simp add: s1_def)
    moreover have "focus_chain s1 a v" if "ancestor s p a" for a
      using that True v less.prems(3) chain_one [of s1 p v] by cases (auto simp: s1_def)
    ultimately show ?thesis using shape links1 by (auto simp: s1_def)
  next
    case False
    let ?q = "parent (s p)"
    have q: "?q \<in> W" "p \<in> set (children (s ?q))" "d ?q < d p" using linksD(3) [OF less.prems(1,2) False] by auto
    then have "?q \<noteq> p" by auto
    then have q1: "widget_class (s1 ?q) \<noteq> PlainWidget" "p \<in> set (children (s1 ?q))"
      using linksD(4) [OF less.prems(1) q(1,2)] q(2) by (simp_all add: s1_def)
    obtain t where t: "GetFocus ?q p s1 = Some t" "same_shape s1 t" "links t W d B"
      "\<And>w. d ?q < d w \<Longrightarrow> t w = s1 w" "\<And>w. t w = (s1 w)\<lparr>focussedChild := focussedChild (t w)\<rparr>"
      "\<And>a. ancestor s1 ?q a \<Longrightarrow> focus_chain t a p"
      using less.hyps [OF q(3) links1 q(1) q1] by blast
    have tp: "t p = s1 p" using t(4) q(3) by simp
    have "focus_chain t p v"
      using chain_one [of t p v] less.prems(3) v(1) by (simp add: tp s1_def)
    moreover have "focus_chain t a p" if "ancestor s p a" for a
      using that ancestor_shape [OF _ shape] t(6) chain_end [of t p] by cases auto
    ultimately have "focus_chain t a v" if "ancestor s p a" for a using that chain_trans by blast
    moreover have "GetFocus p v s = Some t"
      using less.prems(3) False t(1) by (subst GetFocus.simps) (simp add: s1_def Let_def)
    moreover have "t w = s w" if "d p < d w" for w using that t(4) [of w] q(3) by (auto simp: s1_def)
    moreover have "t w = (s w)\<lparr>focussedChild := focussedChild (t w)\<rparr>" for w
      using t(5) [of w] by (simp add: s1_def split: if_splits)
    ultimately show ?thesis using t(3) same_shape_trans [OF shape t(2)] by blast
  qed
qed

subsection \<open>Clicks\<close>

text \<open>The plain widget a click at a point reaches.\<close>

inductive hits :: "gui \<Rightarrow> ptr \<Rightarrow> int \<Rightarrow> int \<Rightarrow> ptr \<Rightarrow> bool" for s where
  hits_plain: "widget_class (s w) = PlainWidget \<Longrightarrow> hits s w x y w"
| hits_child: "widget_class (s w) \<noteq> PlainWidget \<Longrightarrow> child_at s w x y = Some c \<Longrightarrow>
    hits s c (x - wx (s w)) (y - wy (s w)) v \<Longrightarrow> hits s w x y v"

definition press :: "ptr \<Rightarrow> byte \<Rightarrow> gui \<Rightarrow> gui" where
  "press w button s =
     (if widget_class (s w) = Window then s(w := (s w)\<lparr>Dragging := button = 1\<rparr>) else s)"

lemma press_shape:
  "same_shape s (press w button s)" "wx (press w b s v) = wx (s v)" "wy (press w b s v) = wy (s v)"
  "focussedChild (press w b s v) = focussedChild (s v)"
  by (simp_all add: press_def)

lemma links_press: "links s W d B \<Longrightarrow> links (press w b s) W d B"
  by (rule links_shape [OF _ press_shape(1)]) (simp_all add: press_shape)

lemma child_at_same:
  assumes "same_shape s t" and "\<And>v. wx (t v) = wx (s v)" and "\<And>v. wy (t v) = wy (s v)"
  shows "child_at t = child_at s"
  using assms by (intro ext) (simp add: child_at_def ContainsCoordinate_def same_shape_def)

lemma hits_same:
  assumes "hits s w x y v" and "same_shape s t" and "\<And>v. wx (t v) = wx (s v)" and "\<And>v. wy (t v) = wy (s v)"
  shows "hits t w x y v"
  using assms(1)
proof (induction rule: hits.induct)
  case (hits_plain w x y)
  then show ?case using assms(2) by (intro hits.hits_plain) (simp add: same_shape_def)
next
  case (hits_child w x y c v)
  then show ?case using assms(2-4) child_at_same [OF assms(2-4)]
    by (intro hits.hits_child [of t w x y c]) (simp_all add: same_shape_def)
qed

lemma mouse_down_step:
  assumes "widget_class (s w) \<noteq> PlainWidget"
  shows "OnMouseDown w x y b s =
    (case child_at s w x y of None \<Rightarrow> Some (press w b s)
     | Some c \<Rightarrow> OnMouseDown c (x - wx (s w)) (y - wy (s w)) b (press w b s))"
  using assms child_at_same [where s = s and t = "press w b s", OF press_shape(1)]
  by (subst OnMouseDown.simps) (simp add: press_def [symmetric] press_shape Let_def split: option.split)

lemma down_returns:
  assumes "links s W d B" and "w \<in> W" and "widget_class (s w) = PlainWidget \<Longrightarrow> parent (s w) \<noteq> null"
  shows "\<exists>t. OnMouseDown w x y b s = Some t \<and> links t W d B \<and> same_shape s t \<and>
    (\<forall>v. wx (t v) = wx (s v) \<and> wy (t v) = wy (s v)) \<and>
    (\<forall>v a. hits s w x y v \<longrightarrow> Focussable (s v) \<longrightarrow> ancestor s w a \<longrightarrow> widget_class (s a) \<noteq> PlainWidget \<longrightarrow>
       focus_chain t a v)"
  using assms
proof (induction "B - d w" arbitrary: w x y s rule: less_induct)
  case less
  show ?case
  proof (cases "widget_class (s w) = PlainWidget")
    case True
    let ?q = "parent (s w)"
    have q: "?q \<in> W" "w \<in> set (children (s ?q))"
      using linksD(3) [OF less.prems(1,2) less.prems(3) [OF True]] by auto
    have only: "v = w" if "hits s w x y v" for v using that True by cases auto
    show ?thesis
    proof (cases "Focussable (s w)")
      case False
      then show ?thesis using True less.prems(1) only by (subst OnMouseDown.simps) auto
    next
      case focus: True
      have "GetFocus w w s = GetFocus ?q w s" using True less.prems(3) by (subst GetFocus.simps) simp
      moreover obtain t where t: "GetFocus ?q w s = Some t" "same_shape s t" "links t W d B"
        "\<And>v. t v = (s v)\<lparr>focussedChild := focussedChild (t v)\<rparr>"
        "\<And>a. ancestor s ?q a \<Longrightarrow> focus_chain t a w"
        using focus_up [OF less.prems(1) q(1) linksD(4) [OF less.prems(1) q] q(2)] by blast
      ultimately have "OnMouseDown w x y b s = Some t" using True focus by (subst OnMouseDown.simps) simp
      moreover have "wx (t v) = wx (s v) \<and> wy (t v) = wy (s v)" for v
        by (subst (1 2) t(4)) simp
      moreover have "focus_chain t a w" if "ancestor s w a" "widget_class (s a) \<noteq> PlainWidget" for a
        using that True t(5) by cases auto
      ultimately show ?thesis using t(2,3) only by blast
    qed
  next
    case False
    show ?thesis
    proof (cases "child_at s w x y")
      case None
      have "\<not> hits s w x y v" for v using False None by (auto elim: hits.cases)
      then show ?thesis using None mouse_down_step [where w = w and s = s, OF False] links_press [OF less.prems(1)]
        by (auto simp: press_shape)
    next
      case (Some c)
      let ?s = "press w b s"
      have c: "c \<in> W" "parent (s c) = w" "d w < d c" "w \<noteq> null"
        using linksD(2) [OF less.prems(1,2) child_at_child [OF Some]] less.prems(1,2)
        by (auto simp: links_def linked_def)
      have closer: "B - d c < B - d w" using c(3) linksD(1) [OF less.prems(1) c(1)] by simp
      have par: "parent (?s c) \<noteq> null" using c(2,4) press_shape(1) [of s w b] by (simp add: same_shape_def)
      obtain t where t: "OnMouseDown c (x - wx (s w)) (y - wy (s w)) b ?s = Some t" "links t W d B"
        "same_shape ?s t" "\<And>v. wx (t v) = wx (?s v) \<and> wy (t v) = wy (?s v)"
        "\<And>v a. hits ?s c (x - wx (s w)) (y - wy (s w)) v \<Longrightarrow> Focussable (?s v) \<Longrightarrow> ancestor ?s c a \<Longrightarrow>
           widget_class (?s a) \<noteq> PlainWidget \<Longrightarrow> focus_chain t a v"
        using less.hyps [OF closer links_press [OF less.prems(1)] c(1) par] by blast
      have "focus_chain t a v"
        if h: "hits s w x y v" "Focussable (s v)" "ancestor s w a" "widget_class (s a) \<noteq> PlainWidget" for v a
      proof (rule t(5))
        have "hits s c (x - wx (s w)) (y - wy (s w)) v" using h(1) False Some by (auto elim: hits.cases)
        then show "hits ?s c (x - wx (s w)) (y - wy (s w)) v" by (rule hits_same) (simp_all add: press_shape)
        have "ancestor s c a" using ancestor_parent [of s c a] c(2,4) h(3) by simp
        then show "ancestor ?s c a" by (rule ancestor_shape) (rule press_shape(1))
        show "Focussable (?s v)" "widget_class (?s a) \<noteq> PlainWidget"
          using h(2,4) press_shape(1) [of s w b] by (simp_all add: same_shape_def)
      qed
      then show ?thesis using t(1-4) Some mouse_down_step [where w = w and s = s, OF False] same_shape_trans [OF press_shape(1) t(3)]
        by (auto simp: press_shape)
    qed
  qed
qed

lemma up_returns:
  assumes "links s W d B" and "w \<in> W"
  shows "\<exists>t. OnMouseUp w x y b s = Some t \<and> links t W d B \<and> same_shape s t"
  using assms
proof (induction "B - d w" arbitrary: w x y s rule: less_induct)
  case less
  show ?case
  proof (cases "widget_class (s w) = PlainWidget")
    case True
    then show ?thesis using less.prems(1) by (subst OnMouseUp.simps) auto
  next
    case False
    define s1 where "s1 = (if widget_class (s w) = Window then s(w := (s w)\<lparr>Dragging := False\<rparr>) else s)"
    have shape: "same_shape s s1" by (simp add: s1_def)
    have links1: "links s1 W d B" by (rule links_shape [OF less.prems(1) shape]) (simp add: s1_def)
    have step: "OnMouseUp w x y b s =
        (case child_at s1 w x y of None \<Rightarrow> Some s1 | Some c \<Rightarrow> OnMouseUp c (x - wx (s1 w)) (y - wy (s1 w)) b s1)"
      using False by (subst OnMouseUp.simps) (simp only: s1_def Let_def if_False)
    show ?thesis
    proof (cases "child_at s1 w x y")
      case None
      then show ?thesis using step shape links1 by simp
    next
      case (Some c)
      then have "c \<in> W" "d w < d c" using linksD(2) [OF links1 less.prems(2) child_at_child [of s1 w x y]] by auto
      moreover from this have "B - d c < B - d w" using linksD(1) [OF links1, of c] by simp
      ultimately obtain t where "OnMouseUp c (x - wx (s1 w)) (y - wy (s1 w)) b s1 = Some t" "links t W d B" "same_shape s1 t"
        using less.hyps [OF _ links1] by blast
      then show ?thesis using step Some same_shape_trans [OF shape] by simp
    qed
  qed
qed

lemma drag_facts:
  "same_shape s (drag w dx dy s)" "focussedChild (drag w dx dy s v) = focussedChild (s v)"
  by (simp_all add: drag_def)

lemma links_drag: "links s W d B \<Longrightarrow> links (drag w dx dy s) W d B"
  by (rule links_shape [OF _ drag_facts(1)]) (simp_all add: drag_facts)

lemma move_step:
  fixes ox oy nx ny :: int
  assumes "widget_class (s w) \<noteq> PlainWidget"
  defines "s1 \<equiv> drag w (nx - ox) (ny - oy) s"
  shows "OnMouseMove w ox oy nx ny s =
    Option.bind
      (case child_at s1 w ox oy of None \<Rightarrow> Some s1
       | Some c \<Rightarrow> OnMouseMove c (ox - wx (s1 w)) (oy - wy (s1 w)) (nx - wx (s1 w)) (ny - wy (s1 w)) s1)
      (\<lambda>s'. case child_at s' w nx ny of None \<Rightarrow> Some s'
        | Some c \<Rightarrow> if child_at s1 w ox oy = Some c then Some s'
            else OnMouseMove c (ox - wx (s' w)) (oy - wy (s' w)) (nx - wx (s' w)) (ny - wy (s' w)) s')"
  using assms(1) unfolding s1_def by (subst OnMouseMove.simps) (simp add: Let_def)

lemma move_returns:
  assumes "links s W d B" and "w \<in> W"
  shows "\<exists>t. OnMouseMove w ox oy nx ny s = Some t \<and> links t W d B \<and> same_shape s t"
  using assms
proof (induction "B - d w" arbitrary: w ox oy nx ny s rule: less_induct)
  case less
  show ?case
  proof (cases "widget_class (s w) = PlainWidget")
    case True
    then show ?thesis using less.prems(1) by (subst OnMouseMove.simps) auto
  next
    case False
    define s1 where "s1 = drag w (nx - ox) (ny - oy) s"
    have s1: "same_shape s s1" "links s1 W d B"
      using drag_facts(1) links_drag [OF less.prems(1)] by (auto simp: s1_def)
    have into: "\<exists>t. OnMouseMove c p q p' q' u = Some t \<and> links t W d B \<and> same_shape u t"
      if "links u W d B" "child_at u w x y = Some c" for u c x y p q p' q'
    proof -
      have "c \<in> W" "d w < d c" using linksD(2) [OF that(1) less.prems(2) child_at_child [OF that(2)]] by auto
      moreover from this have "B - d c < B - d w" using linksD(1) [OF that(1), of c] by simp
      ultimately show ?thesis using less.hyps [OF _ that(1)] by blast
    qed
    have "\<exists>u. (case child_at s1 w ox oy of None \<Rightarrow> Some s1
       | Some c \<Rightarrow> OnMouseMove c (ox - wx (s1 w)) (oy - wy (s1 w)) (nx - wx (s1 w)) (ny - wy (s1 w)) s1) = Some u \<and>
      links u W d B \<and> same_shape s1 u"
    proof (cases "child_at s1 w ox oy")
      case (Some c)
      then show ?thesis using into [OF s1(2) Some] by simp
    qed (simp add: s1)
    then obtain u where u: "(case child_at s1 w ox oy of None \<Rightarrow> Some s1
       | Some c \<Rightarrow> OnMouseMove c (ox - wx (s1 w)) (oy - wy (s1 w)) (nx - wx (s1 w)) (ny - wy (s1 w)) s1) = Some u"
      "links u W d B" "same_shape s1 u" by blast
    have "\<exists>t. (case child_at u w nx ny of None \<Rightarrow> Some u
        | Some c \<Rightarrow> if child_at s1 w ox oy = Some c then Some u
            else OnMouseMove c (ox - wx (u w)) (oy - wy (u w)) (nx - wx (u w)) (ny - wy (u w)) u) = Some t \<and>
      links t W d B \<and> same_shape u t"
    proof (cases "child_at u w nx ny")
      case (Some c)
      then show ?thesis using into [OF u(2) Some] u(2) by simp
    qed (simp add: u)
    moreover have "OnMouseMove w ox oy nx ny s = (case child_at u w nx ny of None \<Rightarrow> Some u
        | Some c \<Rightarrow> if child_at s1 w ox oy = Some c then Some u
            else OnMouseMove c (ox - wx (u w)) (oy - wy (u w)) (nx - wx (u w)) (ny - wy (u w)) u)"
      unfolding move_step [where w = w and s = s and ox = ox and oy = oy and nx = nx and ny = ny, OF False,
          folded s1_def] u(1) by (rule bind.bind_lunit)
    ultimately show ?thesis using same_shape_trans [OF s1(1) u(3)] same_shape_trans by metis
  qed
qed

subsection \<open>The desktop\<close>

definition desktop_ok :: "desktop \<Rightarrow> ptr set \<Rightarrow> bool" where
  "desktop_ok D W =
     (well_formed (widgets D) W \<and> root D \<in> W \<and> widget_class (widgets D (root D)) = Desktop \<and>
      0 \<le> MouseX D \<and> MouseX D < ww (widgets D (root D)) \<and>
      0 \<le> MouseY D \<and> MouseY D < wh (widgets D (root D)))"

lemma clamp_range: "0 < n \<Longrightarrow> 0 \<le> clamp n p \<and> clamp n p < n"
  by (simp add: clamp_def Let_def)

lemma desktop_links:
  assumes "desktop_ok D W"
  obtains d B where "links (widgets D) W d B" and "root D \<in> W" and "widget_class (widgets D (root D)) \<noteq> PlainWidget"
  using assms by (auto simp: desktop_ok_def well_formed_def)

lemma desktop_ok_widgets:
  "desktop_ok D W \<Longrightarrow> links t W d B \<Longrightarrow> same_shape (widgets D) t \<Longrightarrow> desktop_ok (D\<lparr>widgets := t\<rparr>) W"
  by (auto simp: desktop_ok_def well_formed_def same_shape_def)

lemma desktop_down:
  assumes "desktop_ok D W"
  shows "\<exists>E. Desktop_OnMouseDown b D = Some E \<and> desktop_ok E W \<and> same_shape (widgets D) (widgets E)"
proof -
  obtain d B where L: "links (widgets D) W d B" and r: "root D \<in> W" "widget_class (widgets D (root D)) \<noteq> PlainWidget"
    using assms by (rule desktop_links)
  obtain t where "OnMouseDown (root D) (MouseX D) (MouseY D) b (widgets D) = Some t" "links t W d B"
    "same_shape (widgets D) t"
    using down_returns [OF L r(1)] r(2) by blast
  then show ?thesis using desktop_ok_widgets [OF assms] by (simp add: Desktop_OnMouseDown_def)
qed

lemma desktop_up:
  assumes "desktop_ok D W"
  shows "\<exists>E. Desktop_OnMouseUp b D = Some E \<and> desktop_ok E W \<and> same_shape (widgets D) (widgets E)"
proof -
  obtain d B where L: "links (widgets D) W d B" and r: "root D \<in> W"
    using assms by (rule desktop_links)
  obtain t where "OnMouseUp (root D) (MouseX D) (MouseY D) b (widgets D) = Some t" "links t W d B"
    "same_shape (widgets D) t"
    using up_returns [OF L r] by blast
  then show ?thesis using desktop_ok_widgets [OF assms] by (simp add: Desktop_OnMouseUp_def)
qed

lemma desktop_move:
  assumes "desktop_ok D W"
  shows "\<exists>E. Desktop_OnMouseMove x y D = Some E \<and> desktop_ok E W \<and> same_shape (widgets D) (widgets E)"
proof -
  obtain d B where L: "links (widgets D) W d B" and r: "root D \<in> W"
    using assms by (rule desktop_links)
  let ?nx = "clamp (ww (widgets D (root D))) (MouseX D + x sdiv 4)"
  let ?ny = "clamp (wh (widgets D (root D))) (MouseY D + y sdiv 4)"
  have "desktop_ok (D\<lparr>widgets := t, MouseX := ?nx, MouseY := ?ny\<rparr>) W"
    if "links t W d B" "same_shape (widgets D) t" for t
    using desktop_ok_widgets [OF assms that] assms that(2)
      clamp_range [of "ww (widgets D (root D))"] clamp_range [of "wh (widgets D (root D))"]
    by (auto simp: desktop_ok_def same_shape_def)
  moreover obtain t where "OnMouseMove (root D) (MouseX D) (MouseY D) ?nx ?ny (widgets D) = Some t"
    "links t W d B" "same_shape (widgets D) t"
    using move_returns [OF L r] by blast
  ultimately show ?thesis by (simp add: Desktop_OnMouseMove_def)
qed

text \<open>C37. Every mouse event of a desktop whose widgets form a tree returns, and leaves a desktop whose widgets
  form the same tree, with the focus on children only and the mouse on the screen.
\<close>

theorem desktop_typed:
  assumes "desktop_ok D W"
  shows "(\<exists>E. Desktop_OnMouseDown b D = Some E \<and> desktop_ok E W \<and> same_shape (widgets D) (widgets E)) \<and>
    (\<exists>E. Desktop_OnMouseUp b D = Some E \<and> desktop_ok E W \<and> same_shape (widgets D) (widgets E)) \<and>
    (\<exists>E. Desktop_OnMouseMove x y D = Some E \<and> desktop_ok E W \<and> same_shape (widgets D) (widgets E))"
  using assms desktop_down desktop_up desktop_move by blast

text \<open>A click that reaches a plain widget gives it the keyboard: the keys that the desktop gets
  afterwards are passed on to that widget.
\<close>

theorem click_then_type:
  assumes "desktop_ok D W" and "hits (widgets D) (root D) (MouseX D) (MouseY D) v" and "Focussable (widgets D v)"
  shows "\<exists>E. Desktop_OnMouseDown b D = Some E \<and> OnKeyDown (root E) (widgets E) = Some (Some v)"
proof -
  let ?s = "widgets D"
  obtain d B where L: "links ?s W d B" using assms(1) by (auto simp: desktop_ok_def well_formed_def)
  have r: "root D \<in> W" "widget_class (?s (root D)) \<noteq> PlainWidget" using assms(1) by (auto simp: desktop_ok_def)
  have v: "widget_class (?s v) = PlainWidget" using assms(2) by (induction rule: hits.induct) auto
  obtain t where t: "OnMouseDown (root D) (MouseX D) (MouseY D) b ?s = Some t" "same_shape ?s t"
    "focus_chain t (root D) v"
    using down_returns [OF L r(1), of "MouseX D" "MouseY D" b] r(2) assms(2,3) ancestor_self by blast
  have "OnKeyDown (root D) t = Some (Some v)"
    using keys_follow [OF t(3)] t(2) v by (simp add: same_shape_def)
  then show ?thesis using t(1) by (simp add: Desktop_OnMouseDown_def)
qed

text \<open>A click into a window where it has no child changes no focus: the window itself never gets it.\<close>

theorem empty_window_unfocussed:
  assumes "widget_class (widgets D (root D)) = Desktop"
    and "child_at (widgets D) (root D) (MouseX D) (MouseY D) = Some c"
    and "widget_class (widgets D c) = Window" and "children (widgets D c) = []"
  shows "\<exists>E. Desktop_OnMouseDown b D = Some E \<and> (\<forall>w. focussedChild (widgets E w) = focussedChild (widgets D w))"
proof -
  have "child_at (widgets D) c x y = None" for x y using assms(4) by (simp add: child_at_def)
  then show ?thesis
    using assms(1-3) mouse_down_step [where w = "root D" and s = "widgets D"]
      mouse_down_step [where w = c and s = "widgets D"]
    by (simp add: Desktop_OnMouseDown_def press_def)
qed

subsection \<open>Dragging\<close>

lemma still_widgets:
  assumes "links s W d B" and "w \<in> W" and "\<forall>v \<in> W. d w \<le> d v \<longrightarrow> \<not> Dragging (s v)"
  shows "OnMouseMove w ox oy nx ny s = Some s"
  using assms(2,3)
proof (induction "B - d w" arbitrary: w ox oy nx ny rule: less_induct)
  case less
  show ?case
  proof (cases "widget_class (s w) = PlainWidget")
    case True
    then show ?thesis by (subst OnMouseMove.simps) simp
  next
    case False
    have "drag w (nx - ox) (ny - oy) s = s" using less.prems by (simp add: drag_def)
    moreover have "OnMouseMove c p q p' q' s = Some s" if "child_at s w x y = Some c" for c x y p q p' q'
    proof -
      have c: "c \<in> W" "d w < d c" using linksD(2) [OF assms(1) less.prems(1) child_at_child [OF that]] by auto
      moreover from this have "B - d c < B - d w" using linksD(1) [OF assms(1), of c] by simp
      moreover have "\<forall>v \<in> W. d c \<le> d v \<longrightarrow> \<not> Dragging (s v)" using less.prems(2) c(2) by fastforce
      ultimately show ?thesis using less.hyps by blast
    qed
    ultimately show ?thesis using move_step [where w = w and s = s, OF False] by (simp split: option.split)
  qed
qed

text \<open>The window \<open>win\<close> lies on top of the desktop, is dragged, and the mouse is in it.\<close>

definition dragging_top :: "desktop \<Rightarrow> ptr set \<Rightarrow> ptr \<Rightarrow> bool" where
  "dragging_top D W win =
     (desktop_ok D W \<and> (\<exists>rest. children (widgets D (root D)) = win # rest) \<and>
      wx (widgets D (root D)) = 0 \<and> wy (widgets D (root D)) = 0 \<and>
      widget_class (widgets D win) = Window \<and>
      (\<forall>w \<in> W. Dragging (widgets D w) \<longleftrightarrow> w = win) \<and>
      ContainsCoordinate (widgets D win) (MouseX D) (MouseY D))"

lemma drag_window:
  fixes s :: gui and ox oy nx ny :: int
  assumes "links s W d B" and "win \<in> W" and "widget_class (s win) = Window"
    and only: "\<forall>w \<in> W. Dragging (s w) \<longleftrightarrow> w = win"
  shows "OnMouseMove win ox oy nx ny s =
    Some (s(win := (s win)\<lparr>wx := wx (s win) + (nx - ox), wy := wy (s win) + (ny - oy)\<rparr>))"
proof -
  define s1 where "s1 = s(win := (s win)\<lparr>wx := wx (s win) + (nx - ox), wy := wy (s win) + (ny - oy)\<rparr>)"
  have s1: "drag win (nx - ox) (ny - oy) s = s1" using assms(2,3) only by (simp add: drag_def s1_def)
  then have L: "links s1 W d B" using links_drag [OF assms(1)] by metis
  have "OnMouseMove c p q p' q' s1 = Some s1" if "child_at s1 win x y = Some c" for c x y p q p' q'
  proof (rule still_widgets [OF L])
    have c: "c \<in> W \<and> d win < d c" using linksD(2) [OF L assms(2) child_at_child [OF that]] by auto
    then show "c \<in> W" by simp
    show "\<forall>v \<in> W. d c \<le> d v \<longrightarrow> \<not> Dragging (s1 v)" using c only by (auto simp: s1_def)
  qed
  then show ?thesis
    using move_step [where w = win and s = s and ox = ox and oy = oy and nx = nx and ny = ny] assms(3)
    by (simp add: s1 s1_def [symmetric] split: option.split)
qed

lemma child_at_top:
  assumes "children (s w) = c # rest" and "wx (s w) = 0" and "wy (s w) = 0" and "ContainsCoordinate (s c) x y"
  shows "child_at s w x y = Some c"
  using assms by (simp add: child_at_def)

lemma drag_one:
  assumes "dragging_top D W win"
  shows "\<exists>E. Desktop_OnMouseMove x y D = Some E \<and> dragging_top E W win \<and> root E = root D \<and>
    widgets E = (widgets D)(win := (widgets D win)
      \<lparr>wx := wx (widgets D win) + (MouseX E - MouseX D), wy := wy (widgets D win) + (MouseY E - MouseY D)\<rparr>)"
proof -
  let ?s = "widgets D"
  obtain rest where rest: "children (?s (root D)) = win # rest" using assms by (auto simp: dragging_top_def)
  have ok: "desktop_ok D W" and r: "root D \<in> W" "widget_class (?s (root D)) = Desktop"
    "wx (?s (root D)) = 0" "wy (?s (root D)) = 0"
    and win: "widget_class (?s win) = Window" "ContainsCoordinate (?s win) (MouseX D) (MouseY D)"
    and only: "\<forall>w \<in> W. Dragging (?s w) \<longleftrightarrow> w = win"
    using assms by (simp_all add: dragging_top_def desktop_ok_def)
  obtain d B where L: "links ?s W d B" using ok by (auto simp: desktop_ok_def well_formed_def)
  have winW: "win \<in> W" using linksD(2) [OF L r(1), of win] rest by simp
  have ne: "win \<noteq> root D" using r(2) win(1) by auto
  define nx where "nx = clamp (ww (?s (root D))) (MouseX D + x sdiv 4)"
  define ny where "ny = clamp (wh (?s (root D))) (MouseY D + y sdiv 4)"
  define s1 where "s1 = ?s(win := (?s win)\<lparr>wx := wx (?s win) + (nx - MouseX D), wy := wy (?s win) + (ny - MouseY D)\<rparr>)"
  have inside: "ContainsCoordinate (s1 win) nx ny" using win(2) by (simp add: ContainsCoordinate_def s1_def)
  have old: "child_at ?s (root D) (MouseX D) (MouseY D) = Some win" using child_at_top [OF rest r(3,4) win(2)] .
  have new: "child_at s1 (root D) nx ny = Some win"
    using child_at_top [of s1 "root D" win rest] rest r(3,4) inside ne by (simp add: s1_def)
  have "drag (root D) (nx - MouseX D) (ny - MouseY D) ?s = ?s" using r(2) by (simp add: drag_def)
  then have "OnMouseMove (root D) (MouseX D) (MouseY D) nx ny ?s = Some s1"
    using move_step [where w = "root D" and s = ?s and ox = "MouseX D" and oy = "MouseY D" and nx = nx and ny = ny]
      r old new drag_window [OF L winW win(1) only] by (simp add: s1_def [symmetric])
  then have E: "Desktop_OnMouseMove x y D = Some (D\<lparr>widgets := s1, MouseX := nx, MouseY := ny\<rparr>)"
    by (simp add: Desktop_OnMouseMove_def nx_def ny_def)
  moreover have "desktop_ok (D\<lparr>widgets := s1, MouseX := nx, MouseY := ny\<rparr>) W"
    using desktop_move [OF ok, of x y] E by simp
  ultimately show ?thesis
    using rest r win only inside ne by (auto simp: dragging_top_def s1_def)
qed

fun mouse_moves :: "(int \<times> int) list \<Rightarrow> desktop \<Rightarrow> desktop option" where
  "mouse_moves [] D = Some D"
| "mouse_moves ((x, y) # ms) D = Option.bind (Desktop_OnMouseMove x y D) (mouse_moves ms)"

definition moved_to :: "desktop \<Rightarrow> desktop \<Rightarrow> ptr \<Rightarrow> widget" where
  "moved_to D E win =
     (widgets D win)\<lparr>wx := wx (widgets D win) + (MouseX E - MouseX D),
       wy := wy (widgets D win) + (MouseY E - MouseY D)\<rparr>"

lemma drag_many:
  assumes "dragging_top D W win"
  shows "\<exists>E. mouse_moves ms D = Some E \<and> dragging_top E W win \<and> root E = root D \<and>
    widgets E = (widgets D)(win := moved_to D E win)"
  using assms
proof (induction ms arbitrary: D)
  case (Cons m ms)
  obtain x y where m: "m = (x, y)" by (cases m)
  obtain D1 where D1: "Desktop_OnMouseMove x y D = Some D1" "dragging_top D1 W win" "root D1 = root D"
    "widgets D1 = (widgets D)(win := moved_to D D1 win)"
    using drag_one [OF Cons.prems, of x y] by (auto simp: moved_to_def)
  obtain E where E: "mouse_moves ms D1 = Some E" "dragging_top E W win" "root E = root D1"
    "widgets E = (widgets D1)(win := moved_to D1 E win)"
    using Cons.IH [OF D1(2)] by blast
  have "widgets E = (widgets D)(win := moved_to D E win)"
    unfolding E(4) by (rule ext) (simp add: D1(4) moved_to_def)
  moreover have "mouse_moves (m # ms) D = Some E" using D1(1) E(1) by (simp add: m)
  ultimately show ?case using E(2,3) D1(3) by metis
qed (simp add: moved_to_def)

definition resting_on :: "desktop \<Rightarrow> ptr set \<Rightarrow> ptr \<Rightarrow> bool" where
  "resting_on D W win =
     (desktop_ok D W \<and> (\<exists>rest. children (widgets D (root D)) = win # rest) \<and>
      wx (widgets D (root D)) = 0 \<and> wy (widgets D (root D)) = 0 \<and>
      widget_class (widgets D win) = Window \<and> children (widgets D win) = [] \<and>
      (\<forall>w \<in> W. \<not> Dragging (widgets D w)) \<and>
      ContainsCoordinate (widgets D win) (MouseX D) (MouseY D))"

lemma press_top:
  assumes "resting_on D W win"
  defines "E \<equiv> D\<lparr>widgets := (widgets D)(win := (widgets D win)\<lparr>Dragging := True\<rparr>)\<rparr>"
  shows "Desktop_OnMouseDown 1 D = Some E" and "dragging_top E W win"
proof -
  let ?s = "widgets D"
  obtain rest where rest: "children (?s (root D)) = win # rest" using assms(1) by (auto simp: resting_on_def)
  have ok: "desktop_ok D W" and r: "root D \<in> W" "widget_class (?s (root D)) = Desktop"
    "wx (?s (root D)) = 0" "wy (?s (root D)) = 0"
    and win: "widget_class (?s win) = Window" "children (?s win) = []" "ContainsCoordinate (?s win) (MouseX D) (MouseY D)"
    and quiet: "\<forall>w \<in> W. \<not> Dragging (?s w)"
    using assms(1) by (simp_all add: resting_on_def desktop_ok_def)
  obtain d B where L: "links ?s W d B" using ok by (rule desktop_links)
  have winW: "win \<in> W" using linksD(2) [OF L r(1), of win] rest by simp
  have ne: "win \<noteq> root D" using r(2) win(1) by auto
  have old: "child_at ?s (root D) (MouseX D) (MouseY D) = Some win" using child_at_top [OF rest r(3,4) win(3)] .
  have none: "child_at ?s win x y = None" for x y using win(2) by (simp add: child_at_def)
  show E: "Desktop_OnMouseDown 1 D = Some E"
    using mouse_down_step [where w = "root D" and s = ?s] mouse_down_step [where w = win and s = ?s] r win(1) old none
    by (simp add: Desktop_OnMouseDown_def press_def E_def)
  have "desktop_ok E W" using desktop_down [OF ok, of 1] E by simp
  then show "dragging_top E W win"
    using rest r win quiet winW ne by (auto simp: dragging_top_def E_def ContainsCoordinate_def)
qed

lemma release_top:
  assumes "dragging_top D W win" and "children (widgets D win) = []"
  shows "Desktop_OnMouseUp b D = Some (D\<lparr>widgets := (widgets D)(win := (widgets D win)\<lparr>Dragging := False\<rparr>)\<rparr>)"
proof -
  let ?s = "widgets D"
  obtain rest where rest: "children (?s (root D)) = win # rest" using assms(1) by (auto simp: dragging_top_def)
  have r: "widget_class (?s (root D)) = Desktop" "wx (?s (root D)) = 0" "wy (?s (root D)) = 0"
    and win: "widget_class (?s win) = Window" "ContainsCoordinate (?s win) (MouseX D) (MouseY D)"
    using assms(1) by (simp_all add: dragging_top_def desktop_ok_def)
  have old: "child_at ?s (root D) (MouseX D) (MouseY D) = Some win" using child_at_top [OF rest r(2,3) win(2)] .
  have none: "child_at (?s(win := (?s win)\<lparr>Dragging := False\<rparr>)) win x y = None" for x y
    using assms(2) by (simp add: child_at_def)
  have "OnMouseUp win x y b ?s = Some (?s(win := (?s win)\<lparr>Dragging := False\<rparr>))" for x y
    using win(1) none by (subst OnMouseUp.simps) simp
  then have "OnMouseUp (root D) (MouseX D) (MouseY D) b ?s = Some (?s(win := (?s win)\<lparr>Dragging := False\<rparr>))"
    using r old by (subst OnMouseUp.simps) (simp add: Let_def)
  then show ?thesis by (simp add: Desktop_OnMouseUp_def)
qed

lemma undrag: "\<not> Dragging v \<Longrightarrow> v\<lparr>wx := x, wy := y, Dragging := False\<rparr> = v\<lparr>wx := x, wy := y\<rparr>" for v :: widget
  by (cases v) simp


subsection \<open>Building a desktop\<close>

lemma new_desktop_formed:
  "p \<noteq> null \<Longrightarrow> well_formed (widgets (new_desktop p w h rgb s)) {p}"
  unfolding well_formed_def
  by (rule exI [of _ "\<lambda>_. 0"], rule exI [of _ 0]) (simp add: links_def linked_def new_desktop_def Widget_def)

lemma add_child_formed:
  assumes "well_formed s W" and "this \<in> W" and "widget_class (s this) \<noteq> PlainWidget"
    and "c \<notin> W" and "c \<noteq> null" and "s c = Widget k this x y w h rgb" and "AddChild this c s = (True, t)"
  shows "well_formed t (insert c W)"
proof -
  obtain d B where L: "links s W d B" using assms(1) by (auto simp: well_formed_def)
  have t: "t = s(this := (s this)\<lparr>children := children (s this) @ [c]\<rparr>)" "length (children (s this)) < 100"
    using assms(7) by (auto simp: AddChild_def split: if_splits)
  have cc: "c \<noteq> this" using assms(2,4) by auto
  have "linked t (insert c W) (d(c := Suc (d this))) (Suc B) v" if "v \<in> insert c W" for v
  proof (cases "v = c")
    case True
    then show ?thesis using assms(2,5,6) cc t linksD(1) [OF L assms(2)] by (simp add: linked_def Widget_def)
  next
    case False
    then have v: "linked s W d B v" "v \<in> W" using L that by (auto simp: links_def)
    have "u \<noteq> c" if "u \<in> set (children (s v))" for u using linksD(2) [OF L v(2) that] assms(4) by auto
    moreover have "u \<noteq> this \<or> parent (t u) = parent (s u)" "parent (t u) = parent (s u)" for u using t(1) by auto
    ultimately show ?thesis using v False t(2) cc assms(2-6) by (auto simp: linked_def t(1) Widget_def)
  qed
  then show ?thesis by (auto simp: well_formed_def links_def)
qed

definition demo :: "int \<Rightarrow> int \<Rightarrow> desktop" where
  "demo mx my =
     (let d = new_desktop 1 320 200 (0, 0, 0xA8) (\<lambda>_. Widget PlainWidget null 0 0 0 0 (0, 0, 0));
          s = (widgets d)(2 := Widget Window 1 10 10 20 20 (0xA8, 0, 0),
                3 := Widget Window 1 40 15 30 30 (0, 0xA8, 0), 4 := Widget PlainWidget 3 5 5 10 10 (0xFF, 0xFF, 0xFF));
          s = snd (AddChild 1 2 s);
          s = snd (AddChild 1 3 s);
          s = snd (AddChild 3 4 s)
      in d\<lparr>widgets := s, MouseX := mx, MouseY := my\<rparr>)"

lemma demo_ok:
  assumes "0 \<le> mx" and "mx < 320" and "0 \<le> my" and "my < 200"
  shows "desktop_ok (demo mx my) {1, 2, 3, 4}"
proof -
  have "links (widgets (demo mx my)) {1, 2, 3, 4} (\<lambda>p. if p = 1 then 0 else if p = 4 then 2 else 1) 2"
    by (simp add: links_def linked_def demo_def new_desktop_def Widget_def AddChild_def)
  then show ?thesis
    using assms by (auto simp: desktop_ok_def well_formed_def demo_def new_desktop_def Widget_def AddChild_def)
qed

theorem desktop_typed_witness:
  "\<exists>E. Desktop_OnMouseMove 100 60 (demo 160 100) = Some E \<and> desktop_ok E {1, 2, 3, 4}"
  using desktop_typed [OF demo_ok [of 160 100], of 1 100 60] by auto

theorem click_then_type_witness:
  "\<exists>E. Desktop_OnMouseDown 1 (demo 50 25) = Some E \<and> OnKeyDown (root E) (widgets E) = Some (Some 4)"
proof -
  have "hits (widgets (demo 50 25)) (root (demo 50 25)) (MouseX (demo 50 25)) (MouseY (demo 50 25)) 4"
    by (rule hits_child [where c = 3]; (rule hits_child [where c = 4])?; (rule hits_plain)?)
      (simp_all add: demo_def new_desktop_def Widget_def AddChild_def child_at_def ContainsCoordinate_def)
  moreover have "Focussable (widgets (demo 50 25) 4)"
    by (simp add: demo_def new_desktop_def Widget_def AddChild_def)
  ultimately show ?thesis using click_then_type [OF demo_ok [of 50 25]] by simp
qed


text \<open>
  A window that is not on top can be dragged below another one. The mouse events then go to the
  other window: the dragged one stays behind, and it is not told that the button was released.
\<close>

theorem drag_lost_below:
  "map_option (\<lambda>E. (MouseX E - 45, wx (widgets E 3) - 40, Dragging (widgets E 3)))
     (Option.bind (Desktop_OnMouseDown 1 (demo 45 20))
       (\<lambda>E1. Option.bind (mouse_moves [(-120, 0), (20, 0)] E1) (Desktop_OnMouseUp 1))) =
   Some (-25, -30, True)"
  by code_simp

end
