(* ===== verification/Kernel_Vga_Properties.thy ===== *)
theory Kernel_Vga_Properties
  imports Kernel_Vga
begin

text \<open>
  After the mode has been set, a rectangle paints exactly the pixels it shares with the screen and
  no other byte of memory. The hypothesis about the hardware is that the graphics controller reads
  back what was last written to a register.
\<close>

unbundle bit_operations_syntax

subsection \<open>The registers of the graphics controller\<close>

fun gc_replay :: "access \<Rightarrow> byte \<times> (byte \<Rightarrow> byte option) \<Rightarrow> byte \<times> (byte \<Rightarrow> byte option)" where
  "gc_replay (Out8 p v) (i, regs) =
     (if p = 0x3ce then (v, regs) else if p = 0x3cf then (i, regs(i \<mapsto> v)) else (i, regs))"
| "gc_replay a st = st"

definition gc_state :: "trace \<Rightarrow> byte \<times> (byte \<Rightarrow> byte option)" where
  "gc_state h = fold gc_replay h (0, \<lambda>_. None)"

definition keeps_registers :: "device \<Rightarrow> bool" where
  "keeps_registers dev =
     (\<forall>h v. snd (gc_state h) (fst (gc_state h)) = Some v \<longrightarrow> ucast (dev (h @ [In8 0x3cf])) = v)"

lemma gc_append [simp]: "gc_state (h @ as) = fold gc_replay as (gc_state h)"
  by (simp add: gc_state_def)

lemma gc_other:
  "p \<notin> {0x3ce, 0x3cf} \<Longrightarrow> gc_state (Port8Bit_Write p v h) = gc_state h"
  "gc_state (snd (Port8Bit_Read dev p h)) = gc_state h"
  by (cases "gc_state h"; simp add: port_defs)+

lemma gc_indexed_other:
  "p \<notin> {0x3ce, 0x3cf} \<Longrightarrow> q \<notin> {0x3ce, 0x3cf} \<Longrightarrow> gc_state (write_indexed p q i v h) = gc_state h"
  by (simp add: write_indexed_def gc_other)

lemma gc_indexed:
  "snd (gc_state (write_indexed 0x3ce 0x3cf i v h)) = (snd (gc_state h))(of_nat i \<mapsto> v)"
  by (cases "gc_state h") (simp add: write_indexed_def Port8Bit_Write_def)

lemma gc_fold_other:
  assumes "\<And>i h. gc_state (f i h) = gc_state h"
  shows "gc_state (fold f xs h) = gc_state h"
  using assms by (induction xs arbitrary: h) auto

lemma gc_fold_indexed:
  "snd (gc_state (fold (\<lambda>i. write_indexed 0x3ce 0x3cf i (r i)) [0..<9] h)) 6 = Some (r 6)"
proof -
  have "[0..<9] = [0, 1, 2, 3, 4, 5, 6, 7, 8 :: nat]" by code_simp
  then show ?thesis by (simp add: gc_indexed)
qed

lemma set_mode_segment:
  assumes "SetMode dev w h c t = (True, t')"
  shows "snd (gc_state t') 6 = Some 0x05"
proof -
  have "g_320x200x256 ! 37 = 0x05" "length g_320x200x256 = 61" unfolding g_320x200x256_def by simp_all
  moreover have "t' = WriteRegisters dev g_320x200x256 t" using assms by (simp add: SetMode_def split: if_splits)
  ultimately show ?thesis
    unfolding WriteRegisters_def Let_def case_prod_beta
    by (simp add: gc_other gc_fold_other gc_indexed_other gc_fold_indexed)
qed

subsection \<open>Painting\<close>

definition pixel_address :: "nat \<Rightarrow> nat \<Rightarrow> u32" where
  "pixel_address x y = 0xA0000 + of_nat (320 * y + x)"

definition painted :: "(nat \<times> nat) set \<Rightarrow> byte \<Rightarrow> (u32 \<Rightarrow> byte) \<Rightarrow> u32 \<Rightarrow> byte" where
  "painted S c mem a = (if \<exists>(x, y) \<in> S. x < 320 \<and> y < 200 \<and> a = pixel_address x y then c else mem a)"

lemma painted_Un: "painted (S \<union> T) c mem = painted T c (painted S c mem)"
  by (rule ext) (auto simp: painted_def)

lemma painted_empty [simp]: "painted {} c mem = mem"
  by (rule ext) (simp add: painted_def)

definition in_mode :: "graphics \<Rightarrow> bool" where
  "in_mode g = (snd (gc_state (snd g)) 6 = Some 0x05)"

lemma segment_in_mode:
  assumes "keeps_registers dev" and "snd (gc_state h) 6 = Some 0x05"
  shows "fst (GetFrameBufferSegment dev h) = 0xA0000"
    and "snd (gc_state (snd (GetFrameBufferSegment dev h))) = snd (gc_state h)"
proof -
  obtain i regs where g: "gc_state h = (i, regs)" by (cases "gc_state h")
  then have "gc_state (h @ [Out8 0x3ce 0x06]) = (6, regs)" by simp
  then have "ucast (dev ((h @ [Out8 0x3ce 0x06]) @ [In8 0x3cf])) = (0x05 :: byte)"
    using assms g unfolding keeps_registers_def by (metis fst_conv snd_conv)
  then show "fst (GetFrameBufferSegment dev h) = 0xA0000"
    by (simp add: GetFrameBufferSegment_def port_defs Let_def)
  show "snd (gc_state (snd (GetFrameBufferSegment dev h))) = snd (gc_state h)"
    using g by (simp add: GetFrameBufferSegment_def port_defs Let_def)
qed

lemma small_word:
  assumes "n < 2 ^ 31"
  shows "unat (of_nat n :: u32) = n" "sint (of_nat n :: u32) = int n"
proof -
  show "unat (of_nat n :: u32) = n" using assms by (simp add: unat_of_nat)
  have "signed_take_bit 31 (int n) = int n" using assms by (intro signed_take_bit_int_eq_self) auto
  then show "sint (of_nat n :: u32) = int n" by (simp add: signed_of_nat)
qed

lemma put_pixel:
  assumes "keeps_registers dev" and "in_mode g" and "x < 2 ^ 31" and "y < 2 ^ 31"
  shows "fst (PutPixel dev (of_nat x) (of_nat y) r gr b g) = painted {(x, y)} (GetColorIndex r gr b) (fst g)"
    and "in_mode (PutPixel dev (of_nat x) (of_nat y) r gr b g)"
proof -
  have "pixel_address x y = 0xA0000 + 320 * of_nat y + of_nat x" by (simp add: pixel_address_def)
  then show "fst (PutPixel dev (of_nat x) (of_nat y) r gr b g) = painted {(x, y)} (GetColorIndex r gr b) (fst g)"
    using assms segment_in_mode [OF assms(1), of "snd g"]
    by (auto simp: PutPixel_def PutPixelIndex_def small_word painted_def in_mode_def case_prod_beta)
  show "in_mode (PutPixel dev (of_nat x) (of_nat y) r gr b g)"
    using assms(2) segment_in_mode [OF assms(1), of "snd g"]
    by (auto simp: PutPixel_def PutPixelIndex_def in_mode_def case_prod_beta)
qed

lemma word_loop_fold:
  "word_loop f i stop s = fold (\<lambda>n. f (of_nat n)) [unat i..<unat stop] s"
  for f :: "u32 \<Rightarrow> 's \<Rightarrow> 's"
proof (induction f i stop s rule: word_loop.induct)
  case (1 f i stop s)
  show ?case
  proof (cases "i < stop")
    case True
    then have "unat i < unat stop" by (simp add: word_less_nat_alt)
    then show ?thesis using True 1
      by (subst word_loop.simps) (simp add: unat_next upt_conv_Cons del: word_loop.simps)
  next
    case False
    then show ?thesis by (subst word_loop.simps) (simp add: word_less_nat_alt)
  qed
qed

lemma row_painted:
  assumes "keeps_registers dev" and "in_mode g" and "\<forall>x \<in> set xs. x < 2 ^ 31" and "y < 2 ^ 31"
  shows "fst (fold (\<lambda>x. PutPixel dev (of_nat x) (of_nat y) r gr b) xs g) =
      painted (set xs \<times> {y}) (GetColorIndex r gr b) (fst g) \<and>
    in_mode (fold (\<lambda>x. PutPixel dev (of_nat x) (of_nat y) r gr b) xs g)"
  using assms(2,3)
proof (induction xs arbitrary: g)
  case (Cons x xs)
  have "set (x # xs) \<times> {y} = {(x, y)} \<union> set xs \<times> {y}" by auto
  then have "painted (set (x # xs) \<times> {y}) c mem = painted (set xs \<times> {y}) c (painted {(x, y)} c mem)" for c mem
    by (simp only: painted_Un)
  moreover note put = put_pixel [OF assms(1) Cons.prems(1) _ assms(4), of x r gr b]
  ultimately show ?case using Cons.IH [OF put(2)] Cons.prems(2) put(1) by simp
qed simp

lemma rows_painted:
  assumes "keeps_registers dev" and "in_mode g" and "\<forall>x \<in> set xs. x < 2 ^ 31" and "\<forall>y \<in> set ys. y < 2 ^ 31"
  shows "fst (fold (\<lambda>y. fold (\<lambda>x. PutPixel dev (of_nat x) (of_nat y) r gr b) xs) ys g) =
      painted (set xs \<times> set ys) (GetColorIndex r gr b) (fst g) \<and>
    in_mode (fold (\<lambda>y. fold (\<lambda>x. PutPixel dev (of_nat x) (of_nat y) r gr b) xs) ys g)"
  using assms(2,4)
proof (induction ys arbitrary: g)
  case (Cons y ys)
  have "set xs \<times> set (y # ys) = set xs \<times> {y} \<union> set xs \<times> set ys" by auto
  moreover have row: "fst (fold (\<lambda>x. PutPixel dev (of_nat x) (of_nat y) r gr b) xs g) =
      painted (set xs \<times> {y}) (GetColorIndex r gr b) (fst g)"
    "in_mode (fold (\<lambda>x. PutPixel dev (of_nat x) (of_nat y) r gr b) xs g)"
    using row_painted [OF assms(1) Cons.prems(1) assms(3), of y r gr b] Cons.prems(2) by auto
  ultimately show ?case using Cons.IH [OF row(2)] Cons.prems(2) by (simp add: painted_Un)
qed simp

lemma fill_loops:
  "FillRectangle dev x y w h r gr b g =
     fold (\<lambda>Y. fold (\<lambda>X. PutPixel dev (of_nat X) (of_nat Y) r gr b) [unat x..<unat (x + w)]) [unat y..<unat (y + h)] g"
proof -
  have "word_loop f i stop = fold (\<lambda>n. f (of_nat n)) [unat i..<unat stop]" for f :: "u32 \<Rightarrow> graphics \<Rightarrow> graphics" and i stop
    by (rule ext) (rule word_loop_fold)
  then show ?thesis by (simp only: FillRectangle_def)
qed

lemma unat_stop: "unat x + unat w < 2 ^ 31 \<Longrightarrow> unat (x + w) = unat x + unat w" for x w :: u32
  using unat_add_lem [of x w] by simp

text \<open>C39. Once the mode has been set, a rectangle with coordinates that are not negative paints exactly the
  bytes of those of its pixels that lie on the screen, in the colour of the palette, and leaves
  every other byte of memory as it was.
\<close>

theorem fill_paints:
  assumes "keeps_registers dev" and "SetMode dev width height depth t = (True, t')"
    and "unat x + unat w < 2 ^ 31" and "unat y + unat h < 2 ^ 31"
  shows "fst (FillRectangle dev x y w h r g b (mem, t')) =
    painted ({unat x..<unat x + unat w} \<times> {unat y..<unat y + unat h}) (GetColorIndex r g b) mem"
proof -
  have "in_mode (mem, t')" using set_mode_segment [OF assms(2)] by (simp add: in_mode_def)
  moreover have "\<forall>X \<in> set [unat x..<unat x + unat w]. X < 2 ^ 31" "\<forall>Y \<in> set [unat y..<unat y + unat h]. Y < 2 ^ 31"
    using assms(3,4) by auto
  ultimately have "fst (fold (\<lambda>Y. fold (\<lambda>X. PutPixel dev (of_nat X) (of_nat Y) r g b) [unat x..<unat x + unat w])
      [unat y..<unat y + unat h] (mem, t')) =
    painted (set [unat x..<unat x + unat w] \<times> set [unat y..<unat y + unat h]) (GetColorIndex r g b) mem"
    using rows_painted [OF assms(1)] by fastforce
  then show ?thesis unfolding fill_loops unat_stop [OF assms(3)] unat_stop [OF assms(4)] by simp
qed

definition register_file :: device where
  "register_file h =
     (case gc_state (butlast h) of (i, regs) \<Rightarrow> (case regs i of Some v \<Rightarrow> ucast v | None \<Rightarrow> 0))"

lemma register_file_keeps: "keeps_registers register_file"
proof -
  have "ucast (ucast (v :: byte) :: u32) = v" for v by (rule bit_word_eqI) (auto simp: bit_simps)
  then show ?thesis by (auto simp: keeps_registers_def register_file_def split: prod.splits option.splits)
qed

theorem fill_paints_witness:
  "fst (FillRectangle register_file 318 198 5 5 0xA8 0 0 (\<lambda>_. 0, snd (SetMode register_file 320 200 8 []))) (pixel_address 319 199) = 4"
proof -
  have m: "SetMode register_file 320 200 8 [] = (True, snd (SetMode register_file 320 200 8 []))"
    by (simp add: SetMode_def SupportsMode_def)
  have "fst (FillRectangle register_file 318 198 5 5 0xA8 0 0 (\<lambda>_. 0, snd (SetMode register_file 320 200 8 []))) =
    painted ({318..<323} \<times> {198..<203}) 4 (\<lambda>_. 0)"
    using fill_paints [OF register_file_keeps m, of 318 5 198 5 "0xA8" 0 0 "\<lambda>_. 0"] by (simp add: GetColorIndex_def)
  moreover have "\<exists>(x, y) \<in> {318..<323} \<times> {198..<203}. x < 320 \<and> y < 200 \<and> pixel_address 319 199 = pixel_address x y"
    by (rule bexI [of _ "(319, 199)"]) simp_all
  ultimately show ?thesis by (simp only: painted_def if_True)
qed

text \<open>
  A rectangle that begins left of the screen is not drawn at all, however far it reaches into it:
  its end is computed and compared as an unsigned number.
\<close>

theorem left_of_screen:
  assumes "sint x < 0" and "0 \<le> sint x + sint w" and "0 \<le> sint w"
  shows "FillRectangle dev x y w h r g b gc = gc"
proof -
  have m: "uint v = sint v mod 2 ^ 32" "- (2 ^ 31) \<le> sint v" "sint v < 2 ^ 31" for v :: u32
    using uint_sint [of v] sint_ge [of v] sint_lt [of v] by (simp_all add: take_bit_eq_mod)
  have "uint x = sint x + 2 ^ 32"
    using mod_pos_pos_trivial [of "sint x + 2 ^ 32" "2 ^ 32"] assms(1) m(1) [of x] m(2) [of x] by simp
  moreover have "uint w = sint w" unfolding m(1) [of w] using assms(3) m(3) [of w] by simp
  ultimately have "uint (x + w) = sint x + sint w"
    using mod_add_self2 [of "sint x + sint w" "2 ^ 32"] mod_pos_pos_trivial [of "sint x + sint w" "2 ^ 32"]
      assms(1,2) m(3) [of w] by (simp add: uint_word_ariths ac_simps)
  then have "\<not> x < x + w"
    using \<open>uint x = sint x + 2 ^ 32\<close> m(3) [of w] by (simp add: word_less_def)
  then have "word_loop f x (x + w) s = s" for f and s :: graphics by (subst word_loop.simps) simp
  then have "FillRectangle dev x y w h r g b gc = word_loop (\<lambda>_ s. s) y (y + h) gc"
    unfolding FillRectangle_def by presburger
  also have "\<dots> = gc" by (simp only: word_loop_fold fold_same)
  finally show ?thesis .
qed

end
