(* ===== verification/Kernel_Net.thy ===== *)
theory Kernel_Net
  imports Kernel_Ports Kernel_Console
begin

text \<open>
  The driver of the am79c973 network card (os01, \<open>amd_am79c973.cpp\<close>): its set-up, the two rings of
  eight buffer descriptors, sending and receiving frames and the interrupt handler. The buffers are
  bytes of memory at the addresses of the members \<open>sendBuffers\<close> and \<open>recvBuffers\<close>; the card's own
  accesses to memory happen between the calls.
\<close>

unbundle bit_operations_syntax

type_synonym ram = "u32 \<Rightarrow> byte"

record BufferDescriptor =
  address :: u32
  flags :: u32
  flags2 :: u32
  avail :: u32

record InitializationBlock =
  mode :: u16
  numSendBuffers :: nat
  numRecvBuffers :: nat
  physicalAddress :: "64 word"
  logicalAddress :: "64 word"
  recvBufferDescrAddress :: u32
  sendBufferDescrAddress :: u32

record am79c973 =
  card_ports :: u16
  card_vector :: byte
  initBlock :: InitializationBlock
  sendBufferDescr :: "BufferDescriptor list"
  currentSendBuffer :: nat
  recvBufferDescr :: "BufferDescriptor list"
  currentRecvBuffer :: nat

text \<open>Where the members of the object lie.\<close>

record card_layout =
  initBlock_at :: u32
  sendBufferDescrMemory_at :: u32
  sendBuffers_at :: u32
  recvBufferDescrMemory_at :: u32
  recvBuffers_at :: u32

definition register_data :: "am79c973 \<Rightarrow> port" where "register_data c = card_ports c + 0x10"
definition register_address :: "am79c973 \<Rightarrow> port" where "register_address c = card_ports c + 0x12"
definition reset_port :: "am79c973 \<Rightarrow> port" where "reset_port c = card_ports c + 0x14"
definition bus_control :: "am79c973 \<Rightarrow> port" where "bus_control c = card_ports c + 0x16"

definition write_register :: "am79c973 \<Rightarrow> u16 \<Rightarrow> u16 \<Rightarrow> trace \<Rightarrow> trace" where
  "write_register c i v h = Port16Bit_Write (register_data c) v (Port16Bit_Write (register_address c) i h)"

definition read_register :: "device \<Rightarrow> am79c973 \<Rightarrow> u16 \<Rightarrow> trace \<Rightarrow> u16 \<times> trace" where
  "read_register dev c i h = Port16Bit_Read dev (register_data c) (Port16Bit_Write (register_address c) i h)"

definition align16 :: "u32 \<Rightarrow> u32" where "align16 a = (a + 15) AND NOT 0xF"

text \<open>\<open>sendBuffers\<close> is declared as \<open>[2*1024+15][8]\<close>: its elements are 8 bytes apart.\<close>

definition buffer_address :: "u32 \<Rightarrow> nat \<Rightarrow> u32" where
  "buffer_address base i = align16 (base + 8 * of_nat i)"

definition mac_address :: "device \<Rightarrow> u16 \<Rightarrow> trace \<Rightarrow> 64 word \<times> trace" where
  "mac_address dev base h =
     (let (r0, h) = Port16Bit_Read dev base h;
          (r1, h) = Port16Bit_Read dev base h;
          (r2, h) = Port16Bit_Read dev (base + 0x02) h;
          (r3, h) = Port16Bit_Read dev (base + 0x02) h;
          (r4, h) = Port16Bit_Read dev (base + 0x04) h;
          (r5, h) = Port16Bit_Read dev (base + 0x04) h
      in (push_bit 40 (ucast (r5 div 256)) OR push_bit 32 (ucast (r4 mod 256)) OR
          push_bit 24 (ucast (r3 div 256)) OR push_bit 16 (ucast (r2 mod 256)) OR
          push_bit 8 (ucast (r1 div 256)) OR ucast (r0 mod 256), h))"

text \<open>
  The constructor; \<open>junk\<close> is what the memory of the descriptors held, \<open>interrupt\<close> and \<open>portBase\<close> come
  from the PCI descriptor and \<open>off\<close> is the first vector of the hardware interrupts.
\<close>

definition new_am79c973 ::
  "device \<Rightarrow> card_layout \<Rightarrow> u32 \<Rightarrow> u32 \<Rightarrow> u16 \<Rightarrow> BufferDescriptor list \<Rightarrow> trace \<Rightarrow> am79c973 \<times> trace" where
  "new_am79c973 dev lay portBase interrupt off junk h =
     (let (MAC, h) = mac_address dev (ucast portBase) h;
          sends = map (\<lambda>i. \<lparr>address = buffer_address (sendBuffers_at lay) i, flags = 0x7FF OR 0xF000,
                            flags2 = 0, avail = 0\<rparr>) [0..<8];
          recvs = map (\<lambda>i. (junk ! i)\<lparr>address := buffer_address (recvBuffers_at lay) i,
                            flags := 0xF7FF OR 0x80000000, flags2 := 0\<rparr>) [0..<8];
          c = \<lparr>card_ports = ucast portBase, card_vector = ucast (interrupt + ucast off),
               initBlock = \<lparr>mode = 0, numSendBuffers = 3, numRecvBuffers = 3, physicalAddress = MAC,
                 logicalAddress = 0, recvBufferDescrAddress = align16 (recvBufferDescrMemory_at lay),
                 sendBufferDescrAddress = align16 (sendBufferDescrMemory_at lay)\<rparr>,
               sendBufferDescr = sends, currentSendBuffer = 0, recvBufferDescr = recvs, currentRecvBuffer = 0\<rparr>;
          h = Port16Bit_Write (register_address c) 20 h;
          h = Port16Bit_Write (bus_control c) 0x102 h;
          h = write_register c 0 0x04 h;
          h = write_register c 1 (ucast (initBlock_at lay AND 0xFFFF)) h;
          h = write_register c 2 (ucast (drop_bit 16 (initBlock_at lay) AND 0xFFFF)) h
      in (c, h))"

definition card_Activate :: "device \<Rightarrow> am79c973 \<Rightarrow> trace \<Rightarrow> trace" where
  "card_Activate dev c h =
     (let h = write_register c 0 0x41 h;
          (temp, h) = read_register dev c 4 h;
          h = write_register c 4 (temp OR 0xC00) h
      in write_register c 0 0x42 h)"

definition card_Reset :: "device \<Rightarrow> am79c973 \<Rightarrow> trace \<Rightarrow> nat \<times> trace" where
  "card_Reset dev c h = (10, Port16Bit_Write (reset_port c) 0 (snd (Port16Bit_Read dev (reset_port c) h)))"

text \<open>The loop that copies a frame, from its last byte to its first.\<close>

fun copy_frame :: "nat \<Rightarrow> u32 \<Rightarrow> u32 \<Rightarrow> ram \<Rightarrow> ram" where
  "copy_frame 0 src dst mem = mem"
| "copy_frame (Suc n) src dst mem =
     copy_frame n src dst (mem(dst + of_nat n := mem (src + of_nat n)))"

definition Send :: "u32 \<Rightarrow> int \<Rightarrow> am79c973 \<times> ram \<times> trace \<Rightarrow> am79c973 \<times> ram \<times> trace" where
  "Send buffer len st =
     (case st of (c, mem, h) \<Rightarrow>
      let i = currentSendBuffer c;
          len = (if 1518 < len then 1518 else len);
          d = sendBufferDescr c ! i;
          mem = copy_frame (nat len) buffer (address d) mem;
          d = d\<lparr>avail := 0, flags2 := 0, flags := 0x8300F000 OR (ucast (word_of_int (- len) AND 0xFFF :: u16))\<rparr>
      in (c\<lparr>currentSendBuffer := (i + 1) mod 8, sendBufferDescr := (sendBufferDescr c)[i := d]\<rparr>, mem,
          write_register c 0 0x48 h))"

definition print_frame :: "ram \<Rightarrow> u32 \<Rightarrow> u32 \<Rightarrow> console \<Rightarrow> console" where
  "print_frame mem buffer len con =
     fold (\<lambda>i con. printf '' '' (printfHex (mem (buffer + of_nat i)) con)) [0..<unat len] con"

definition frame_size :: "u32 \<Rightarrow> u32" where
  "frame_size fl = (let len = fl AND 0xFFF in if 64 < len then len - 4 else len)"

definition show_received :: "ram \<Rightarrow> BufferDescriptor \<Rightarrow> console \<Rightarrow> console" where
  "show_received mem d con =
     (if flags d AND 0x40000000 = 0 \<and> flags d AND 0x03000000 = 0x03000000
      then print_frame mem (address d) (frame_size (flags d)) con else con)"

text \<open>The descriptors the card has filled; each is given back to it, so the loop ends.\<close>

definition unowned :: "am79c973 \<Rightarrow> nat" where
  "unowned c = length (filter (\<lambda>d. flags d AND 0x80000000 = 0) (recvBufferDescr c))"

definition give_back :: "am79c973 \<Rightarrow> am79c973" where
  "give_back c =
     (let i = currentRecvBuffer c in
      c\<lparr>recvBufferDescr := (recvBufferDescr c)[i := (recvBufferDescr c ! i)\<lparr>flags2 := 0, flags := 0x8000F7FF\<rparr>],
        currentRecvBuffer := (i + 1) mod 8\<rparr>)"

lemma give_back_less:
  assumes "currentRecvBuffer c < length (recvBufferDescr c)"
    and "flags (recvBufferDescr c ! currentRecvBuffer c) AND 0x80000000 = 0"
  shows "unowned (give_back c) < unowned c"
proof -
  let ?P = "\<lambda>d. flags d AND 0x80000000 = 0"
  have "(0x8000F7FF AND 0x80000000 :: u32) \<noteq> 0" by simp
  then have "count_if ?P (recvBufferDescr (give_back c)) + 1 = count_if ?P (recvBufferDescr c)"
    using count_if_update [OF assms(1), of ?P "(recvBufferDescr c ! currentRecvBuffer c)\<lparr>flags2 := 0, flags := 0x8000F7FF\<rparr>"] assms(2)
    by (simp add: give_back_def Let_def)
  then show ?thesis by (simp add: unowned_def count_if_def)
qed

function receive_loop :: "ram \<Rightarrow> am79c973 \<times> console \<Rightarrow> am79c973 \<times> console" where
  "receive_loop mem (c, con) =
     (if currentRecvBuffer c < length (recvBufferDescr c) \<and>
         flags (recvBufferDescr c ! currentRecvBuffer c) AND 0x80000000 = 0
      then receive_loop mem (give_back c, show_received mem (recvBufferDescr c ! currentRecvBuffer c) con)
      else (c, con))"
  by pat_completeness auto
termination by (relation "measure (\<lambda>(_, c, _). unowned c)") (simp_all add: give_back_less)

definition Receive :: "ram \<Rightarrow> am79c973 \<times> console \<Rightarrow> am79c973 \<times> console" where
  "Receive mem st = receive_loop mem (fst st, printf ''AMD am79c973 DATA RECEIVED\<newline>'' (snd st))"

definition card_HandleInterrupt ::
  "device \<Rightarrow> ram \<Rightarrow> u32 \<Rightarrow> am79c973 \<times> console \<times> trace \<Rightarrow> u32 \<times> am79c973 \<times> console \<times> trace" where
  "card_HandleInterrupt dev mem esp st =
     (case st of (c, con, h) \<Rightarrow>
      let con = printf ''INTERRUPT FROM AMD am79c973\<newline>'' con;
          (temp, h) = read_register dev c 0 h;
          con = (if temp AND 0x8000 = 0x8000 then printf ''AMD am79c973 ERROR\<newline>'' con else con);
          con = (if temp AND 0x2000 = 0x2000 then printf ''AMD am79c973 COLLISION ERROR\<newline>'' con else con);
          con = (if temp AND 0x1000 = 0x1000 then printf ''AMD am79c973 MISSED FRAME\<newline>'' con else con);
          con = (if temp AND 0x0800 = 0x0800 then printf ''AMD am79c973 MEMORY ERROR\<newline>'' con else con);
          (c, con) = (if temp AND 0x0400 = 0x0400 then Receive mem (c, con) else (c, con));
          con = (if temp AND 0x0200 = 0x0200 then printf ''AMD am79c973 DATA SENT\<newline>'' con else con);
          h = write_register c 0 temp h;
          con = (if temp AND 0x0100 = 0x0100 then printf ''AMD am79c973 INIT DONE\<newline>'' con else con)
      in (esp, c, con, h))"

end
