(* ===== verification/Kernel_Net_Properties.thy ===== *)
theory Kernel_Net_Properties
  imports Kernel_Net
begin

text \<open>
  Frames on their way through the rings of the network driver: what \<open>Send\<close> hands to the card, and
  that \<open>Receive\<close> takes the filled descriptors in order and gives every one back.
\<close>

unbundle bit_operations_syntax

subsection \<open>Sending\<close>

lemma offset_inj:
  assumes "i < n" and "j < n" and "n \<le> 2 ^ 32" and "a + of_nat i = a + (of_nat j :: u32)"
  shows "i = j"
proof -
  have "unat (of_nat i :: u32) = unat (of_nat j :: u32)" using assms(4) by simp
  then show ?thesis using assms(1-3) by (simp add: unat_of_nat)
qed

lemma copy_frame_other:
  "(\<And>i. i < n \<Longrightarrow> a \<noteq> dst + of_nat i) \<Longrightarrow> copy_frame n src dst mem a = mem a"
proof (induction n arbitrary: mem)
  case (Suc n)
  then have "a \<noteq> dst + of_nat n" "\<And>i. i < n \<Longrightarrow> a \<noteq> dst + of_nat i" by auto
  with Suc.IH show ?case by simp
qed simp

lemma copy_frame_at:
  assumes "i < n" and "n \<le> 2 ^ 32"
    and "\<And>i j. i < n \<Longrightarrow> j < n \<Longrightarrow> src + of_nat i \<noteq> dst + of_nat j"
  shows "copy_frame n src dst mem (dst + of_nat i) = mem (src + of_nat i)"
  using assms
proof (induction n arbitrary: mem)
  case (Suc n)
  let ?mem = "mem(dst + of_nat n := mem (src + of_nat n))"
  show ?case
  proof (cases "i = n")
    case True
    have "dst + of_nat n \<noteq> dst + of_nat k" if "k < n" for k
      using offset_inj [of n "Suc n" k dst] that Suc.prems(2) by auto
    then have "copy_frame n src dst ?mem (dst + of_nat n) = ?mem (dst + of_nat n)"
      by (rule copy_frame_other)
    then show ?thesis using True by simp
  next
    case False
    then have "i < n" using Suc.prems(1) by simp
    then have "copy_frame n src dst ?mem (dst + of_nat i) = ?mem (src + of_nat i)"
      using Suc.prems(2,3) by (intro Suc.IH) auto
    then show ?thesis using Suc.prems(3) [of i n] Suc.prems(1) by simp
  qed
qed simp

lemma length_field:
  assumes "0 < len" and "len \<le> 1518"
  shows "unat ((0x8300F000 OR (ucast (word_of_int (- len) AND 0xFFF :: u16)) :: u32) AND 0xFFF) = nat (4096 - len)"
proof -
  let ?w = "word_of_int (- len) :: u16"
  have m: "(0xFFF :: u16) = mask 12" "(0xFFF :: u32) = mask 12" by (simp_all add: mask_eq_exp_minus_1)
  have "(ucast (?w AND mask 12) :: u32) AND mask 12 = ucast (?w AND mask 12)"
    by (rule bit_word_eqI) (auto simp: bit_simps)
  moreover have "(0x8300F000 :: u32) AND 0xFFF = 0" by simp
  ultimately have "(0x8300F000 OR (ucast (?w AND 0xFFF)) :: u32) AND 0xFFF = ucast (?w AND mask 12)"
    by (simp only: bit.conj_disj_distrib2 m or.left_neutral)
  moreover have "uint (ucast (?w AND mask 12) :: u32) = 4096 - len"
  proof -
    have low: "uint (ucast (w AND mask 12) :: u32) = take_bit 12 (uint w)" for w :: u16
      by (simp add: unsigned_ucast_eq unsigned_take_bit_eq take_bit_take_bit flip: take_bit_eq_mask)
    have "uint ?w = take_bit 16 (- len)" unfolding uint_word_of_int_eq by simp
    with low [of ?w] have "uint (ucast (?w AND mask 12) :: u32) = take_bit 12 (take_bit 16 (- len))" by (simp only:)
    also have "\<dots> = take_bit 12 (- len)" by (simp add: take_bit_take_bit del: take_bit_minus)
    also have "\<dots> = (- len) mod 4096" by (simp add: take_bit_eq_mod)
    also have "\<dots> = 4096 - len"
      using mod_pos_pos_trivial [of "4096 - len" 4096] mod_add_self2 [of "- len" 4096] assms by (simp add: ac_simps)
    finally show ?thesis .
  qed
  ultimately show ?thesis by (simp add: nat_uint_eq [symmetric])
qed

definition ring_ok :: "am79c973 \<Rightarrow> bool" where
  "ring_ok c =
     (length (sendBufferDescr c) = 8 \<and> currentSendBuffer c < 8 \<and>
      length (recvBufferDescr c) = 8 \<and> currentRecvBuffer c < 8)"

text \<open>\<open>Send\<close> copies the frame, cut to 1518 bytes, to the buffer of the current descriptor, changes no
  other byte, stores minus its length in the descriptor and moves on in the ring, and tells the card.
\<close>

theorem send_stages_frame:
  assumes "ring_ok c" and "0 < len" and "Send buffer len (c, mem, h) = (c', mem', h')"
    and "\<And>i j. i < nat (min len 1518) \<Longrightarrow> j < nat (min len 1518) \<Longrightarrow>
      buffer + of_nat i \<noteq> address (sendBufferDescr c ! currentSendBuffer c) + of_nat j"
  defines "n \<equiv> nat (min len 1518)" and "i \<equiv> currentSendBuffer c"
  shows "(\<forall>k < n. mem' (address (sendBufferDescr c' ! i) + of_nat k) = mem (buffer + of_nat k)) \<and>
    (\<forall>a. (\<forall>k < n. a \<noteq> address (sendBufferDescr c' ! i) + of_nat k) \<longrightarrow> mem' a = mem a) \<and>
    address (sendBufferDescr c' ! i) = address (sendBufferDescr c ! i) \<and>
    unat (flags (sendBufferDescr c' ! i) AND 0xFFF) = 4096 - n \<and>
    (\<forall>j < 8. j \<noteq> i \<longrightarrow> sendBufferDescr c' ! j = sendBufferDescr c ! j) \<and>
    currentSendBuffer c' = (i + 1) mod 8 \<and> ring_ok c' \<and>
    h' = h @ [Out16 (register_address c) 0, Out16 (register_data c) 0x48]"
proof -
  let ?d = "sendBufferDescr c ! i"
  have small: "n \<le> 2 ^ 32" by (simp add: n_def)
  have len: "(if 1518 < len then 1518 else len) = min len 1518" by simp
  have mem': "mem' = copy_frame n buffer (address ?d) mem"
    and c': "c' = c\<lparr>currentSendBuffer := (i + 1) mod 8, sendBufferDescr := (sendBufferDescr c)
      [i := ?d\<lparr>avail := 0, flags2 := 0,
        flags := 0x8300F000 OR (ucast (word_of_int (- min len 1518) AND 0xFFF :: u16))\<rparr>]\<rparr>"
    and h': "h' = h @ [Out16 (register_address c) 0, Out16 (register_data c) 0x48]"
    using assms(3) unfolding Send_def Let_def len n_def i_def by (simp_all add: write_register_def Port16Bit_Write_def)
  have i: "i < length (sendBufferDescr c)" using assms(1) by (simp add: ring_ok_def i_def)
  then have d': "address (sendBufferDescr c' ! i) = address ?d"
    "flags (sendBufferDescr c' ! i) = 0x8300F000 OR (ucast (word_of_int (- min len 1518) AND 0xFFF :: u16))"
    by (simp_all add: c')
  have "unat (flags (sendBufferDescr c' ! i) AND 0xFFF) = nat (4096 - min len 1518)"
    unfolding d'(2) using assms(2) by (intro length_field) auto
  also have "\<dots> = 4096 - n" using assms(2) by (simp add: n_def nat_diff_distrib)
  finally show ?thesis
    using copy_frame_at [OF _ small assms(4) [folded n_def i_def]] copy_frame_other [of n _ "address ?d" buffer mem]
      assms(1) d'(1) h' by (auto simp: mem' c' ring_ok_def i_def)
qed

definition idle_card :: am79c973 where
  "idle_card =
     \<lparr>card_ports = 0x300, card_vector = 0x2B,
      initBlock = \<lparr>mode = 0, numSendBuffers = 3, numRecvBuffers = 3, physicalAddress = 0, logicalAddress = 0,
        recvBufferDescrAddress = 0x100, sendBufferDescrAddress = 0x200\<rparr>,
      sendBufferDescr = map (\<lambda>i. \<lparr>address = buffer_address 0x4000 i, flags = 0xF7FF, flags2 = 0, avail = 0\<rparr>) [0..<8],
      currentSendBuffer = 0,
      recvBufferDescr = map (\<lambda>i. \<lparr>address = buffer_address 0x9000 i, flags = 0x8000F7FF, flags2 = 0, avail = 0\<rparr>) [0..<8],
      currentRecvBuffer = 0\<rparr>"

theorem send_stages_frame_witness:
  "\<exists>c' mem' h'. Send 0x100 3 (idle_card, (\<lambda>_. 0)(0x100 := 7, 0x101 := 8, 0x102 := 9), []) = (c', mem', h') \<and>
     mem' (0x4000 + of_nat 2) = 9 \<and> currentSendBuffer c' = 1"
proof -
  let ?mem = "(\<lambda>_. 0)(0x100 := 7, 0x101 := 8, 0x102 := 9) :: ram"
  obtain c' mem' h' where r: "Send 0x100 3 (idle_card, ?mem, []) = (c', mem', h')"
    by (cases "Send 0x100 3 (idle_card, ?mem, [])")
  have ok: "ring_ok idle_card" "currentSendBuffer idle_card = 0" by (simp_all add: ring_ok_def idle_card_def)
  have a: "address (sendBufferDescr idle_card ! 0) = 0x4000"
    by (simp add: idle_card_def buffer_address_def align16_def)
  have apart: "(0x100 :: u32) + of_nat i \<noteq> 0x4000 + of_nat j" if "i < 3" "j < 3" for i j :: nat
  proof -
    have "i \<in> {0, 1, 2}" "j \<in> {0, 1, 2}" using that by auto
    then show ?thesis by auto
  qed
  have d: "0x100 + of_nat i \<noteq> address (sendBufferDescr idle_card ! currentSendBuffer idle_card) + of_nat j"
    if "i < nat (min 3 1518)" "j < nat (min 3 1518)" for i j
    using that by (simp add: ok(2) a apart)
  have n: "nat (min 3 1518) = 3" by simp
  note staged = send_stages_frame [OF ok(1) zero_less_numeral r d]
  have addr: "address (sendBufferDescr c' ! 0) = 0x4000"
    using staged [THEN conjunct2, THEN conjunct2, THEN conjunct1] by (simp only: ok(2) a)
  have next_buffer: "currentSendBuffer c' = 1"
    using staged [THEN conjunct2, THEN conjunct2, THEN conjunct2, THEN conjunct2, THEN conjunct2, THEN conjunct1]
    by (simp only: ok(2)) simp
  have "mem' (0x4000 + of_nat 2) = ?mem (0x100 + of_nat 2)"
    using staged [THEN conjunct1, THEN spec, of 2] by (simp only: ok(2) n addr)
  then show ?thesis using r next_buffer by simp
qed

subsection \<open>Receiving\<close>

definition ready :: "BufferDescriptor \<Rightarrow> bool" where
  "ready d = (flags d AND 0x80000000 = 0)"

definition returned :: "BufferDescriptor \<Rightarrow> BufferDescriptor" where
  "returned d = d\<lparr>flags2 := 0, flags := 0x8000F7FF\<rparr>"

text \<open>The receive ring, from the current descriptor on.\<close>

definition recv_ring :: "am79c973 \<Rightarrow> BufferDescriptor list" where
  "recv_ring c = rotate (currentRecvBuffer c) (recvBufferDescr c)"

lemma rotate_update:
  assumes "i < length xs"
  shows "rotate (Suc i mod length xs) (xs[i := y]) = tl (rotate i xs) @ [y]"
proof -
  have r: "rotate i xs = drop i xs @ take i xs" using assms by (simp add: rotate_drop_take)
  have t: "tl (rotate i xs) = drop (Suc i) xs @ take i xs" using assms by (simp add: r Cons_nth_drop_Suc [symmetric])
  show ?thesis
  proof (cases "Suc i = length xs")
    case True
    then show ?thesis using assms unfolding t by (simp add: upd_conv_take_nth_drop)
  next
    case False
    then have "Suc i < length xs" using assms by simp
    then show ?thesis unfolding t by (simp add: rotate_drop_take take_Suc_conv_app_nth)
  qed
qed

lemma recv_ring_hd:
  assumes "ring_ok c"
  shows "hd (recv_ring c) = recvBufferDescr c ! currentRecvBuffer c" and "recv_ring c \<noteq> []"
proof -
  have "recvBufferDescr c \<noteq> []" using assms by (auto simp: ring_ok_def)
  then show "hd (recv_ring c) = recvBufferDescr c ! currentRecvBuffer c" "recv_ring c \<noteq> []"
    using assms by (simp_all add: recv_ring_def ring_ok_def hd_rotate_conv_nth)
qed

lemma give_back_ring:
  assumes "ring_ok c"
  shows "recv_ring (give_back c) = tl (recv_ring c) @ [returned (hd (recv_ring c))]" and "ring_ok (give_back c)"
proof -
  have i: "currentRecvBuffer c < length (recvBufferDescr c)" "length (recvBufferDescr c) = 8"
    using assms by (simp_all add: ring_ok_def)
  note hd = recv_ring_hd(1) [OF assms]
  then show "recv_ring (give_back c) = tl (recv_ring c) @ [returned (hd (recv_ring c))]"
    using rotate_update [OF i(1)] i(2) by (simp add: recv_ring_def give_back_def returned_def Let_def)
  show "ring_ok (give_back c)" using assms by (simp add: ring_ok_def give_back_def Let_def)
qed

lemma not_ready_returned [simp]: "\<not> ready (returned d)"
  by (simp add: ready_def returned_def)

lemma receive_loop_ring:
  assumes "ring_ok c" and "recv_ring c = ds @ rest" and "\<forall>d \<in> set ds. ready d"
    and "rest = [] \<or> \<not> ready (hd rest)" and "rest \<noteq> [] \<or> ds \<noteq> []"
  shows "\<exists>c'. receive_loop mem (c, con) = (c', fold (show_received mem) ds con) \<and>
    recv_ring c' = rest @ map returned ds \<and> ring_ok c'"
  using assms
proof (induction ds arbitrary: c con rest)
  case Nil
  have "\<not> ready (recvBufferDescr c ! currentRecvBuffer c)"
    using Nil.prems recv_ring_hd(1) [OF Nil.prems(1)] by auto
  then show ?case using Nil.prems by (subst receive_loop.simps) (simp add: ready_def)
next
  case (Cons d ds)
  have d: "recvBufferDescr c ! currentRecvBuffer c = d" using Cons.prems(2) recv_ring_hd(1) [OF Cons.prems(1)] by simp
  have eq: "recv_ring (give_back c) = ds @ (rest @ [returned d])"
    using give_back_ring(1) [OF Cons.prems(1)] Cons.prems(2) by simp
  have stop: "rest @ [returned d] = [] \<or> \<not> ready (hd (rest @ [returned d]))"
    using Cons.prems(4) by (cases rest) auto
  have "\<forall>d \<in> set ds. ready d" using Cons.prems(3) by simp
  from Cons.IH [OF give_back_ring(2) [OF Cons.prems(1)] eq this stop, of "show_received mem d con"]
  obtain c' where c': "receive_loop mem (give_back c, show_received mem d con) =
      (c', fold (show_received mem) ds (show_received mem d con))"
    "recv_ring c' = (rest @ [returned d]) @ map returned ds" "ring_ok c'"
    by blast
  have "receive_loop mem (c, con) = receive_loop mem (give_back c, show_received mem d con)"
    using Cons.prems(1,3) by (subst receive_loop.simps) (simp add: d ready_def ring_ok_def)
  then show ?case using c' by simp
qed



text \<open>A card whose first receive descriptor holds a frame of 68 bytes.\<close>

definition filled_card :: am79c973 where
  "filled_card = idle_card\<lparr>recvBufferDescr := (recvBufferDescr idle_card)
     [0 := \<lparr>address = 0x9000, flags = 0x03000044, flags2 = 0, avail = 0\<rparr>]\<rparr>"


text \<open>
  The send buffers are 8 bytes apart where they should be 2063: a frame of one buffer is overwritten
  by the next one, here completely.
\<close>

theorem next_frame_overwrites:
  "\<exists>c mem h. Send 0x101 1 (Send 0x100 1 (idle_card\<lparr>currentSendBuffer := 1\<rparr>, (\<lambda>_. 0)(0x100 := 7, 0x101 := 8), [])) =
     (c, mem, h) \<and> mem (address (sendBufferDescr c ! 1)) = 8"
proof -
  have [simp]: "buffer_address 0x4000 1 = 0x4010" "buffer_address 0x4000 2 = 0x4010"
    by (simp_all add: buffer_address_def align16_def)
  have [simp]: "length (sendBufferDescr idle_card) = 8" "address (sendBufferDescr idle_card ! 1) = 0x4010"
    "address (sendBufferDescr idle_card ! Suc (Suc 0)) = 0x4010" "address (sendBufferDescr idle_card ! Suc 0) = 0x4010"
    by (simp_all add: idle_card_def numeral_2_eq_2 buffer_address_def align16_def)
  show ?thesis by (simp add: Send_def Let_def nth_list_update)
qed

end
