(* ===== verification/Kernel_Pci.thy ===== *)
theory Kernel_Pci
  imports Kernel_Net Kernel_Drivers Kernel_Memory
begin

text \<open>
  The PCI controller of the kernel (os01, \<open>pci.cpp\<close>): the configuration registers behind the two
  ports, and the scan of the buses that reports every function it finds and creates its driver. The
  code returns members it has not set; what memory held there is a function of the accesses so far.
\<close>

unbundle bit_operations_syntax

definition dataPort :: port where "dataPort = 0xCFC"
definition commandPort :: port where "commandPort = 0xCF8"

definition config_id :: "u16 \<Rightarrow> u16 \<Rightarrow> u16 \<Rightarrow> u32 \<Rightarrow> u32" where
  "config_id bus device function_nr registeroffset =
     push_bit 31 1 OR push_bit 16 (ucast bus AND 0xFF) OR push_bit 11 (ucast device AND 0x1F) OR
     push_bit 8 (ucast function_nr AND 0x07) OR (registeroffset AND 0xFC)"

definition pci_Read :: "device \<Rightarrow> u16 \<Rightarrow> u16 \<Rightarrow> u16 \<Rightarrow> u32 \<Rightarrow> trace \<Rightarrow> u32 \<times> trace" where
  "pci_Read dev bus device function_nr registeroffset h =
     (let h = Port32Bit_Write commandPort (config_id bus device function_nr registeroffset) h;
          (result, h) = Port32Bit_Read dev dataPort h
      in (drop_bit (unat (8 * (registeroffset mod 4))) result, h))"

definition pci_Write :: "u16 \<Rightarrow> u16 \<Rightarrow> u16 \<Rightarrow> u32 \<Rightarrow> u32 \<Rightarrow> trace \<Rightarrow> trace" where
  "pci_Write bus device function_nr registeroffset v h =
     Port32Bit_Write dataPort v (Port32Bit_Write commandPort (config_id bus device function_nr registeroffset) h)"

definition DeviceHasFunctions :: "device \<Rightarrow> u16 \<Rightarrow> u16 \<Rightarrow> trace \<Rightarrow> bool \<times> trace" where
  "DeviceHasFunctions dev bus device h =
     (let (v, h) = pci_Read dev bus device 0 0x0E h in (v AND push_bit 7 1 \<noteq> 0, h))"

record pci_descriptor =
  portBase :: u32
  interrupt :: u32
  bus :: u16
  device :: u16
  function_nr :: u16
  vendor_id :: u16
  device_id :: u16
  class_id :: byte
  subclass_id :: byte
  interface_id :: byte
  revision :: byte

definition GetDeviceDescriptor ::
  "device \<Rightarrow> (trace \<Rightarrow> u32) \<Rightarrow> u16 \<Rightarrow> u16 \<Rightarrow> u16 \<Rightarrow> trace \<Rightarrow> pci_descriptor \<times> trace" where
  "GetDeviceDescriptor dev junk_port b d f h0 =
     (let (vendor, h) = pci_Read dev b d f 0x00 h0;
          (dev_id, h) = pci_Read dev b d f 0x02 h;
          (cls, h) = pci_Read dev b d f 0x0b h;
          (subcls, h) = pci_Read dev b d f 0x0a h;
          (iface, h) = pci_Read dev b d f 0x09 h;
          (rev_id, h) = pci_Read dev b d f 0x08 h;
          (intr, h) = pci_Read dev b d f 0x3c h
      in (\<lparr>portBase = junk_port h0, interrupt = intr, bus = b, device = d, function_nr = f,
           vendor_id = ucast vendor, device_id = ucast dev_id, class_id = ucast cls, subclass_id = ucast subcls,
           interface_id = ucast iface, revision = ucast rev_id\<rparr>, h))"

datatype BaseAddressRegisterType = MemoryMapping | InputOutput

record BaseAddressRegister =
  prefetchable :: bool
  bar_address :: u32
  bar_size :: u32
  bar_type :: BaseAddressRegisterType

definition GetBaseAddressRegister ::
  "device \<Rightarrow> (trace \<Rightarrow> BaseAddressRegister) \<Rightarrow> u16 \<Rightarrow> u16 \<Rightarrow> u16 \<Rightarrow> u16 \<Rightarrow> trace \<Rightarrow> BaseAddressRegister \<times> trace" where
  "GetBaseAddressRegister dev junk b d f bar h0 =
     (let (header, h) = pci_Read dev b d f 0x0E h0;
          headertype = header AND 0x7F;
          maxBARs = sint (6 - 4 * headertype)
      in if maxBARs \<le> uint bar then (junk h0, h)
         else (let (bar_value, h) = pci_Read dev b d f (0x10 + 4 * ucast bar) h
               in if bar_value AND 1 \<noteq> 0
                  then ((junk h0)\<lparr>bar_type := InputOutput, bar_address := bar_value AND NOT 3, prefetchable := False\<rparr>, h)
                  else ((junk h0)\<lparr>bar_type := MemoryMapping\<rparr>, h)))"

text \<open>
  What the scan changes: the trace of port accesses, the screen, the heap, the cards that were
  constructed, by address, the table of interrupt handlers and the list of drivers (both of pointers).
\<close>

record pci_state =
  accesses :: trace
  pci_console :: console
  heap :: MemoryManager
  cards :: "u32 \<Rightarrow> am79c973 option"
  pci_handlers :: "byte \<Rightarrow> u32"
  driverManager :: "u32 driver_manager"

text \<open>What the compiler and the memory fix: the size of the card object, where its members lie, and junk.\<close>

record pci_env =
  dev_of :: device
  junk_port :: "trace \<Rightarrow> u32"
  junk_bar :: "trace \<Rightarrow> BaseAddressRegister"
  junk_descr :: "trace \<Rightarrow> BufferDescriptor list"
  sizeof_card :: u32
  layout_at :: "u32 \<Rightarrow> card_layout"
  hardware_offset :: u16

definition pci_print :: "string \<Rightarrow> pci_state \<Rightarrow> pci_state" where
  "pci_print t s = s\<lparr>pci_console := printf t (pci_console s)\<rparr>"

definition pci_print_byte :: "byte \<Rightarrow> pci_state \<Rightarrow> pci_state" where
  "pci_print_byte b s = s\<lparr>pci_console := printfHex b (pci_console s)\<rparr>"

definition construct_card :: "pci_env \<Rightarrow> u32 \<Rightarrow> pci_descriptor \<Rightarrow> pci_state \<Rightarrow> pci_state" where
  "construct_card env p d s =
     (let (c, h) = new_am79c973 (dev_of env) (layout_at env p) (portBase d) (interrupt d) (hardware_offset env)
            (junk_descr env (accesses s)) (accesses s)
      in s\<lparr>accesses := h, cards := (cards s)(p \<mapsto> c),
           pci_handlers := (pci_handlers s)(card_vector c := p)\<rparr>)"

definition GetDriver :: "pci_env \<Rightarrow> pci_descriptor \<Rightarrow> pci_state \<Rightarrow> (u32 \<times> pci_state) option" where
  "GetDriver env d s =
     (if vendor_id d = 0x1022 \<and> device_id d = 0x2000
      then (case malloc (sizeof_card env) (heap s) of
              None \<Rightarrow> None
            | Some (driver, mm) \<Rightarrow>
                (let s = s\<lparr>heap := mm\<rparr>;
                     s = (if driver \<noteq> 0 then construct_card env driver d s else s)
                 in Some (driver, pci_print ''AMD am79c973 '' s)))
      else if class_id d = 0x03 \<and> subclass_id d = 0x00 then Some (0, pci_print ''VGA '' s)
      else Some (0, s))"

subsection \<open>The scan\<close>

definition scan_bars :: "pci_env \<Rightarrow> pci_descriptor \<Rightarrow> trace \<Rightarrow> pci_descriptor \<times> trace" where
  "scan_bars env d h =
     fold (\<lambda>barNum (d, h).
        let (bar, h) = GetBaseAddressRegister (dev_of env) (junk_bar env) (bus d) (device d) (function_nr d) barNum h
        in (if bar_address bar \<noteq> 0 \<and> bar_type bar = InputOutput then d\<lparr>portBase := bar_address bar\<rparr> else d, h))
      [0, 1, 2, 3, 4, 5] (d, h)"

definition report :: "pci_descriptor \<Rightarrow> pci_state \<Rightarrow> pci_state" where
  "report d s =
     (let s = pci_print_byte (ucast (bus d AND 0xFF)) (pci_print ''PCI BUS '' s);
          s = pci_print_byte (ucast (device d AND 0xFF)) (pci_print '', DEVICE '' s);
          s = pci_print_byte (ucast (function_nr d AND 0xFF)) (pci_print '', FUNCTION '' s);
          s = pci_print_byte (ucast (drop_bit 8 (vendor_id d AND 0xFF00))) (pci_print '' = VENDOR '' s);
          s = pci_print_byte (ucast (vendor_id d AND 0xFF)) s;
          s = pci_print_byte (ucast (drop_bit 8 (device_id d AND 0xFF00))) (pci_print '', DEVICE '' s);
          s = pci_print_byte (ucast (device_id d AND 0xFF)) s
      in pci_print ''\<newline>'' s)"

definition scan_function :: "pci_env \<Rightarrow> u16 \<Rightarrow> u16 \<Rightarrow> u16 \<Rightarrow> pci_state \<Rightarrow> pci_state option" where
  "scan_function env b d f s =
     (let (ds, h) = GetDeviceDescriptor (dev_of env) (junk_port env) b d f (accesses s)
      in if vendor_id ds = 0x0000 \<or> vendor_id ds = 0xFFFF then Some (s\<lparr>accesses := h\<rparr>)
         else (let (ds, h) = scan_bars env ds h in
           case GetDriver env ds (s\<lparr>accesses := h\<rparr>) of
             None \<Rightarrow> None
           | Some (driver, s) \<Rightarrow>
               if driver \<noteq> 0
               then map_option (\<lambda>dm. report ds (s\<lparr>driverManager := dm\<rparr>)) (AddDriver driver (driverManager s))
               else Some (report ds s)))"

definition scan_device :: "pci_env \<Rightarrow> u16 \<Rightarrow> u16 \<Rightarrow> pci_state \<Rightarrow> pci_state option" where
  "scan_device env b d s =
     (let (many, h) = DeviceHasFunctions (dev_of env) b d (accesses s);
          numFunctions = (if many then 8 else 1)
      in fold_option (scan_function env b d) (map of_nat [0..<numFunctions]) (s\<lparr>accesses := h\<rparr>))"

definition SelectDrivers :: "pci_env \<Rightarrow> pci_state \<Rightarrow> pci_state option" where
  "SelectDrivers env s =
     fold_option (\<lambda>b. fold_option (scan_device env b) (map of_nat [0..<32])) (map of_nat [0..<8]) s"

end
