(* ===== verification/Kernel_Pci_Properties.thy ===== *)
theory Kernel_Pci_Properties
  imports Kernel_Pci Kernel_Memory_Properties
begin

text \<open>
  The PCI scan: the address of a configuration register determines the function and the register, the
  scan reports exactly the functions that are present, and every driver it adds is an object.
\<close>

unbundle bit_operations_syntax

subsection \<open>Addresses of configuration registers\<close>

lemma config_masks: "(0xFF :: u32) = mask 8" "(0x1F :: u32) = mask 5" "(7 :: u32) = mask 3"
  "(0xFC :: u32) = push_bit 2 (mask 6)" "(0xFF :: u16) = mask 8" "(0x1F :: u16) = mask 5" "(7 :: u16) = mask 3"
  by (simp_all add: mask_eq_exp_minus_1)

lemma config_fields:
  "drop_bit 16 (config_id b d f r) AND 0xFF = ucast b AND 0xFF"
  "drop_bit 11 (config_id b d f r) AND 0x1F = ucast d AND 0x1F"
  "drop_bit 8 (config_id b d f r) AND 7 = ucast f AND 7"
  "config_id b d f r AND 0xFC = r AND 0xFC"
proof -
  define e where "e = (push_bit 31 1 :: u32)"
  have e: "bit e n \<longleftrightarrow> n = 31" for n unfolding e_def bit_push_bit_iff by (auto simp: bit_1_iff)
  show "drop_bit 16 (config_id b d f r) AND 0xFF = ucast b AND 0xFF"
    "drop_bit 11 (config_id b d f r) AND 0x1F = ucast d AND 0x1F"
    "drop_bit 8 (config_id b d f r) AND 7 = ucast f AND 7"
    "config_id b d f r AND 0xFC = r AND 0xFC"
    unfolding config_id_def config_masks e_def [symmetric]
    by (auto intro!: bit_word_eqI simp: bit_simps e; arith)+
qed

lemma low_inj:
  assumes "(ucast x :: u32) AND mask n = ucast y AND mask n" and "unat (x :: u16) < 2 ^ n" and "unat y < 2 ^ n" and "n \<le> 16"
  shows "x = y"
proof (rule bit_word_eqI)
  have small: "\<not> bit z k" if "unat z < 2 ^ n" "n \<le> k" for z :: u16 and k
  proof -
    have "unat z < 2 ^ k" using that by (meson le_less_trans less_le_trans one_le_numeral power_increasing)
    then have "\<not> bit (unat z) k" by (simp add: bit_iff_odd)
    then show ?thesis by (simp add: bit_unsigned_iff)
  qed
  fix k :: nat assume "k < LENGTH(16)"
  have "bit ((ucast x :: u32) AND mask n) k = bit ((ucast y :: u32) AND mask n) k" using assms(1) by simp
  then show "bit x k = bit y k" using small [OF assms(2), of k] small [OF assms(3), of k]
    by (cases "k < n") (use \<open>k < LENGTH(16)\<close> in \<open>auto simp: bit_simps\<close>)
qed

lemma config_id_inj:
  assumes "unat b < 256" "unat b' < 256" and "unat d < 32" "unat d' < 32" and "unat f < 8" "unat f' < 8"
    and "config_id b d f r = config_id b' d' f' r'"
  shows "b = b' \<and> d = d' \<and> f = f' \<and> r AND 0xFC = r' AND 0xFC"
proof -
  note same = config_fields [of b d f r, unfolded assms(7) config_fields, symmetric]
  have "b = b'" using low_inj [of b 8 b'] same(1) assms(1,2) by (simp add: config_masks)
  moreover have "d = d'" using low_inj [of d 5 d'] same(2) assms(3,4) by (simp add: config_masks)
  moreover have "f = f'" using low_inj [of f 3 f'] same(3) assms(5,6) by (simp add: config_masks)
  ultimately show ?thesis using same(4) by simp
qed


text \<open>
  Two configuration addresses are equal only if they name the same bus, device, function and double
  word: no access of the scan reaches another function.
\<close>

theorem config_addresses:
  assumes "unat b < 256" "unat b' < 256" and "unat d < 32" "unat d' < 32" and "unat f < 8" "unat f' < 8"
  shows "config_id b d f r = config_id b' d' f' r' \<longleftrightarrow>
    b = b' \<and> d = d' \<and> f = f' \<and> r AND 0xFC = r' AND 0xFC"
  using config_id_inj [OF assms, of r r'] by (auto simp: config_id_def)

text \<open>Two functions of one device, and the same registers named twice.\<close>

theorem config_addresses_witness:
  "config_id 1 2 3 0x0E = config_id 1 2 3 0x0C \<and> (0x0E :: u32) AND 0xFC = 0x0C AND 0xFC"
  using config_addresses [of 1 1 2 2 3 3 "0x0E" "0x0C"] by simp

subsection \<open>A machine whose configuration space does not change\<close>

text \<open>What the two ports are documented to do: the second one reads the register the first one named.\<close>

definition config_space :: "device \<Rightarrow> (u32 \<Rightarrow> u32) \<Rightarrow> bool" where
  "config_space dev cfg = (\<forall>h i. dev (h @ [Out32 0xCF8 i, In32 0xCFC]) = cfg i)"

definition cfg_read :: "(u32 \<Rightarrow> u32) \<Rightarrow> u16 \<Rightarrow> u16 \<Rightarrow> u16 \<Rightarrow> u32 \<Rightarrow> u32" where
  "cfg_read cfg b d f r = drop_bit (unat (8 * (r mod 4))) (cfg (config_id b d f r))"

definition cfg_vendor :: "(u32 \<Rightarrow> u32) \<Rightarrow> u16 \<times> u16 \<times> u16 \<Rightarrow> u16" where
  "cfg_vendor cfg = (\<lambda>(b, d, f). ucast (cfg_read cfg b d f 0))"

definition cfg_device :: "(u32 \<Rightarrow> u32) \<Rightarrow> u16 \<times> u16 \<times> u16 \<Rightarrow> u16" where
  "cfg_device cfg = (\<lambda>(b, d, f). ucast (cfg_read cfg b d f 2))"

definition cfg_class :: "(u32 \<Rightarrow> u32) \<Rightarrow> u16 \<times> u16 \<times> u16 \<Rightarrow> byte \<times> byte" where
  "cfg_class cfg = (\<lambda>(b, d, f). (ucast (cfg_read cfg b d f 0x0b), ucast (cfg_read cfg b d f 0x0a)))"

definition functions_of :: "(u32 \<Rightarrow> u32) \<Rightarrow> u16 \<Rightarrow> u16 \<Rightarrow> u16 list" where
  "functions_of cfg b d = map of_nat [0..<(if cfg_read cfg b d 0 0x0E AND 0x80 \<noteq> 0 then 8 else 1)]"

definition all_functions :: "(u32 \<Rightarrow> u32) \<Rightarrow> (u16 \<times> u16 \<times> u16) list" where
  "all_functions cfg =
     concat (map (\<lambda>b. concat (map (\<lambda>d. map (\<lambda>f. (b, d, f)) (functions_of cfg b d)) (map of_nat [0..<32])))
       (map of_nat [0..<8]))"

definition present :: "(u32 \<Rightarrow> u32) \<Rightarrow> u16 \<times> u16 \<times> u16 \<Rightarrow> bool" where
  "present cfg x = (cfg_vendor cfg x \<noteq> 0 \<and> cfg_vendor cfg x \<noteq> 0xFFFF)"

definition is_card :: "(u32 \<Rightarrow> u32) \<Rightarrow> u16 \<times> u16 \<times> u16 \<Rightarrow> bool" where
  "is_card cfg x = (cfg_vendor cfg x = 0x1022 \<and> cfg_device cfg x = 0x2000)"

text \<open>The line the scan should print for a function.\<close>

definition print_u16 :: "u16 \<Rightarrow> console \<Rightarrow> console" where
  "print_u16 w con = printfHex (ucast (w AND 0xFF)) (printfHex (ucast (drop_bit 8 (w AND 0xFF00))) con)"

definition announce :: "(u32 \<Rightarrow> u32) \<Rightarrow> u16 \<times> u16 \<times> u16 \<Rightarrow> console \<Rightarrow> console" where
  "announce cfg x con = (case x of (b, d, f) \<Rightarrow>
     let con = (if is_card cfg x then printf ''AMD am79c973 '' con
                else if cfg_class cfg x = (3, 0) then printf ''VGA '' con else con);
         con = printfHex (ucast (b AND 0xFF)) (printf ''PCI BUS '' con);
         con = printfHex (ucast (d AND 0xFF)) (printf '', DEVICE '' con);
         con = printfHex (ucast (f AND 0xFF)) (printf '', FUNCTION '' con);
         con = print_u16 (cfg_vendor cfg x) (printf '' = VENDOR '' con);
         con = print_u16 (cfg_device cfg x) (printf '', DEVICE '' con)
     in printf ''\<newline>'' con)"

lemma pci_Read_config:
  "config_space dev cfg \<Longrightarrow>
   pci_Read dev b d f r h = (cfg_read cfg b d f r, h @ [Out32 0xCF8 (config_id b d f r), In32 0xCFC])"
  by (simp add: pci_Read_def cfg_read_def config_space_def port_defs commandPort_def dataPort_def)

lemma GetDeviceDescriptor_config:
  assumes "config_space dev cfg" and "GetDeviceDescriptor dev junk b d f h = (ds, h')"
  shows "vendor_id ds = cfg_vendor cfg (b, d, f) \<and> device_id ds = cfg_device cfg (b, d, f) \<and>
    (class_id ds, subclass_id ds) = cfg_class cfg (b, d, f) \<and> bus ds = b \<and> device ds = d \<and> function_nr ds = f \<and>
    portBase ds = junk h"
  using assms(2) by (auto simp: GetDeviceDescriptor_def pci_Read_config [OF assms(1)] cfg_vendor_def cfg_device_def cfg_class_def)

lemma scan_bars_port: "\<exists>p. fst (scan_bars env d h) = d\<lparr>portBase := p\<rparr>"
proof -
  let ?f = "\<lambda>barNum (d, h).
        let (bar, h) = GetBaseAddressRegister (dev_of env) (junk_bar env) (bus d) (device d) (function_nr d) barNum h
        in (if bar_address bar \<noteq> 0 \<and> bar_type bar = InputOutput then d\<lparr>portBase := bar_address bar\<rparr> else d, h)"
  have "\<exists>p. fst (fold ?f ns (d, h)) = d\<lparr>portBase := p\<rparr>" for ns d h
  proof (induction ns arbitrary: d h)
    case Nil
    show ?case by (rule exI [of _ "portBase d"]) simp
  next
    case (Cons n ns)
    obtain p h' where "?f n (d, h) = (d\<lparr>portBase := p\<rparr>, h')"
    proof -
      obtain bar h' where "GetBaseAddressRegister (dev_of env) (junk_bar env) (bus d) (device d) (function_nr d) n h = (bar, h')"
        by (cases "GetBaseAddressRegister (dev_of env) (junk_bar env) (bus d) (device d) (function_nr d) n h")
      then have "?f n (d, h) = (d\<lparr>portBase := (if bar_address bar \<noteq> 0 \<and> bar_type bar = InputOutput
          then bar_address bar else portBase d)\<rparr>, h')" by simp
      then show thesis by (rule that)
    qed
    with Cons.IH [of "d\<lparr>portBase := p\<rparr>" h'] show ?case by auto
  qed
  then show ?thesis unfolding scan_bars_def .
qed


subsection \<open>The scan\<close>

text \<open>The heap is well formed and the list of drivers has room for \<open>n\<close> more.\<close>

definition scan_ok :: "nat \<Rightarrow> nat \<Rightarrow> nat \<Rightarrow> pci_state \<Rightarrow> bool" where
  "scan_ok start e n s =
     ((\<exists>bs. heap_blocks (heap s) start e bs) \<and>
      numDrivers (driverManager s) + n \<le> length (drivers (driverManager s)))"

definition announce_if :: "(u32 \<Rightarrow> u32) \<Rightarrow> u16 \<times> u16 \<times> u16 \<Rightarrow> console \<Rightarrow> console" where
  "announce_if cfg x con = (if present cfg x then announce cfg x con else con)"

definition card_cost :: "(u32 \<Rightarrow> u32) \<Rightarrow> u16 \<times> u16 \<times> u16 \<Rightarrow> nat" where
  "card_cost cfg x = (if is_card cfg x then 1 else 0)"

lemmas print_defs = pci_print_def pci_print_byte_def

lemma report_frame [simp]:
  "heap (report d s) = heap s" "driverManager (report d s) = driverManager s"
  "cards (report d s) = cards s" "accesses (report d s) = accesses s"
  by (simp_all add: report_def Let_def print_defs)

lemma construct_card_frame [simp]:
  "heap (construct_card env p d s) = heap s" "driverManager (construct_card env p d s) = driverManager s"
  "pci_console (construct_card env p d s) = pci_console s"
  by (simp_all add: construct_card_def split: prod.split)

lemma GetDriver_step:
  assumes "\<exists>bs. heap_blocks (heap s) start e bs"
  shows "\<exists>p s'. GetDriver env d s = Some (p, s') \<and> (\<exists>bs. heap_blocks (heap s') start e bs) \<and>
    driverManager s' = driverManager s \<and> (p \<noteq> 0 \<longrightarrow> vendor_id d = 0x1022 \<and> device_id d = 0x2000) \<and>
    pci_console s' = (if vendor_id d = 0x1022 \<and> device_id d = 0x2000 then printf ''AMD am79c973 '' (pci_console s)
      else if class_id d = 3 \<and> subclass_id d = 0 then printf ''VGA '' (pci_console s) else pci_console s)"
proof (cases "vendor_id d = 0x1022 \<and> device_id d = 0x2000")
  case True
  from assms obtain bs where bs: "heap_blocks (heap s) start e bs" ..
  from malloc_refines [OF bs, of "sizeof_card env"] obtain p mm bs' where
    "malloc (sizeof_card env) (heap s) = Some (p, mm)" "heap_blocks mm start e bs'" by blast
  with True show ?thesis by (auto simp: GetDriver_def Let_def print_defs)
next
  case False
  then show ?thesis using assms by (auto simp: GetDriver_def print_defs)
qed

lemma scan_function_step:
  assumes cfg: "config_space (dev_of env) cfg" and ok: "scan_ok start e (card_cost cfg (b, d, f) + n) s"
  shows "\<exists>s'. scan_function env b d f s = Some s' \<and> scan_ok start e n s' \<and>
    pci_console s' = announce_if cfg (b, d, f) (pci_console s)"
proof -
  obtain ds h where ds: "GetDeviceDescriptor (dev_of env) (junk_port env) b d f (accesses s) = (ds, h)"
    by (cases "GetDeviceDescriptor (dev_of env) (junk_port env) b d f (accesses s)")
  note fields = GetDeviceDescriptor_config [OF cfg ds]
  then have amd: "vendor_id ds = 0x1022 \<and> device_id ds = 0x2000 \<longleftrightarrow> is_card cfg (b, d, f)"
    and vga: "class_id ds = 3 \<and> subclass_id ds = 0 \<longleftrightarrow> cfg_class cfg (b, d, f) = (3, 0)"
    unfolding is_card_def by (metis, metis prod.inject)
  show ?thesis
  proof (cases "present cfg (b, d, f)")
    case False
    then show ?thesis using ok fields
      by (auto simp: scan_function_def ds present_def announce_if_def scan_ok_def)
  next
    case True
    then have v: "\<not> (vendor_id ds = 0 \<or> vendor_id ds = 0xFFFF)" using fields by (simp add: present_def)
    obtain p h' where p: "scan_bars env ds h = (ds\<lparr>portBase := p\<rparr>, h')"
      using scan_bars_port [of env ds h] by (metis prod.collapse)
    let ?d = "ds\<lparr>portBase := p\<rparr>"
    from ok have "\<exists>bs. heap_blocks (heap (s\<lparr>accesses := h'\<rparr>)) start e bs" by (simp add: scan_ok_def)
    moreover have "class_id ?d = class_id ds" "subclass_id ?d = subclass_id ds" "vendor_id ?d = vendor_id ds"
      "device_id ?d = device_id ds" "pci_console (s\<lparr>accesses := h'\<rparr>) = pci_console s"
      "driverManager (s\<lparr>accesses := h'\<rparr>) = driverManager s" by simp_all
    note GetDriver_step [OF calculation, of env ?d, unfolded this amd vga]
    then obtain drv s1 where
      s1: "GetDriver env ?d (s\<lparr>accesses := h'\<rparr>) = Some (drv, s1)" "\<exists>bs. heap_blocks (heap s1) start e bs"
      "driverManager s1 = driverManager s" "drv \<noteq> 0 \<longrightarrow> is_card cfg (b, d, f)"
      "pci_console s1 = (if is_card cfg (b, d, f) then printf ''AMD am79c973 '' (pci_console s)
        else if cfg_class cfg (b, d, f) = (3, 0) then printf ''VGA '' (pci_console s) else pci_console s)"
      by blast
    have shown: "pci_console (report ?d s2) = announce_if cfg (b, d, f) (pci_console s)"
      if "pci_console s2 = pci_console s1" for s2
      using that fields True
      by (simp add: report_def Let_def print_defs announce_if_def announce_def print_u16_def s1(5))
    have scan: "scan_function env b d f s =
        (if drv \<noteq> 0 then map_option (\<lambda>dm. report ?d (s1\<lparr>driverManager := dm\<rparr>)) (AddDriver drv (driverManager s1))
         else Some (report ?d s1))"
      using v by (simp add: scan_function_def ds p s1(1) Let_def)
    show ?thesis
    proof (cases "drv = 0")
      case True
      then show ?thesis using scan s1(2,3) ok shown by (auto simp: scan_ok_def)
    next
      case False
      then have "numDrivers (driverManager s) + Suc n \<le> length (drivers (driverManager s))"
        using s1(4) ok by (simp add: scan_ok_def card_cost_def)
      with False show ?thesis using scan s1(2,3) shown by (auto simp: scan_ok_def AddDriver_def)
    qed
  qed
qed

lemma scan_device_step:
  assumes cfg: "config_space (dev_of env) cfg"
    and ok: "scan_ok start e (sum_list (map (card_cost cfg) (map (\<lambda>f. (b, d, f)) (functions_of cfg b d))) + n) s"
  shows "\<exists>s'. scan_device env b d s = Some s' \<and> scan_ok start e n s' \<and>
    pci_console s' = fold (announce_if cfg) (map (\<lambda>f. (b, d, f)) (functions_of cfg b d)) (pci_console s)"
proof -
  let ?s = "s\<lparr>accesses := accesses s @ [Out32 0xCF8 (config_id b d 0 0x0E), In32 0xCFC]\<rparr>"
  have "scan_device env b d s = fold_option (scan_function env b d) (functions_of cfg b d) ?s"
    by (simp add: scan_device_def DeviceHasFunctions_def pci_Read_config [OF cfg] functions_of_def)
  moreover have "scan_ok start e (sum_list (map (\<lambda>f. card_cost cfg (b, d, f)) (functions_of cfg b d)) + n) ?s"
    using ok by (simp add: scan_ok_def comp_def)
  then have "\<exists>s'. fold_option (scan_function env b d) (functions_of cfg b d) ?s = Some s' \<and> scan_ok start e n s' \<and>
      pci_console s' = fold (\<lambda>f. announce_if cfg (b, d, f)) (functions_of cfg b d) (pci_console ?s)"
    by (intro fold_option_progress [where cost = "\<lambda>f. card_cost cfg (b, d, f)"] scan_function_step [OF cfg]) simp_all
  ultimately show ?thesis by (simp add: fold_map comp_def)
qed


lemma select_drivers_scan:
  assumes "config_space (dev_of env) cfg" and "heap_blocks (heap s) start e bs"
    and "numDrivers (driverManager s) + length (filter (is_card cfg) (all_functions cfg))
      \<le> length (drivers (driverManager s))"
  shows "\<exists>s' bs'. SelectDrivers env s = Some s' \<and> heap_blocks (heap s') start e bs' \<and>
    pci_console s' = fold (announce cfg) (filter (present cfg) (all_functions cfg)) (pci_console s)"
proof -
  let ?fs = "\<lambda>b d. map (\<lambda>f. (b, d, f)) (functions_of cfg b d)" and ?ds = "map of_nat [0..<32]"
  let ?fds = "\<lambda>b. concat (map (?fs b) ?ds)"
  have cost: "sum_list (map (card_cost cfg) xs) = length (filter (is_card cfg) xs)" for xs
    by (induction xs) (auto simp: card_cost_def)
  have seen: "fold (announce_if cfg) xs con = fold (announce cfg) (filter (present cfg) xs) con" for xs con
    by (induction xs arbitrary: con) (auto simp: announce_if_def)
  have total: "sum_list (map (card_cost cfg) (concat xss)) = sum_list (map (\<lambda>xs. sum_list (map (card_cost cfg) xs)) xss)" for xss
    by (induction xss) simp_all
  have step: "\<exists>s'. fold_option (scan_device env b) ?ds s = Some s' \<and> scan_ok start e n s' \<and>
      pci_console s' = fold (announce_if cfg) (?fds b) (pci_console s)"
    if "scan_ok start e (sum_list (map (card_cost cfg) (?fds b)) + n) s" for b n s
  proof -
    have "scan_ok start e (sum_list (map (\<lambda>d. sum_list (map (card_cost cfg) (?fs b d))) ?ds) + n) s"
      using that by (simp only: total map_map comp_def)
    then show ?thesis unfolding fold_concat_map
      by (intro fold_option_progress [where cost = "\<lambda>d. sum_list (map (card_cost cfg) (?fs b d))"]
          scan_device_step [OF assms(1)]) simp_all
  qed
  have "scan_ok start e (sum_list (map (card_cost cfg) (all_functions cfg)) + 0) s"
    using assms(2,3) by (auto simp: scan_ok_def cost)
  then have "scan_ok start e (sum_list (map (\<lambda>b. sum_list (map (card_cost cfg) (?fds b))) (map of_nat [0..<8])) + 0) s"
    by (simp only: all_functions_def total map_map comp_def)
  then have "\<exists>s'. SelectDrivers env s = Some s' \<and> scan_ok start e 0 s' \<and>
      pci_console s' = fold (\<lambda>b. fold (announce_if cfg) (?fds b)) (map of_nat [0..<8]) (pci_console s)"
    unfolding SelectDrivers_def
    by (intro fold_option_progress [where cost = "\<lambda>b. sum_list (map (card_cost cfg) (?fds b))"] step) simp_all
  moreover have "fold (\<lambda>b. fold (announce_if cfg) (?fds b)) (map of_nat [0..<8]) con =
      fold (announce cfg) (filter (present cfg) (all_functions cfg)) con" for con
    by (simp only: all_functions_def seen [symmetric] fold_concat_map)
  ultimately show ?thesis unfolding scan_ok_def by metis
qed


text \<open>A machine with one network card, function 0 of device 0 on bus 0, and a heap of 1 MiB.\<close>

definition one_card :: "u32 \<Rightarrow> u32" where
  "one_card i = (if i = 0x80000000 then 0x20001022 else 0)"

definition one_card_dev :: device where
  "one_card_dev h = (case rev h of In32 p # Out32 q i # _ \<Rightarrow> one_card i | _ \<Rightarrow> 0)"

definition one_card_env :: pci_env where
  "one_card_env =
     \<lparr>dev_of = one_card_dev, junk_port = (\<lambda>_. 0),
      junk_bar = (\<lambda>_. \<lparr>prefetchable = True, bar_address = 0, bar_size = 0, bar_type = MemoryMapping\<rparr>),
      junk_descr = (\<lambda>_. replicate 8 \<lparr>address = 0, flags = 0, flags2 = 0, avail = 0\<rparr>),
      sizeof_card = 0x8600,
      layout_at = (\<lambda>p. \<lparr>initBlock_at = p + 0x20, sendBufferDescrMemory_at = p + 0x40, sendBuffers_at = p + 0x100,
        recvBufferDescrMemory_at = p + 0x4200, recvBuffers_at = p + 0x4300\<rparr>),
      hardware_offset = 0x20\<rparr>"

definition one_card_state :: "console \<Rightarrow> pci_state" where
  "one_card_state con =
     \<lparr>accesses = [], pci_console = con,
      heap = new_manager 0x100000 0x100000 (\<lambda>_. \<lparr>next_chunk = 0, prev_chunk = 0, allocated = False, chunk_size = 0\<rparr>),
      cards = (\<lambda>_. None), pci_handlers = (\<lambda>_. 0),
      driverManager = DriverManager (replicate 265 0)\<rparr>"

lemma one_card_space: "config_space (dev_of one_card_env) one_card"
  by (simp add: config_space_def one_card_env_def one_card_dev_def)

lemma one_card_found: "filter (present one_card) (all_functions one_card) = [(0, 0, 0)]"
  "filter (is_card one_card) (all_functions one_card) = [(0, 0, 0)]"
proof -
  have bytes: "one_card (config_id b d f r) = 0" if "r AND 0xFC \<noteq> 0" for b d f r
    using that config_fields(4) [of b d f r] by (auto simp: one_card_def)
  have fns: "functions_of one_card b d = [0]" for b d
    by (simp add: functions_of_def cfg_read_def bytes)
  have id0: "config_id 0 0 0 0 = 0x80000000" "config_id 0 0 0 2 = 0x80000000" by (simp_all add: config_id_def)
  have other: "one_card (config_id b d 0 r) = 0"
    if "unat b < 8" "unat d < 32" "\<not> (b = 0 \<and> d = 0)" for b d r
    using that config_id_inj [of b 0 d 0 0 0 r 0] by (auto simp: one_card_def id0)
  have zero: "one_card 0x80000000 = 0x20001022" by (simp add: one_card_def)
  have vendor: "cfg_vendor one_card x = (if x = (0, 0, 0) then 0x1022 else 0)"
    if x: "x \<in> set (all_functions one_card)" for x
  proof -
    from x obtain b d :: u16 where b: "x = (b, d, 0)" "unat b < 8" "unat d < 32"
      by (auto simp: all_functions_def fns unat_of_nat)
    then show ?thesis using other [OF b(2,3), of 0] by (cases "b = 0 \<and> d = 0") (auto simp: cfg_vendor_def cfg_read_def id0 zero)
  qed
  have dev_nr: "cfg_device one_card (0, 0, 0) = 0x2000"
    by (simp add: cfg_device_def cfg_read_def id0 zero)
  have "filter ((=) (0, 0, 0)) (all_functions one_card) = [(0, 0, 0)]"
  proof -
    have "filter ((=) (0, 0, 0)) (map (\<lambda>d :: u16. (b, d, 0 :: u16)) (map of_nat [0..<32])) =
        (if b = 0 then [(0, 0, 0)] else [])" for b :: u16
      by (simp add: upt_rec)
    then show ?thesis by (simp add: all_functions_def fns filter_concat comp_def upt_rec)
  qed
  moreover have "filter (present one_card) (all_functions one_card) = filter ((=) (0, 0, 0)) (all_functions one_card)"
    "filter (is_card one_card) (all_functions one_card) = filter ((=) (0, 0, 0)) (all_functions one_card)"
    using vendor dev_nr by (auto intro!: filter_cong simp: present_def is_card_def split: if_splits)
  ultimately show "filter (present one_card) (all_functions one_card) = [(0, 0, 0)]"
    "filter (is_card one_card) (all_functions one_card) = [(0, 0, 0)]" by simp_all
qed

lemma one_card_heap: "\<exists>bs. heap_blocks (heap (one_card_state con)) 0x100000 0x200000 bs"
  using new_manager_blocks [of "0x100000" "0x100000"] by (auto simp: one_card_state_def)


subsection \<open>The drivers\<close>

text \<open>Every entry of the list is the address of a card that was constructed.\<close>

definition drivers_made :: "pci_state \<Rightarrow> bool" where
  "drivers_made s =
     (numDrivers (driverManager s) \<le> length (drivers (driverManager s)) \<and>
      (\<forall>i < numDrivers (driverManager s).
         drivers (driverManager s) ! i \<noteq> 0 \<and> cards s (drivers (driverManager s) ! i) \<noteq> None))"

lemma GetDriver_made:
  assumes "drivers_made s" and "GetDriver env d s = Some (p, s')"
  shows "drivers_made s' \<and> (p \<noteq> 0 \<longrightarrow> cards s' p \<noteq> None)"
proof -
  have "drivers_made (construct_card env q d t) \<and> cards (construct_card env q d t) q \<noteq> None"
    if "drivers_made t" for q t
    using that by (auto simp: drivers_made_def construct_card_def split: prod.split)
  moreover have "drivers_made (pci_print x t) = drivers_made t" "cards (pci_print x t) = cards t" for x t
    by (simp_all add: drivers_made_def print_defs)
  moreover have "drivers_made (s\<lparr>heap := mm\<rparr>)" for mm using assms(1) by (simp add: drivers_made_def)
  ultimately show ?thesis
    using assms by (auto simp: GetDriver_def Let_def split: if_splits option.splits)
qed

lemma scan_function_made:
  assumes "drivers_made s" and "scan_function env b d f s = Some s'"
  shows "drivers_made s'"
proof -
  have access: "drivers_made (s\<lparr>accesses := h\<rparr>)" for h using assms(1) by (simp add: drivers_made_def)
  have report: "drivers_made (report x t) = drivers_made t" for x t by (simp add: drivers_made_def)
  have added: "drivers_made (t\<lparr>driverManager := dm\<rparr>)"
    if "drivers_made t" "AddDriver p (driverManager t) = Some dm" "p \<noteq> 0" "cards t p = Some c" for p t dm c
    using that by (auto simp: drivers_made_def AddDriver_def nth_list_update less_Suc_eq split: if_splits)
  from assms(2) show ?thesis
    by (auto simp: scan_function_def report split: prod.splits if_splits option.splits
        dest!: GetDriver_made [OF access] intro: added access)
qed

text \<open>The drivers the scan adds are constructed objects: the loop that activates them follows no null
  pointer, even when the heap is full.
\<close>

theorem scanned_drivers_exist:
  assumes "drivers_made s" and "SelectDrivers env s = Some s'"
  shows "drivers_made s'"
proof -
  have "drivers_made s'" if s: "drivers_made s" "scan_device env b d s = Some s'" for b d s s'
  proof -
    from s(2) obtain h fs where scan: "fold_option (scan_function env b d) fs (s\<lparr>accesses := h\<rparr>) = Some s'"
      by (auto simp: scan_device_def split: prod.splits)
    have made: "drivers_made (s\<lparr>accesses := h\<rparr>)" using s(1) by (simp add: drivers_made_def)
    show ?thesis
      by (rule fold_option_inv [where P = drivers_made, OF _ made scan]) (rule scan_function_made)
  qed
  then have "drivers_made s'" if "drivers_made s" "fold_option (scan_device env b) ds s = Some s'" for b ds s s'
    using that by (rule fold_option_inv [where P = drivers_made])
  then show ?thesis
    using assms unfolding SelectDrivers_def by (rule fold_option_inv [where P = drivers_made])
qed

theorem scanned_drivers_exist_witness:
  "\<forall>con. \<exists>s'. SelectDrivers one_card_env (one_card_state con) = Some s' \<and> drivers_made s'"
proof
  fix con
  have "numDrivers (driverManager (one_card_state con)) + length [(0, 0, 0)] \<le>
      length (drivers (driverManager (one_card_state con)))" and "drivers_made (one_card_state con)"
    by (simp_all add: one_card_state_def DriverManager_def drivers_made_def)
  moreover obtain s' where "SelectDrivers one_card_env (one_card_state con) = Some s'"
    using calculation(1) one_card_heap [of con]
      select_drivers_scan [OF one_card_space, of "one_card_state con", unfolded one_card_found] by fastforce
  ultimately show "\<exists>s'. SelectDrivers one_card_env (one_card_state con) = Some s' \<and> drivers_made s'"
    using scanned_drivers_exist by blast
qed

subsection \<open>Registers that are never read\<close>

text \<open>
  The scan keeps only I/O addresses: a function all of whose base address registers map memory gets a
  port base that was never assigned.
\<close>

theorem stale_port_base:
  assumes cfg: "config_space (dev_of env) cfg" and "cfg_read cfg b d f 0x0E AND 0x7F = 0"
    and mem: "\<And>n. cfg_read cfg b d f (0x10 + 4 * ucast (n :: u16)) AND 1 = 0"
    and ds: "GetDeviceDescriptor (dev_of env) (junk_port env) b d f h = (ds, h')"
  shows "portBase (fst (scan_bars env ds h')) = junk_port env h"
proof -
  note fields = GetDeviceDescriptor_config [OF cfg ds]
  have "bar_type (fst (GetBaseAddressRegister (dev_of env) (junk_bar env) b d f n t)) = MemoryMapping"
    if "uint n < 6" for n t
    using that assms(2) mem [of n] by (simp add: GetBaseAddressRegister_def pci_Read_config [OF cfg] Let_def)
  then have type: "bar_type bar = MemoryMapping"
    if "GetBaseAddressRegister (dev_of env) (junk_bar env) (bus ds) (device ds) (function_nr ds) n t = (bar, t')"
      "uint n < 6" for n t bar t'
    using that fields by (metis fst_conv)
  let ?step = "\<lambda>barNum (d, h).
        let (bar, h) = GetBaseAddressRegister (dev_of env) (junk_bar env) (bus d) (device d) (function_nr d) barNum h
        in (if bar_address bar \<noteq> 0 \<and> bar_type bar = InputOutput then d\<lparr>portBase := bar_address bar\<rparr> else d, h)"
  have "\<exists>t'. ?step n (ds, t) = (ds, t')" if "uint n < 6" for n t
    using type [OF _ that] by (auto split: prod.split)
  then have "fst (fold ?step ns (ds, t)) = ds" if "\<forall>n \<in> set ns. uint n < 6" for ns t
    using that
  proof (induction ns arbitrary: t)
    case (Cons n ns)
    from Cons.prems(2) have "uint n < 6" by simp
    from Cons.prems(1) [OF this, of t] obtain t' where t': "?step n (ds, t) = (ds, t')" ..
    have "fst (fold ?step ns (ds, t')) = ds" using Cons.prems by (intro Cons.IH) simp_all
    then show ?case using t' by (simp only: fold_simps)
  qed simp
  from this [of "[0, 1, 2, 3, 4, 5]" h']
  have "fst (scan_bars env ds h') = ds" unfolding scan_bars_def by simp
  then show ?thesis using fields by simp
qed

end
