(* ===== verification/Kernel_Ata.thy ===== *)
theory Kernel_Ata
  imports Kernel_Ports Kernel_Console
begin

text \<open>
  The ATA driver of the kernel (os01, \<open>ata.cpp\<close>): identification of a drive and the transfer of one
  sector with 28-bit addressing. A drive that stays busy for ever keeps the driver in its loop; that is
  the value \<open>None\<close>.
\<close>

unbundle bit_operations_syntax

record ata =
  is_master :: bool
  dataPort :: port
  errorPort :: port
  sectorCountPort :: port
  lbaLowPort :: port
  lbaMidPort :: port
  lbaHiPort :: port
  devicePort :: port
  commandPort :: port
  controlPort :: port

definition AdvancedTechnologyAttachment :: "bool \<Rightarrow> u16 \<Rightarrow> ata" where
  "AdvancedTechnologyAttachment master portBase =
     \<lparr>is_master = master, dataPort = portBase, errorPort = portBase + 1, sectorCountPort = portBase + 2,
      lbaLowPort = portBase + 3, lbaMidPort = portBase + 4, lbaHiPort = portBase + 5, devicePort = portBase + 6,
      commandPort = portBase + 7, controlPort = portBase + 0x206\<rparr>"

definition ata_busy :: "byte \<Rightarrow> bool" where
  "ata_busy status = (status AND 0x80 = 0x80 \<and> status AND 0x01 \<noteq> 0x01)"

definition ata_char :: "byte \<Rightarrow> char" where "ata_char b = char_of (unat b)"

subsection \<open>Identify\<close>

fun print_words :: "device \<Rightarrow> ata \<Rightarrow> nat \<Rightarrow> console \<times> trace \<Rightarrow> console \<times> trace" where
  "print_words dev a 0 (con, h) = (con, h)"
| "print_words dev a (Suc n) (con, h) =
     (let (w, h) = Port16Bit_Read dev (dataPort a) h
      in print_words dev a n
           (printf [ata_char (ucast (drop_bit 8 w AND 0xFF)), ata_char (ucast (w AND 0xFF))] con, h))"

definition Identify :: "device \<Rightarrow> ata \<Rightarrow> console \<times> trace \<Rightarrow> (console \<times> trace) option" where
  "Identify dev a st =
     (case st of (con, h) \<Rightarrow>
      let drv = (if is_master a then 0xA0 else 0xB0);
          h = Port8Bit_Write (devicePort a) drv h;
          h = Port8Bit_Write (controlPort a) 0 h;
          h = Port8Bit_Write (devicePort a) 0xA0 h;
          (status, h) = Port8Bit_Read dev (commandPort a) h
      in if status = 0xFF then Some (con, h)
         else
      let h = Port8Bit_Write (devicePort a) drv h;
          h = Port8Bit_Write (sectorCountPort a) 0 h;
          h = Port8Bit_Write (lbaLowPort a) 0 h;
          h = Port8Bit_Write (lbaMidPort a) 0 h;
          h = Port8Bit_Write (lbaHiPort a) 0 h;
          h = Port8Bit_Write (commandPort a) 0xEC h;
          (status, h) = Port8Bit_Read dev (commandPort a) h
      in if status = 0x00 then Some (con, h)
         else case poll dev (commandPort a) ata_busy status h of
             None \<Rightarrow> None
           | Some (status, h) \<Rightarrow>
               if status AND 0x01 \<noteq> 0 then Some (printf ''ERROR'' con, h)
               else (case print_words dev a 256 (con, h) of (con, h) \<Rightarrow> Some (printf ''\<newline>'' con, h)))"

subsection \<open>Reading and writing a sector\<close>

definition address_sector :: "ata \<Rightarrow> u32 \<Rightarrow> trace \<Rightarrow> trace" where
  "address_sector a sectorNum h =
     (let h = Port8Bit_Write (devicePort a)
                ((if is_master a then 0xE0 else 0xF0) OR ucast (drop_bit 24 (sectorNum AND 0x0F000000))) h;
          h = Port8Bit_Write (errorPort a) 0 h;
          h = Port8Bit_Write (sectorCountPort a) 1 h;
          h = Port8Bit_Write (lbaLowPort a) (ucast (sectorNum AND 0x000000FF)) h;
          h = Port8Bit_Write (lbaMidPort a) (ucast (drop_bit 8 (sectorNum AND 0x0000FF00))) h
      in Port8Bit_Write (lbaLowPort a) (ucast (drop_bit 16 (sectorNum AND 0x00FF0000))) h)"

function read_words :: "device \<Rightarrow> ata \<Rightarrow> int \<Rightarrow> int \<Rightarrow> console \<times> trace \<Rightarrow> console \<times> trace" where
  "read_words dev a cnt i (con, h) =
     (if i < cnt
      then let (wdata, h) = Port16Bit_Read dev (dataPort a) h;
               t = [ata_char (ucast (wdata AND 0xFF)),
                    if i + 1 < cnt then ata_char (ucast (drop_bit 8 wdata AND 0xFF)) else CHR 0x00]
           in read_words dev a cnt (i + 2) (printf t con, h)
      else (con, h))"
  by pat_completeness auto
termination by (relation "measure (\<lambda>(dev, a, cnt, i, _). nat (cnt - i))") auto

function skip_words :: "device \<Rightarrow> ata \<Rightarrow> int \<Rightarrow> trace \<Rightarrow> trace" where
  "skip_words dev a i h =
     (if i < 512 then skip_words dev a (i + 2) (snd (Port16Bit_Read dev (dataPort a) h)) else h)"
  by pat_completeness auto
termination by (relation "measure (\<lambda>(dev, a, i, _). nat (512 - i))") auto

definition Read28 :: "device \<Rightarrow> ata \<Rightarrow> u32 \<Rightarrow> int \<Rightarrow> console \<times> trace \<Rightarrow> (console \<times> trace) option" where
  "Read28 dev a sectorNum cnt st =
     (if 0x0FFFFFFF < sectorNum then Some st
      else case st of (con, h) \<Rightarrow>
      let h = Port8Bit_Write (commandPort a) 0x20 (address_sector a sectorNum h);
          (status, h) = Port8Bit_Read dev (commandPort a) h
      in case poll dev (commandPort a) ata_busy status h of
           None \<Rightarrow> None
         | Some (status, h) \<Rightarrow>
             if status AND 0x01 \<noteq> 0 then Some (printf ''ERROR'' con, h)
             else (case read_words dev a cnt 0 (printf ''Reading ATA Drive: '' con, h) of
                     (con, h) \<Rightarrow> Some (con, skip_words dev a (cnt + cnt smod 2) h)))"

text \<open>\<open>cnt\<close> is at most 512 here, so that the \<open>int\<close> counter and the unsigned bound agree.\<close>

function write_words :: "ata \<Rightarrow> (nat \<Rightarrow> byte) \<Rightarrow> nat \<Rightarrow> nat \<Rightarrow> console \<times> trace \<Rightarrow> console \<times> trace" where
  "write_words a data cnt i (con, h) =
     (if i < cnt
      then let wdata = (if i + 1 < cnt then ucast (data i) OR push_bit 8 (ucast (data (i + 1))) else ucast (data i)) :: u16;
               t = [ata_char (ucast (drop_bit 8 wdata AND 0xFF)), ata_char (ucast (wdata AND 0xFF))]
           in write_words a data cnt (i + 2) (printf t con, Port16Bit_Write (dataPort a) wdata h)
      else (con, h))"
  by pat_completeness auto
termination by (relation "measure (\<lambda>(a, data, cnt, i, _). cnt - i)") auto

function pad_words :: "ata \<Rightarrow> nat \<Rightarrow> trace \<Rightarrow> trace" where
  "pad_words a i h = (if i < 512 then pad_words a (i + 2) (Port16Bit_Write (dataPort a) 0x0000 h) else h)"
  by pat_completeness auto
termination by (relation "measure (\<lambda>(a, i, _). 512 - i)") auto

definition Write28 :: "ata \<Rightarrow> u32 \<Rightarrow> (nat \<Rightarrow> byte) \<Rightarrow> u32 \<Rightarrow> console \<times> trace \<Rightarrow> console \<times> trace" where
  "Write28 a sectorNum data cnt st =
     (if 0x0FFFFFFF < sectorNum \<or> 512 < cnt then st
      else case st of (con, h) \<Rightarrow>
      let h = Port8Bit_Write (commandPort a) 0x30 (address_sector a sectorNum h)
      in case write_words a data (unat cnt) 0 (printf ''Writing to ATA Drive: '' con, h) of
           (con, h) \<Rightarrow> (con, pad_words a (unat cnt + unat cnt mod 2) h))"

definition Flush :: "device \<Rightarrow> ata \<Rightarrow> console \<times> trace \<Rightarrow> (console \<times> trace) option" where
  "Flush dev a st =
     (case st of (con, h) \<Rightarrow>
      let h = Port8Bit_Write (devicePort a) (if is_master a then 0xE0 else 0xF0) h;
          h = Port8Bit_Write (commandPort a) 0xE7 h;
          (status, h) = Port8Bit_Read dev (commandPort a) h
      in if status = 0x00 then Some (con, h)
         else case poll dev (commandPort a) ata_busy status h of
             None \<Rightarrow> None
           | Some (status, h) \<Rightarrow>
               if status AND 0x01 \<noteq> 0 then Some (printf ''ERROR'' con, h) else Some (con, h))"

declare read_words.simps [simp del] skip_words.simps [simp del] write_words.simps [simp del] pad_words.simps [simp del]

end
