(* ===== verification/Kernel_Ata_Properties.thy ===== *)
theory Kernel_Ata_Properties
  imports Kernel_Ata
begin

text \<open>
  The transfers of the ATA driver: a written sector holds the data padded with zeros, a read moves a
  whole sector and shows the bytes that were asked for, in order; and which sector is addressed.
\<close>

unbundle bit_operations_syntax

subsection \<open>Writing\<close>

definition word_bytes :: "u16 \<Rightarrow> byte list" where
  "word_bytes w = [ucast (w AND 0xFF), ucast (drop_bit 8 w AND 0xFF)]"

text \<open>The bytes a list of accesses sends through the data port, low byte of a word first.\<close>

definition data_out :: "ata \<Rightarrow> trace \<Rightarrow> byte list" where
  "data_out a h = concat (map (\<lambda>x. case x of Out16 p w \<Rightarrow> if p = dataPort a then word_bytes w else [] | _ \<Rightarrow> []) h)"

lemma data_out_simps [simp]:
  "data_out a [] = []" "data_out a (g @ h) = data_out a g @ data_out a h"
  "data_out a (Out16 (dataPort a) w # h) = word_bytes w @ data_out a h"
  "data_out a (Out8 p b # h) = data_out a h" "data_out a (In8 p # h) = data_out a h"
  "data_out a (In16 p # h) = data_out a h"
  by (simp_all add: data_out_def)

lemma word_bytes_pack [simp]:
  "word_bytes (ucast x OR push_bit 8 (ucast y)) = [x, y]" "word_bytes (ucast x) = [x, 0]" "word_bytes 0 = [0, 0]"
proof -
  have m: "(0xFF :: u16) = mask 8" by (simp add: mask_eq_exp_minus_1)
  have high: "\<not> bit x (8 + n)" for x :: byte and n using bit_imp_le_length [of x "8 + n"] by auto
  show "word_bytes (ucast x OR push_bit 8 (ucast y)) = [x, y]" "word_bytes (ucast x) = [x, 0]" "word_bytes 0 = [0, 0]"
    unfolding word_bytes_def m by (auto intro!: bit_word_eqI simp: bit_simps high)
qed

lemma pad_words_out:
  "even i \<Longrightarrow> i \<le> 512 \<Longrightarrow> \<exists>new. pad_words a i h = h @ new \<and> data_out a new = replicate (512 - i) 0"
proof (induction a i h rule: pad_words.induct)
  case (1 a i h)
  show ?case
  proof (cases "i < 512")
    case True
    with 1(2) have "i + 2 \<le> 512" by presburger
    with 1(1) [OF True] 1(2) obtain new where
      new: "pad_words a (i + 2) (Port16Bit_Write (dataPort a) 0 h) = Port16Bit_Write (dataPort a) 0 h @ new"
        "data_out a new = replicate (512 - (i + 2)) 0" by auto
    from \<open>i + 2 \<le> 512\<close> have "512 - i = Suc (Suc (512 - (i + 2)))" by simp
    then have "replicate (512 - i) (0 :: byte) = [0, 0] @ replicate (512 - (i + 2)) 0" by simp
    with new True show ?thesis by (subst pad_words.simps) (simp add: Port16Bit_Write_def)
  qed (use 1 in \<open>subst pad_words.simps, simp\<close>)
qed

lemma write_words_out:
  "even i \<Longrightarrow> \<exists>new con'. write_words a data n i (con, h) = (con', h @ new) \<and>
     data_out a new = map data [i..<n] @ (if odd n \<and> i < n then [0] else [])"
proof (induction a data n i "(con, h)" arbitrary: con h rule: write_words.induct)
  case (1 a data n i con h)
  show ?case
  proof (cases "i < n")
    case True
    let ?w = "if i + 1 < n then ucast (data i) OR push_bit 8 (ucast (data (i + 1))) else ucast (data i) :: u16"
    let ?t = "[ata_char (ucast (drop_bit 8 ?w AND 0xFF)), ata_char (ucast (?w AND 0xFF))]"
    from 1(1) [OF True refl refl] 1(2) obtain new con' where
      new: "write_words a data n (i + 2) (printf ?t con, Port16Bit_Write (dataPort a) ?w h) =
        (con', Port16Bit_Write (dataPort a) ?w h @ new)"
        "data_out a new = map data [i + 2..<n] @ (if odd n \<and> i + 2 < n then [0] else [])" by auto
    have "write_words a data n i (con, h) = (con', h @ Out16 (dataPort a) ?w # new)"
      using True new(1) by (subst write_words.simps) (simp add: Let_def Port16Bit_Write_def)
    moreover have "word_bytes ?w @ data_out a new = map data [i..<n] @ (if odd n \<and> i < n then [0] else [])"
    proof (cases "i + 1 < n")
      case True
      then have "i + 2 < n \<or> n = i + 2" by presburger
      then show ?thesis using True 1(2) new(2) by (auto simp: upt_conv_Cons)
    next
      case False
      with \<open>i < n\<close> have "n = Suc i" by simp
      then show ?thesis using 1(2) new(2) by simp
    qed
    ultimately show ?thesis by auto
  qed (subst write_words.simps, simp)
qed

text \<open>C35. A write sends exactly one sector: the \<open>n\<close> bytes that were passed, in order, and zeros up to 512 bytes,
  also for an odd \<open>n\<close>; it rejects more than 512 bytes and sector numbers of more than 28 bits.
\<close>

theorem write28_sector:
  assumes "Write28 a sectorNum data n (con, h) = (con', h')"
  shows "\<exists>new. h' = h @ new \<and> data_out a new =
     (if sectorNum \<le> 0x0FFFFFFF \<and> n \<le> 512
      then map data [0..<unat n] @ replicate (512 - unat n) 0 else [])"
proof (cases "sectorNum \<le> 0x0FFFFFFF \<and> n \<le> 512")
  case True
  let ?c = "Port8Bit_Write (commandPort a) 0x30 (address_sector a sectorNum h)"
  obtain pre where pre: "?c = h @ pre" "data_out a pre = []"
    by (simp add: address_sector_def Port8Bit_Write_def Let_def)
  have n: "unat n \<le> 512" using True by (simp add: word_le_nat_alt)
  obtain w con1 where w: "write_words a data (unat n) 0 (printf ''Writing to ATA Drive: '' con, ?c) = (con1, ?c @ w)"
    "data_out a w = map data [0..<unat n] @ (if odd (unat n) \<and> 0 < unat n then [0] else [])"
    using write_words_out [of 0 a data "unat n" "printf ''Writing to ATA Drive: '' con" ?c] by auto
  have "even (unat n + unat n mod 2)" "unat n + unat n mod 2 \<le> 512" using n by presburger+
  from pad_words_out [OF this, of a "?c @ w"] obtain z where
    z: "pad_words a (unat n + unat n mod 2) (?c @ w) = (?c @ w) @ z"
      "data_out a z = replicate (512 - (unat n + unat n mod 2)) 0" by blast
  have "\<not> 0x0FFFFFFF < sectorNum" "\<not> 512 < n" using True by (simp_all add: not_less)
  then have "h' = h @ (pre @ w @ z)" using assms w(1) z(1) pre(1) by (simp add: Write28_def Let_def)
  moreover have "(if odd (unat n) \<and> 0 < unat n then [0] else []) @ replicate (512 - (unat n + unat n mod 2)) 0 =
      replicate (512 - unat n) (0 :: byte)"
  proof (cases "odd (unat n)")
    case True
    then have "512 - unat n = Suc (512 - (unat n + unat n mod 2))" using n by presburger
    then show ?thesis using True by (auto simp: odd_pos)
  qed simp
  then have "data_out a (pre @ w @ z) = map data [0..<unat n] @ replicate (512 - unat n) 0"
    using pre(2) w(2) z(2) by simp
  ultimately show ?thesis using True by auto
next
  case False
  then show ?thesis using assms by (auto simp: Write28_def not_le)
qed

theorem write28_sector_witness:
  "\<exists>con' new. Write28 (AdvancedTechnologyAttachment True 0x1F0) 5 (\<lambda>i. of_nat i + 1) 3
       (\<lparr>video = \<lambda>_. 0, cur_x = 0, cur_y = 0\<rparr>, []) = (con', [] @ new) \<and>
     data_out (AdvancedTechnologyAttachment True 0x1F0) new = [1, 2, 3] @ replicate 509 0"
proof -
  let ?a = "AdvancedTechnologyAttachment True 0x1F0" and ?con = "\<lparr>video = \<lambda>_. 0, cur_x = 0, cur_y = 0\<rparr> :: console"
  obtain con' h' where r: "Write28 ?a 5 (\<lambda>i. of_nat i + 1) 3 (?con, []) = (con', h')"
    by (cases "Write28 ?a 5 (\<lambda>i. of_nat i + 1) 3 (?con, [])")
  have "map (\<lambda>i. of_nat i + 1 :: byte) [0..<3] = [1, 2, 3]" by (simp add: upt_rec)
  with write28_sector [OF r] r show ?thesis by auto
qed

subsection \<open>Reading\<close>

text \<open>The next \<open>n\<close> words the drive has to offer after the accesses \<open>h\<close>, and the strings they print as.\<close>

definition next_words :: "device \<Rightarrow> ata \<Rightarrow> trace \<Rightarrow> nat \<Rightarrow> u16 list" where
  "next_words dev a h n = map (\<lambda>k. ucast (dev (h @ replicate (Suc k) (In16 (dataPort a))))) [0..<n]"

fun pairs :: "'a list \<Rightarrow> 'a list list" where
  "pairs (x # y # zs) = [x, y] # pairs zs"
| "pairs [x] = [[x]]"
| "pairs [] = []"

definition show_bytes :: "byte list \<Rightarrow> console \<Rightarrow> console" where
  "show_bytes bs con = fold (\<lambda>p. printf (map ata_char p)) (pairs bs) con"

lemma next_words_Suc:
  "next_words dev a h (Suc n) = ucast (dev (h @ [In16 (dataPort a)])) # next_words dev a (h @ [In16 (dataPort a)]) n"
  by (simp add: next_words_def upt_conv_Cons comp_def flip: map_Suc_upt del: upt_Suc)

lemma printf_NUL: "printf [c, CHR 0x00] con = printf [c] con"
  by (simp add: printf_def c_str_def)

lemma read_words_run:
  assumes "0 \<le> i" and "cnt - i = 2 * int n \<or> cnt - i = 2 * int n - 1"
  shows "read_words dev a cnt i (con, h) =
    (show_bytes (take (nat (cnt - i)) (concat (map word_bytes (next_words dev a h n)))) con,
     h @ replicate n (In16 (dataPort a)))"
  using assms
proof (induction n arbitrary: i con h)
  case 0
  then have "cnt \<le> i" by auto
  then show ?case by (subst read_words.simps) (simp add: show_bytes_def next_words_def)
next
  case (Suc n)
  from Suc.prems(2) have less: "i < cnt"
    and n: "cnt - (i + 2) = 2 * int n \<or> cnt - (i + 2) = 2 * int n - 1"
    by auto
  let ?h = "h @ [In16 (dataPort a)]" and ?w = "ucast (dev (h @ [In16 (dataPort a)])) :: u16"
  let ?rest = "concat (map word_bytes (next_words dev a ?h n))"
  let ?t = "[ata_char (ucast (?w AND 0xFF)), if i + 1 < cnt then ata_char (ucast (drop_bit 8 ?w AND 0xFF)) else CHR 0x00]"
  have "read_words dev a cnt i (con, h) = read_words dev a cnt (i + 2) (printf ?t con, ?h)"
    using less by (subst read_words.simps) (simp add: Port16Bit_Read_def Let_def)
  also have "\<dots> = (show_bytes (take (nat (cnt - (i + 2))) ?rest) (printf ?t con), h @ replicate (Suc n) (In16 (dataPort a)))"
    using Suc.IH [OF _ n, of "printf ?t con" ?h] Suc.prems(1) by simp
  also have "show_bytes (take (nat (cnt - (i + 2))) ?rest) (printf ?t con) =
      show_bytes (take (nat (cnt - i)) (word_bytes ?w @ ?rest)) con"
  proof (cases "i + 1 < cnt")
    case True
    then have "nat (cnt - i) = Suc (Suc (nat (cnt - (i + 2))))" by simp
    with True show ?thesis by (simp add: show_bytes_def word_bytes_def)
  next
    case False
    then have "nat (cnt - i) = 1" "nat (cnt - (i + 2)) = 0" using less by auto
    with False show ?thesis by (simp add: show_bytes_def word_bytes_def printf_NUL)
  qed
  finally show ?case by (simp add: next_words_Suc)
qed

lemma skip_words_run:
  "512 = i + int (2 * n) \<Longrightarrow> skip_words dev a i h = h @ replicate n (In16 (dataPort a))"
proof (induction n arbitrary: i h)
  case (Suc n)
  then show ?case by (subst skip_words.simps) (simp add: Port16Bit_Read_def)
qed (subst skip_words.simps, simp)

text \<open>One status read and then the loop: the first answer that is not busy is the result.\<close>

lemma wait_ready:
  assumes "\<And>i. i < k \<Longrightarrow> ata_busy (answers dev p h i)" and "\<not> ata_busy (answers dev p h k)"
  shows "(case Port8Bit_Read dev p h of (status, h) \<Rightarrow> poll dev p ata_busy status h) =
    Some (answers dev p h k, h @ replicate (Suc k) (In8 p))"
proof (cases k)
  case 0
  then show ?thesis using assms(2) by (simp add: Port8Bit_Read_def poll_idle answers_def)
next
  case (Suc j)
  have first: "ata_busy (ucast (dev (h @ [In8 p])))" using assms(1) [of 0] Suc by (simp add: answers_def)
  have rest: "ata_busy (answers dev p (h @ [In8 p]) i)" if "i < j" for i
    using assms(1) [of "Suc i"] that Suc by (simp add: answers_Suc)
  have "\<not> ata_busy (answers dev p (h @ [In8 p]) j)" using assms(2) Suc by (simp add: answers_Suc)
  from poll_ready [where busy = ata_busy, OF first rest this] show ?thesis
    using Suc by (simp add: Port8Bit_Read_def answers_Suc)
qed

lemma next_words_prefix: "\<exists>ws. next_words dev a h (m + n) = next_words dev a h m @ ws"
  unfolding next_words_def by (simp only: upt_add_eq_append [OF zero_le] map_append) blast

lemma length_next_words: "length (concat (map word_bytes (next_words dev a h n))) = 2 * n"
  by (induction n arbitrary: h) (simp_all add: next_words_Suc word_bytes_def, simp add: next_words_def)

lemma read_sector:
  assumes "0 \<le> n" and "n \<le> 512"
  shows "(case read_words dev a n 0 (con, h) of (con, h) \<Rightarrow> (con, skip_words dev a (n + n smod 2) h)) =
    (show_bytes (take (nat n) (concat (map word_bytes (next_words dev a h 256)))) con,
     h @ replicate 256 (In16 (dataPort a)))"
proof -
  obtain m :: nat where m: "n - 0 = 2 * int m \<or> n - 0 = 2 * int m - 1"
  proof
    have e: "int (nat ((n + 1) div 2)) = (n + 1) div 2" using assms(1) by simp
    show "n - 0 = 2 * int (nat ((n + 1) div 2)) \<or> n - 0 = 2 * int (nat ((n + 1) div 2)) - 1"
      unfolding e by presburger
  qed
  have "x = 2 * k \<or> x = 2 * k - 1 \<Longrightarrow> x mod 2 = 2 * k - x" for x k :: int by presburger
  with m have "n mod 2 = 2 * int m - n" by simp
  moreover have "n smod 2 = n mod 2" using assms(1) by (simp add: signed_modulo_int_def sgn_if)
  moreover have le: "m \<le> 256" "nat n \<le> 2 * m" using m assms by auto
  ultimately have skip: "512 = n + n smod 2 + int (2 * (256 - m))" by simp
  obtain ws where "next_words dev a h (m + (256 - m)) = next_words dev a h m @ ws" using next_words_prefix by blast
  then have "take (nat n) (concat (map word_bytes (next_words dev a h 256))) =
      take (nat n) (concat (map word_bytes (next_words dev a h m)))"
    using le length_next_words [of dev a h m] by simp
  moreover have "replicate m x @ replicate (256 - m) x = replicate 256 x" for x :: access
    using le by (simp flip: replicate_add)
  ultimately show ?thesis
    using read_words_run [OF _ m, of dev a con h] skip_words_run [OF skip] by simp
qed

text \<open>A read of \<open>n\<close> bytes waits while the drive is busy, however often it is asked, and then moves exactly
  one sector of 256 words and shows its first \<open>n\<close> bytes in order; when the drive reports an error it
  says so and moves nothing.
\<close>

theorem read28_transfer:
  fixes a h k sectorNum
  defines "p \<equiv> commandPort a"
  defines "h0 \<equiv> Port8Bit_Write p 0x20 (address_sector a sectorNum h)"
  defines "h1 \<equiv> h0 @ replicate (Suc k) (In8 p)"
  assumes "sectorNum \<le> 0x0FFFFFFF" and "0 \<le> n" and "n \<le> 512"
    and "\<And>i. i < k \<Longrightarrow> ata_busy (answers dev p h0 i)" and "\<not> ata_busy (answers dev p h0 k)"
  shows "Read28 dev a sectorNum n (con, h) =
    Some (if answers dev p h0 k AND 1 \<noteq> 0 then (printf ''ERROR'' con, h1)
      else (show_bytes (take (nat n) (concat (map word_bytes (next_words dev a h1 256)))) (printf ''Reading ATA Drive: '' con),
            h1 @ replicate 256 (In16 (dataPort a))))"
proof -
  have "\<not> 0x0FFFFFFF < sectorNum" using assms(4) by (simp add: not_less)
  then have "Read28 dev a sectorNum n (con, h) =
      (case (case Port8Bit_Read dev p h0 of (status, h) \<Rightarrow> poll dev p ata_busy status h) of
         None \<Rightarrow> None
       | Some (status, h) \<Rightarrow>
           if status AND 1 \<noteq> 0 then Some (printf ''ERROR'' con, h)
           else Some (case read_words dev a n 0 (printf ''Reading ATA Drive: '' con, h) of
             (con, h) \<Rightarrow> (con, skip_words dev a (n + n smod 2) h)))"
    by (simp add: Read28_def Let_def p_def h0_def split: prod.split option.split)
  also have "(case Port8Bit_Read dev p h0 of (status, h) \<Rightarrow> poll dev p ata_busy status h) = Some (answers dev p h0 k, h1)"
    unfolding h1_def by (rule wait_ready [OF assms(7,8)])
  finally show ?thesis by (simp add: read_sector [OF assms(5,6)])
qed

text \<open>A drive that is busy once and whose words all spell ``BA''.\<close>

definition slow_drive :: device where
  "slow_drive h = (if length h = 8 then 0x80 else 0x4142)"

theorem read28_transfer_witness:
  "\<forall>con. \<exists>h. Read28 slow_drive (AdvancedTechnologyAttachment True 0x1F0) 7 2 (con, []) =
     Some (printf ''BA'' (printf ''Reading ATA Drive: '' con), h)"
proof
  fix con
  let ?a = "AdvancedTechnologyAttachment True 0x1F0"
  let ?h0 = "Port8Bit_Write (commandPort ?a) 0x20 (address_sector ?a 7 [])"
  have h0: "length ?h0 = 7" by (simp add: address_sector_def Port8Bit_Write_def Let_def)
  have busy0: "ata_busy (answers slow_drive (commandPort ?a) ?h0 i)" if "i < 1" for i
    using that h0 by (simp add: answers_def slow_drive_def ata_busy_def)
  have ready1: "answers slow_drive (commandPort ?a) ?h0 1 = 0x42"
    using h0 by (simp add: answers_def slow_drive_def)
  then have "\<not> ata_busy (answers slow_drive (commandPort ?a) ?h0 1)" by (simp add: ata_busy_def)
  note r = read28_transfer [OF _ _ _ busy0 this, of 2 con, unfolded ready1]
  let ?h1 = "?h0 @ replicate (Suc 1) (In8 (commandPort ?a))"
  have e: "Suc 255 = 256" by simp
  have w: "ucast (slow_drive (?h1 @ [In16 (dataPort ?a)])) = (0x4142 :: u16)"
    using h0 by (simp add: slow_drive_def)
  note word = next_words_Suc [of slow_drive ?a ?h1 255, unfolded w e]
  have first: "show_bytes (take (nat 2) (concat (map word_bytes (0x4142 # ws)))) con = printf ''BA'' con" for ws con
  proof -
    have "ata_char 0x42 = CHR ''B''" "ata_char 0x41 = CHR ''A''" by (simp_all add: ata_char_def char_of_def bit_0)
    moreover have "nat 2 = Suc (Suc 0)" by simp
    ultimately show ?thesis by (simp only: word_bytes_def list.map concat.simps append_Cons take_Suc_Cons take_0)
        (simp add: show_bytes_def)
  qed
  have ok: "\<not> (0x42 :: byte) AND 1 \<noteq> 0" "(7 :: u32) \<le> 0x0FFFFFFF" "(0 :: int) \<le> 2" "(2 :: int) \<le> 512" by simp_all
  show "\<exists>h. Read28 slow_drive ?a 7 2 (con, []) = Some (printf ''BA'' (printf ''Reading ATA Drive: '' con), h)"
    using r [OF ok(2-4)] unfolding if_not_P [OF ok(1)] word first by blast
qed

subsection \<open>The sector that is addressed\<close>

text \<open>What the drive finds in a register, and the 28-bit sector number its four registers make.\<close>

definition register :: "port \<Rightarrow> trace \<Rightarrow> byte" where
  "register p h = fold (\<lambda>x r. case x of Out8 q b \<Rightarrow> if q = p then b else r | _ \<Rightarrow> r) h 0"

definition selected_sector :: "ata \<Rightarrow> trace \<Rightarrow> nat" where
  "selected_sector a h =
     unat (register (lbaLowPort a) h) + 2 ^ 8 * unat (register (lbaMidPort a) h) +
     2 ^ 16 * unat (register (lbaHiPort a) h) + 2 ^ 24 * (unat (register (devicePort a) h) mod 16)"

text \<open>
  The driver stores the bits 16 to 23 of the sector number in the port of the bits 0 to 7 and never
  writes the port they belong in: all of the first 256 sectors are the same sector for the drive.
\<close>

theorem first_sectors_alias:
  assumes "s < 256"
  shows "selected_sector (AdvancedTechnologyAttachment m b) (address_sector (AdvancedTechnologyAttachment m b) s h) =
    2 ^ 16 * unat (register (b + 5) h)"
proof -
  have zero: "s AND push_bit k (mask n) = 0" if "8 \<le> k" for k n
  proof (rule bit_word_eqI)
    fix i assume "i < LENGTH(32)"
    have "\<not> bit s i" if "8 \<le> i"
    proof -
      have "unat s < 256" using assms by (simp add: word_less_nat_alt)
      also have "256 \<le> (2 ^ i :: nat)" using that power_increasing [of 8 i "2 :: nat"] by simp
      finally have "\<not> bit (unat s) i" by (simp add: bit_iff_odd)
      then show ?thesis by (simp add: bit_unsigned_iff)
    qed
    then show "bit (s AND push_bit k (mask n)) i = bit (0 :: u32) i" using that by (auto simp: bit_simps)
  qed
  have "s AND 0x0F000000 = 0" "s AND 0xFF00 = 0" "s AND 0x00FF0000 = 0"
    using zero [of 24 4] zero [of 8 8] zero [of 16 8] by (simp_all add: mask_eq_exp_minus_1)
  then show ?thesis
    by (simp add: selected_sector_def address_sector_def AdvancedTechnologyAttachment_def register_def
        Port8Bit_Write_def Let_def)
qed

end
