(* ===== verification/Spec2Isabelle.thy ===== *)
theory Spec2Isabelle
  imports Copy_Barrier Fat12_Properties Pide_Properties Pide_Client_Properties Pide_Server
    Grades_Properties Parking_Properties File_Client_Properties Ipc_Properties
    Kernel_Programs_Properties Kernel_Drivers_Properties Kernel_Gui_Properties
    Kernel_Vga_Properties Kernel_Net_Properties Kernel_Pci_Properties Kernel_Ata_Properties
begin

text \<open>
  A verification development for the system programming projects (\<open>sys01\<close> to \<open>sys07\<close>) and the
  operating system projects (\<open>os01\<close>, \<open>os02\<close>) of the repository. The projects are separate
  programs; what they share is the shape of the models. A component \<open>X\<close> is modelled in the theory
  \<open>X\<close> and its lemmas and theorems are in \<open>X_Properties\<close>, unless said otherwise.

  \<^bold>\<open>Foundations.\<close> \<open>Prelude\<close> holds the machine types, the collections of rules and the generic
  facts about lists, maps and multisets. \<open>C_Library\<close> is the part of the C standard library the
  programs use: strings up to their NUL, \<open>strcmp\<close>, \<open>strtok\<close>, \<open>atoi\<close>, \<open>strtol\<close>, decimal output.
  \<open>Transition_Systems\<close> is the interface of every component with several threads, processes or
  interrupts: locales for an inductive invariant, for progress, for termination by a measure and
  for a simulation; each is interpreted on the step relations of the models, and the properties
  rest on the facts these interpretations give.

  \<^bold>\<open>Directory copying utility\<close> (\<open>sys05\<close>, \<open>200104004019_main.c\<close>). A manager walks a directory tree and
  puts open descriptors into a bounded buffer; workers take them out and copy. \<open>Copy_Buffer\<close> is
  \<open>file_buffer\<close> and its refinement of a queue (the locale \<open>bounded_fifo\<close>); \<open>Copy_Scan\<close> is the
  read/write loop and \<open>process_directory\<close>; \<open>Copy_Threads\<close> is the machine of manager, workers, SIGINT
  and \<open>main\<close>, one step per critical section. \<open>Copy_Accounts\<close>, \<open>Copy_Invariants\<close>, \<open>Copy_Live\<close> and
  \<open>Copy_Results\<close> build the invariants: every descriptor has one owner, every file is waiting,
  being copied, copied or given up, and the counters agree with the sequential traversal.
  \<open>Copy_Properties\<close> concludes: no deadlock, termination under every schedule, and what has been
  copied when all threads have returned. \<open>Copy_Barrier\<close> is the version with a barrier (\<open>sys06\<close>), a
  refinement of the first machine.

  \<^bold>\<open>FAT12 image\<close> (\<open>os02\<close>, \<open>FAT12.h\<close>, \<open>makeFileSystem.c\<close>, \<open>fileSystemOper.c\<close>). \<open>Fat12\<close>: the image as a
  record of its fields, creation of an image, \<open>mkdir\<close>, \<open>rmdir\<close>, \<open>dir\<close>, \<open>dumpe2fs\<close>. The theorems give
  the effect of each operation, the invariant of images, and exactly which accesses leave the data
  region.

  \<^bold>\<open>Pide shop\<close> (\<open>sys07\<close>, \<open>server.c\<close>, \<open>client.c\<close>). \<open>Pide_Orders\<close>: the text of an order, written by the
  client and parsed by the server. \<open>Pide_Shop\<close>: the server's threads as a machine over the order
  table, with one condition variable for all. \<open>Pide_Server\<close>: its start, log and end.
  \<open>Pide_Invariants\<close>, \<open>Pide_Properties\<close>: no order is prepared or delivered twice. \<open>Pide_Client\<close>: the
  client generator; with the server it is shown that every customer's location arrives.

  \<^bold>\<open>Concurrent file access\<close> (\<open>sys03\<close>, \<open>server.c\<close>, \<open>client.c\<close>, \<open>sv_cl_lib.h\<close>). \<open>File_Server\<close>: admission of
  clients by the parent, the commands a child carries out, and two children that write one file.
  \<open>File_Client\<close>: the client and its conversation with the server. The theorems give the effect of
  the commands, the bound on admitted clients, the lost update of two writers, and that a session
  passes the lines typed to the server once each and in order.

  \<^bold>\<open>Smaller programs.\<close> \<open>Grades\<close> (\<open>sys01\<close>): every command of the grade manager over files and log,
  and its sort. \<open>Parking\<close> (\<open>sys04\<close>): owners, valets and semaphores. \<open>Ipc\<close> (\<open>sys02\<close>): parent and two
  children that talk through FIFOs and are ordered only by \<open>sleep\<close>, so the machine has a clock; with
  prompt processes the result is product plus sum, without that assumption it need not be.

  \<^bold>\<open>Kernel\<close> (\<open>os01\<close>). \<open>Kernel_Memory\<close> (\<open>memorymanagement.cpp\<close>): the chunk list in 32-bit memory, refined
  from a sequence of blocks with first fit and coalescing. \<open>Kernel_Console\<close> (\<open>kernel.cpp\<close>): \<open>printf\<close> on
  the text screen, refined from an endless typewriter, numbers, \<open>collatz\<close>. \<open>Kernel_Gdt\<close> (\<open>gdt.cpp\<close>).
  \<open>Kernel_Tasks\<close> (\<open>multitasking.cpp\<close>, the handler of \<open>syscalls.cpp\<close>): task table, \<open>fork\<close>, \<open>exit\<close>,
  \<open>execve\<close>, \<open>waitpid\<close> and the scheduler. \<open>Kernel_Interrupts\<close> (\<open>interrupts.cpp\<close>, \<open>interruptstubs.s\<close>,
  \<open>kernelMain\<close>): the way of an interrupt from its vector to the handler, and the start of the system.
  \<open>Kernel_Syscalls\<close> (\<open>syscalls.cpp\<close>): the calls as programs make them. \<open>Kernel_Programs\<close> (\<open>kernel.cpp\<close>):
  \<open>init\<close> and the test programs. These compose: \<open>kernelMain\<close> sets up heap, first task and handlers,
  an interrupt runs the scheduler or a call, and the invariant of table and heap holds in every
  state that any sequence of interrupts, calls and programs can reach. The scheduler is round robin
  and fair, a child is a copy of its parent, and a waiting parent goes on when its child exits.

  \<^bold>\<open>Drivers of the kernel.\<close> \<open>Kernel_Ports\<close> (\<open>port.cpp\<close>): accesses to I/O ports as a history.
  \<open>Kernel_Drivers\<close> (\<open>keyboard.cpp\<close>, \<open>mouse.cpp\<close>, \<open>driver.cpp\<close>), \<open>Kernel_Vga\<close> (\<open>vga.cpp\<close>), \<open>Kernel_Gui\<close>
  (\<open>widget.cpp\<close>, \<open>window.cpp\<close>, \<open>desktop.cpp\<close>; widgets in a store, since they refer to each other),
  \<open>Kernel_Pci\<close> (\<open>pci.cpp\<close>), \<open>Kernel_Net\<close> (\<open>amd_am79c973.cpp\<close>), \<open>Kernel_Ata\<close> (\<open>ata.cpp\<close>). The theorems say
  what reaches the device or the screen: the bytes of a sector, the frames of a ring, the pixels of a
  rectangle, the events a packet of the mouse stands for.

  \<^bold>\<open>Parameters and hypotheses.\<close> What is not in the repository is an argument: the file system of the
  copying utility, the disk's permissions, \<open>tar\<close> and \<open>readdir\<close>, what \<open>rand\<close>, \<open>read\<close>, the terminal and
  \<open>strftime\<close> give, whether a system call succeeds, uninitialised memory, the addresses a linker
  chooses. A device is a function from the history of port accesses to its answers. Hypotheses
  about these say that connections succeed, that a disk or a mouse delivers certain bytes next, that
  the graphics controller reads back what was written, or that the loader reports enough memory.

  \<^bold>\<open>Bounds.\<close> Loops that need not end (polling a device, the search of the chunk list, \<open>collatz\<close>, event
  dispatch through the widgets) are partial functions whose result \<open>None\<close> is not returning, and the
  theorems about them show that they return. \<open>process_directory\<close> takes a bound for the depth of
  its recursion; a bound that is enough can be increased without changing the result, some bound is
  enough exactly when the tree has no endless chain of directories, and a path that is cut off at
  511 characters is shown to exhaust every bound. All other loops end for
  every input, by structural recursion or a measure. Machine integers are words of their width, or
  integers whose overflow is written out.

  \<^bold>\<open>Not modelled.\<close> Failures of FIFOs, of \<open>fork\<close> in the programs for POSIX, of threads and locks; sockets
  below the level of a message; elapsed times and texts that only report progress. In the kernel,
  stacks are known by the register frames that lie on them: two frames that overlap in part, and the
  local variables of programs, are outside the model. A child of \<open>fork\<close> keeps the \<open>ebp\<close> of its
  parent, so both use one copy of the local variables and what they find there depends on the
  compiler; the test programs therefore take what a process reads from such a variable as an
  argument. Constructors of global objects (\<open>callConstructors\<close>), destructors, the delay of the slow
  ports, the code in comments of \<open>kernelMain\<close>, what the network card itself does with memory, the
  virtual box and disk images and the reports of the projects are left out.
\<close>

end
